(* ===== verification/Prelude.thy ===== *)
theory Prelude
  imports Main "HOL-Library.Word" "HOL-Library.Sublist" "HOL-Library.AList"
begin

text \<open>
  Shared vocabulary of the development: the outcome of a Rust call (a value, an error value
  or a panic), the state-passing type of code that talks to a stateful environment, the
  \<open>?\<close> operator as a combinator, and the generic lemmas on these and on lists that the
  component theories use.
\<close>

section \<open>Machine integers\<close>

type_synonym u8 = "8 word"
type_synonym i32 = "32 word"
type_synonym i64 = "64 word"

section \<open>Outcomes and state-passing code\<close>

text \<open>
  A call of the Rust code returns a value, returns an error value, or panics. A panic is an
  outcome of its own, since \<open>unwrap\<close> and out-of-range time arithmetic occur in the code.
\<close>

datatype ('a, 'e) outcome = Ok 'a | Err 'e | Panic

type_synonym ('s, 'a, 'e) io = "'s \<Rightarrow> ('a, 'e) outcome \<times> 's"

definition return :: "'a \<Rightarrow> ('s, 'a, 'e) io" where
  "return a s = (Ok a, s)"

definition throw :: "'e \<Rightarrow> ('s, 'a, 'e) io" where
  "throw e s = (Err e, s)"

definition panic :: "('s, 'a, 'e) io" where
  "panic s = (Panic, s)"

text \<open>
  \<open>qmark from m k\<close> is Rust's \<open>let a = m?; k(a)\<close>: an error of \<open>m\<close> is converted by
  \<open>from\<close> and returned at once, a panic of \<open>m\<close> ends the call.
\<close>

definition qmark ::
  "('d \<Rightarrow> 'e) \<Rightarrow> ('s, 'a, 'd) io \<Rightarrow> ('a \<Rightarrow> ('s, 'b, 'e) io) \<Rightarrow> ('s, 'b, 'e) io" where
  "qmark from m k s =
     (case m s of
        (Ok a, t) \<Rightarrow> k a t
      | (Err d, t) \<Rightarrow> (Err (from d), t)
      | (Panic, t) \<Rightarrow> (Panic, t))"

text \<open>
  \<open>handle m f\<close> is \<open>match m { ... }\<close>: the continuation sees the result, a panic still ends
  the call.
\<close>

definition handle ::
  "('s, 'a, 'd) io \<Rightarrow> ('d + 'a \<Rightarrow> ('s, 'b, 'e) io) \<Rightarrow> ('s, 'b, 'e) io" where
  "handle m k s =
     (case m s of
        (Ok a, t) \<Rightarrow> k (Inr a) t
      | (Err d, t) \<Rightarrow> k (Inl d) t
      | (Panic, t) \<Rightarrow> (Panic, t))"

text \<open>\<open>x.unwrap()\<close> on an option, as a step of a call.\<close>

definition unwrap :: "'a option \<Rightarrow> ('s, 'a, 'e) io" where
  "unwrap x s = (case x of None \<Rightarrow> (Panic, s) | Some a \<Rightarrow> (Ok a, s))"

named_theorems io_defs "the combinators, to be unfolded when a call is evaluated"
declare return_def [io_defs] throw_def [io_defs] panic_def [io_defs] unwrap_def [io_defs]

lemma qmark_Ok [simp]: "m s = (Ok a, t) \<Longrightarrow> qmark from m k s = k a t"
  by (simp add: qmark_def)

lemma qmark_Err [simp]: "m s = (Err d, t) \<Longrightarrow> qmark from m k s = (Err (from d), t)"
  by (simp add: qmark_def)

lemma qmark_Panic [simp]: "m s = (Panic, t) \<Longrightarrow> qmark from m k s = (Panic, t)"
  by (simp add: qmark_def)

lemma qmark_elim:
  assumes "qmark from m k s = (r, s')"
  obtains (Ok) a t where "m s = (Ok a, t)" "k a t = (r, s')"
    | (Err) d where "m s = (Err d, s')" "r = Err (from d)"
    | (Panic) "m s = (Panic, s')" "r = Panic"
proof -
  obtain x t where m: "m s = (x, t)" by (cases "m s")
  show thesis
    using assms m that by (cases x) (auto simp: qmark_def)
qed

lemma qmark_OkE:
  assumes "qmark from m k s = (Ok b, s')"
  obtains a t where "m s = (Ok a, t)" "k a t = (Ok b, s')"
  using assms by (rule qmark_elim) auto

lemma handle_elim:
  assumes "handle m k s = (r, s')"
  obtains (Ok) a t where "m s = (Ok a, t)" "k (Inr a) t = (r, s')"
    | (Err) d t where "m s = (Err d, t)" "k (Inl d) t = (r, s')"
    | (Panic) "m s = (Panic, s')" "r = Panic"
proof -
  obtain x t where m: "m s = (x, t)" by (cases "m s")
  show thesis
    using assms m that by (cases x) (auto simp: handle_def)
qed

text \<open>
  \<open>keeps P m\<close>: a call of \<open>m\<close> leaves the observation \<open>P\<close> of the state as it was,
  whatever its outcome. The rules follow the combinators, so a frame property of a composite
  call is proved by its structure.
\<close>

definition keeps :: "('s \<Rightarrow> 'v) \<Rightarrow> ('s, 'a, 'e) io \<Rightarrow> bool" where
  "keeps P m \<longleftrightarrow> (\<forall>s r s'. m s = (r, s') \<longrightarrow> P s' = P s)"

lemma keepsI: "(\<And>s r s'. m s = (r, s') \<Longrightarrow> P s' = P s) \<Longrightarrow> keeps P m"
  by (simp add: keeps_def)

lemma keepsD: "keeps P m \<Longrightarrow> m s = (r, s') \<Longrightarrow> P s' = P s"
  by (auto simp: keeps_def)

named_theorems keeps_intros "calls that leave an observation of the state unchanged"

lemma keeps_basic [keeps_intros]:
  "keeps P (return a)" "keeps P (throw e)" "keeps P panic" "keeps P (unwrap x)"
  by (auto simp: keeps_def io_defs split: option.splits)

lemma keeps_qmark [keeps_intros]:
  assumes "keeps P m" and "\<And>a. keeps P (k a)"
  shows "keeps P (qmark from m k)"
proof (rule keepsI)
  fix s r s'
  assume "qmark from m k s = (r, s')"
  then show "P s' = P s" by (rule qmark_elim) (metis assms keepsD)+
qed

lemma keeps_handle [keeps_intros]:
  assumes "keeps P m" and "\<And>a. keeps P (k a)"
  shows "keeps P (handle m k)"
proof (rule keepsI)
  fix s r s'
  assume "handle m k s = (r, s')"
  then show "P s' = P s" by (rule handle_elim) (metis assms keepsD)+
qed

lemma keeps_if [keeps_intros]:
  "keeps P m \<Longrightarrow> keeps P m' \<Longrightarrow> keeps P (if b then m else m')"
  by simp

lemma keeps_option [keeps_intros]:
  "keeps P m \<Longrightarrow> (\<And>a. keeps P (k a)) \<Longrightarrow> keeps P (case x of None \<Rightarrow> m | Some a \<Rightarrow> k a)"
  by (simp split: option.split)

lemma qmark_keeps:
  assumes "qmark from m k s = (r, s')" and "keeps P m"
  obtains (Ok) a t where "m s = (Ok a, t)" "P t = P s" "k a t = (r, s')"
    | (failed) "P s' = P s" "r = Panic \<or> (\<exists>d. r = Err (from d))"
  using assms(1)
proof (cases rule: qmark_elim)
  case (Ok a t)
  with assms(2) that(1) show ?thesis by (auto dest: keepsD)
next
  case (Err d)
  with assms(2) that(2) show ?thesis by (auto dest: keepsD)
next
  case Panic
  with assms(2) that(2) show ?thesis by (auto dest: keepsD)
qed

lemma outcome_run_Ok:
  assumes "case fst run of Ok a \<Rightarrow> P a | Err e \<Rightarrow> False | Panic \<Rightarrow> False"
  obtains a t where "run = (Ok a, t)" "P a"
  using assms by (cases run; cases "fst run") auto

section \<open>Lists\<close>

lemma sort_key_Nil_iff [simp]: "sort_key f xs = [] \<longleftrightarrow> xs = []"
  by (metis length_0_conv length_sort)

lemma distinct_map_sort_key [simp]:
  "distinct (map f (sort_key k xs)) \<longleftrightarrow> distinct (map f xs)"
  by (simp add: distinct_map)

lemma sorted_map_const: "(\<And>x. x \<in> set xs \<Longrightarrow> f x = c) \<Longrightarrow> sorted (map f xs)"
  by (induction xs) auto

lemma map_if_id: "(\<And>x. x \<in> set xs \<Longrightarrow> \<not> P x) \<Longrightarrow> map (\<lambda>x. if P x then f x else x) xs = xs"
  by (rule map_idI) simp

text \<open>An update that keeps the keys keeps the keys of the updated list.\<close>

lemma map_key_update:
  "(\<And>x. key (f x) = key x) \<Longrightarrow> map key (map (\<lambda>x. if P x then f x else x) xs) = map key xs"
  by simp

lemma distinct_map_unique:
  "distinct (map f xs) \<Longrightarrow> x \<in> set xs \<Longrightarrow> y \<in> set xs \<Longrightarrow> f x = f y \<Longrightarrow> x = y"
  by (metis distinct_map inj_onD)

lemma find_SomeD:
  assumes "find P xs = Some x"
  shows "x \<in> set xs" "P x"
  using assms by (auto simp: find_Some_iff)

lemma find_distinct_eq:
  assumes "distinct (map f xs)" and "x \<in> set xs"
  shows "find (\<lambda>y. f y = f x) xs = Some x"
proof -
  obtain i where i: "find (\<lambda>y. f y = f x) xs = Some i"
    using assms(2) by (cases "find (\<lambda>y. f y = f x) xs") (auto simp: find_None_iff)
  then have "i \<in> set xs" "f i = f x"
    by (auto simp: find_Some_iff in_set_conv_nth)
  with assms i show ?thesis by (metis distinct_map_unique)
qed

end
