(* ===== verification/Rust_Std.thy ===== *)
theory Rust_Std
  imports Prelude
begin

text \<open>
  The parts of Rust's standard library and of chrono's time arithmetic that the program
  uses: byte strings (\<open>String\<close> is a UTF-8 byte string, here a list of 8-bit characters),
  \<open>strip_prefix\<close>, \<open>split\<close>, \<open>split_once\<close>, \<open>trim\<close>, \<open>trim_matches\<close>, parsing and
  printing of integers, points in time and durations. Points in time are nanoseconds since
  2000-01-01 00:00:00 UTC, durations are nanoseconds.
\<close>

section \<open>Byte strings\<close>

text \<open>\<open>str::strip_prefix\<close> with a string pattern.\<close>

definition strip_prefix :: "string \<Rightarrow> string \<Rightarrow> string option" where
  "strip_prefix p s = (if prefix p s then Some (drop (length p) s) else None)"

lemma strip_prefix_append [simp]: "strip_prefix p (p @ s) = Some s"
  by (simp add: strip_prefix_def)

lemma strip_prefix_Some: "strip_prefix p s = Some t \<longleftrightarrow> s = p @ t"
  by (auto simp: strip_prefix_def prefix_def)

text \<open>\<open>str::split\<close> with a one-byte pattern: the parts between the separators, at least one.\<close>

fun split_on :: "char \<Rightarrow> string \<Rightarrow> string list" where
  "split_on c [] = [[]]"
| "split_on c (x # xs) =
     (if x = c then [] # split_on c xs
      else (case split_on c xs of [] \<Rightarrow> [[x]] | p # ps \<Rightarrow> (x # p) # ps))"

lemma split_on_nonempty [simp]: "split_on c xs \<noteq> []"
  by (induction xs) (auto split: list.splits)

lemma split_on_no_sep: "c \<notin> set xs \<Longrightarrow> split_on c xs = [xs]"
  by (induction xs) auto

lemma split_on_append: "c \<notin> set xs \<Longrightarrow> split_on c (xs @ c # ys) = xs # split_on c ys"
  by (induction xs) auto

text \<open>\<open>str::split_once\<close> with a one-byte pattern.\<close>

definition split_once :: "char \<Rightarrow> string \<Rightarrow> (string \<times> string) option" where
  "split_once c s =
     (case dropWhile (\<lambda>x. x \<noteq> c) s of
        [] \<Rightarrow> None
      | _ # t \<Rightarrow> Some (takeWhile (\<lambda>x. x \<noteq> c) s, t))"

lemma split_once_append: "c \<notin> set xs \<Longrightarrow> split_once c (xs @ c # ys) = Some (xs, ys)"
  by (induction xs) (auto simp: split_once_def split: list.splits)

text \<open>\<open>str::trim_matches\<close> with a predicate on (here: single-byte) characters.\<close>

definition trim_matches :: "(char \<Rightarrow> bool) \<Rightarrow> string \<Rightarrow> string" where
  "trim_matches p s = rev (dropWhile p (rev (dropWhile p s)))"

text \<open>
  \<open>str::trim\<close> removes the characters with the Unicode property \<open>White_Space\<close> at both ends.
  Their UTF-8 encodings are listed here; UTF-8 being self-synchronising, a suffix of a valid
  string that equals one of the encodings is that character.
\<close>

definition white_space :: "string list" where
  "white_space =
     [[CHR 0x09], [CHR 0x0A], [CHR 0x0B], [CHR 0x0C], [CHR 0x0D], [CHR 0x20],
      [CHR 0xC2, CHR 0x85], [CHR 0xC2, CHR 0xA0], [CHR 0xE1, CHR 0x9A, CHR 0x80],
      [CHR 0xE2, CHR 0x80, CHR 0x80], [CHR 0xE2, CHR 0x80, CHR 0x81],
      [CHR 0xE2, CHR 0x80, CHR 0x82], [CHR 0xE2, CHR 0x80, CHR 0x83],
      [CHR 0xE2, CHR 0x80, CHR 0x84], [CHR 0xE2, CHR 0x80, CHR 0x85],
      [CHR 0xE2, CHR 0x80, CHR 0x86], [CHR 0xE2, CHR 0x80, CHR 0x87],
      [CHR 0xE2, CHR 0x80, CHR 0x88], [CHR 0xE2, CHR 0x80, CHR 0x89],
      [CHR 0xE2, CHR 0x80, CHR 0x8A], [CHR 0xE2, CHR 0x80, CHR 0xA8],
      [CHR 0xE2, CHR 0x80, CHR 0xA9], [CHR 0xE2, CHR 0x80, CHR 0xAF],
      [CHR 0xE2, CHR 0x81, CHR 0x9F], [CHR 0xE3, CHR 0x80, CHR 0x80]]"

lemma white_space_nonempty: "w \<in> set white_space \<Longrightarrow> w \<noteq> []"
  by (auto simp: white_space_def)

text \<open>Strip, while one of the given nonempty words is a prefix, that word.\<close>

fun trim_words :: "string list \<Rightarrow> string \<Rightarrow> string" where
  "trim_words ws [] = []"
| "trim_words ws (c # cs) =
     (case find (\<lambda>w. w \<noteq> [] \<and> prefix w (c # cs)) ws of
        None \<Rightarrow> c # cs
      | Some w \<Rightarrow> trim_words ws (drop (length w - 1) cs))"

definition trim :: "string \<Rightarrow> string" where
  "trim s = rev (trim_words (map rev white_space) (rev (trim_words white_space s)))"

lemma length_trim_words: "length (trim_words ws s) \<le> length s"
proof (induction ws s rule: trim_words.induct)
  case (2 ws c cs)
  show ?case
  proof (cases "find (\<lambda>w. w \<noteq> [] \<and> prefix w (c # cs)) ws")
    case (Some w)
    with 2 have "length (trim_words ws (drop (length w - 1) cs)) \<le> length (drop (length w - 1) cs)"
      by blast
    with Some show ?thesis by simp
  qed simp
qed simp

lemma length_trim: "length (trim s) \<le> length s"
  unfolding trim_def length_rev
  by (metis length_rev length_trim_words le_trans)

text \<open>Text whose characters occur at no end of a white space character is not trimmed.\<close>

lemma trim_words_id:
  assumes "\<And>w. w \<in> set ws \<Longrightarrow> hd w \<notin> set s"
  shows "trim_words ws s = s"
proof (cases s)
  case (Cons c cs)
  have "\<not> (w \<noteq> [] \<and> prefix w (c # cs))" if "w \<in> set ws" for w
    using assms [OF that] Cons by (cases w) auto
  then have "find (\<lambda>w. w \<noteq> [] \<and> prefix w (c # cs)) ws = None"
    by (simp add: find_None_iff)
  with Cons show ?thesis by simp
qed simp

lemma trim_id:
  assumes "\<And>w. w \<in> set white_space \<Longrightarrow> hd w \<notin> set s \<and> last w \<notin> set s"
  shows "trim s = s"
proof -
  have "trim_words white_space s = s"
    using assms by (intro trim_words_id) blast
  moreover have "trim_words (map rev white_space) (rev s) = rev s"
    using assms white_space_nonempty by (intro trim_words_id) (auto simp: hd_rev)
  ultimately show ?thesis by (simp add: trim_def)
qed

section \<open>Integers and their text\<close>

definition is_digit :: "char \<Rightarrow> bool" where
  "is_digit c \<longleftrightarrow> (48::nat) \<le> of_char c \<and> (of_char c :: nat) \<le> 57"

definition digit_val :: "char \<Rightarrow> nat" where
  "digit_val c = of_char c - 48"

definition digit_char :: "nat \<Rightarrow> char" where
  "digit_char d = char_of (48 + d)"

lemma digit_char_simps:
  assumes "d < 10"
  shows "is_digit (digit_char d)" "digit_val (digit_char d) = d"
  using assms by (simp_all add: is_digit_def digit_val_def digit_char_def take_bit_nat_def)

text \<open>The digits loop of \<open>from_str_radix\<close>: the empty string is refused by the callers.\<close>

fun digits_val :: "nat \<Rightarrow> string \<Rightarrow> nat option" where
  "digits_val acc [] = Some acc"
| "digits_val acc (c # cs) =
     (if is_digit c then digits_val (10 * acc + digit_val c) cs else None)"

text \<open>
  \<open>str::parse\<close> at a type with the bounds \<open>lo\<close> and \<open>hi\<close>: an optional \<open>+\<close>, for a signed type
  an optional \<open>-\<close>, then at least one digit, then the range check. \<open>None\<close> is
  \<open>Err(ParseIntError)\<close>.
\<close>

definition parse_int :: "int \<Rightarrow> int \<Rightarrow> string \<Rightarrow> int option" where
  "parse_int lo hi s =
     (let (neg, ds) =
        (case s of
           [] \<Rightarrow> (False, [])
         | c # cs \<Rightarrow> if c = CHR ''+'' then (False, cs)
                    else if c = CHR ''-'' \<and> lo < 0 then (True, cs)
                    else (False, c # cs))
      in if ds = [] then None
         else case digits_val 0 ds of
                None \<Rightarrow> None
              | Some n \<Rightarrow> (let v = (if neg then - int n else int n)
                          in if lo \<le> v \<and> v \<le> hi then Some v else None))"

definition parse_u8 :: "string \<Rightarrow> u8 option" where
  "parse_u8 s = map_option word_of_int (parse_int 0 255 s)"

definition parse_i32 :: "string \<Rightarrow> i32 option" where
  "parse_i32 s = map_option word_of_int (parse_int (-2147483648) 2147483647 s)"

definition parse_i64 :: "string \<Rightarrow> i64 option" where
  "parse_i64 s =
     map_option word_of_int (parse_int (-9223372036854775808) 9223372036854775807 s)"

text \<open>\<open>to_string\<close> of integers.\<close>

fun show_nat :: "nat \<Rightarrow> string" where
  "show_nat n =
     (if n < 10 then [digit_char n] else show_nat (n div 10) @ [digit_char (n mod 10)])"

declare show_nat.simps [simp del]

definition show_int :: "int \<Rightarrow> string" where
  "show_int z = (if z < 0 then CHR ''-'' # show_nat (nat (- z)) else show_nat (nat z))"

definition show_i32 :: "i32 \<Rightarrow> string" where
  "show_i32 w = show_int (sint w)"

lemma digits_val_append:
  "digits_val acc (xs @ ys) = Option.bind (digits_val acc xs) (\<lambda>a. digits_val a ys)"
  by (induction acc xs rule: digits_val.induct) auto

lemma digits_val_show_nat: "digits_val 0 (show_nat n) = Some n"
proof (induction n rule: show_nat.induct)
  case (1 n)
  show ?case
  proof (cases "n < 10")
    case True
    then show ?thesis by (subst show_nat.simps) (simp add: digit_char_simps)
  next
    case False
    with 1 have "digits_val 0 (show_nat (n div 10)) = Some (n div 10)" by simp
    with False show ?thesis
      by (subst show_nat.simps) (simp add: digits_val_append digit_char_simps)
  qed
qed

lemma show_nat_digits: "c \<in> set (show_nat n) \<Longrightarrow> is_digit c"
proof (induction n rule: show_nat.induct)
  case (1 n)
  then show ?case
    by (cases "n < 10") (auto simp: show_nat.simps [of n] digit_char_simps)
qed

lemma show_nat_Cons: obtains c cs where "show_nat n = c # cs" "is_digit c"
proof (cases "show_nat n")
  case Nil
  then show ?thesis by (subst (asm) show_nat.simps) (simp split: if_splits)
next
  case (Cons c cs)
  with that show_nat_digits [of c n] show ?thesis by simp
qed

lemma not_digit_sign: "\<not> is_digit CHR ''+''" "\<not> is_digit CHR ''-''" "\<not> is_digit CHR '' ''"
  by (simp_all add: is_digit_def)

lemma parse_int_show_int:
  assumes "lo \<le> z" "z \<le> hi" and "lo \<le> 0"
  shows "parse_int lo hi (show_int z) = Some z"
proof (cases "z < 0")
  case True
  obtain c cs where "show_nat (nat (- z)) = c # cs" by (rule show_nat_Cons)
  with True assms digits_val_show_nat [of "nat (- z)"] show ?thesis
    by (simp add: parse_int_def show_int_def)
next
  case False
  obtain c cs where c: "show_nat (nat z) = c # cs" "is_digit c" by (rule show_nat_Cons)
  then have "c \<noteq> CHR ''+''" "c \<noteq> CHR ''-''" using not_digit_sign by auto
  with c False assms digits_val_show_nat [of "nat z"] show ?thesis
    by (simp add: parse_int_def show_int_def)
qed

lemma sint_i32_bounds: "- 2147483648 \<le> sint (w :: i32)" "sint w \<le> 2147483647"
  using sint_greater_eq [of w] sint_less [of w] by simp_all

lemma parse_i32_show_i32 [simp]: "parse_i32 (show_i32 w) = Some w"
  by (simp add: parse_i32_def show_i32_def parse_int_show_int sint_i32_bounds)

lemma parse_int_bounds: "parse_int lo hi s = Some v \<Longrightarrow> lo \<le> v \<and> v \<le> hi"
  by (auto simp: parse_int_def Let_def split: prod.splits option.splits if_splits)

section \<open>Points in time and durations\<close>

type_synonym time = int
type_synonym duration = int

definition second :: duration where "second = 1000000000"
definition minute :: duration where "minute = 60 * second"
definition hour :: duration where "hour = 60 * minute"
definition day :: duration where "day = 24 * hour"

lemmas time_units = second_def minute_def hour_def day_def

text \<open>
  \<open>DateTime<Utc>\<close> reaches from -262143-01-01 00:00:00 to the last nanosecond of
  262142-12-31: 96476249 days before and 95015280 days after the origin.
\<close>

definition MIN_UTC :: time where "MIN_UTC = - 96476249 * day"
definition MAX_UTC :: time where "MAX_UTC = 95015280 * day - 1"

text \<open>\<open>DateTime<Utc> + TimeDelta\<close>, \<open>None\<close> where the addition panics.\<close>

definition date_add :: "time \<Rightarrow> duration \<Rightarrow> time option" where
  "date_add t d = (if MIN_UTC \<le> t + d \<and> t + d \<le> MAX_UTC then Some (t + d) else None)"

text \<open>Division that truncates towards zero, as in \<open>TimeDelta::num_minutes\<close> and its kin.\<close>

definition towards_zero :: "int \<Rightarrow> int \<Rightarrow> int" where
  "towards_zero span unit = (if span < 0 then - ((- span) div unit) else span div unit)"

lemma towards_zero_nonneg: "0 \<le> a \<Longrightarrow> towards_zero a b = a div b"
  by (simp add: towards_zero_def)

lemma towards_zero_neg: "towards_zero (- a) b = - towards_zero a b"
  by (auto simp: towards_zero_def)

definition num_days :: "duration \<Rightarrow> int" where "num_days d = towards_zero d day"
definition num_hours :: "duration \<Rightarrow> int" where "num_hours d = towards_zero d hour"
definition num_minutes :: "duration \<Rightarrow> int" where "num_minutes d = towards_zero d minute"

text \<open>
  A \<open>timestamptz\<close> column holds microseconds since the same origin; the driver truncates
  towards zero when it writes a point in time.
\<close>

type_synonym timestamptz = int

definition to_timestamptz :: "time \<Rightarrow> timestamptz" where
  "to_timestamptz t = towards_zero t 1000"

definition of_timestamptz :: "timestamptz \<Rightarrow> time" where
  "of_timestamptz m = m * 1000"

lemma to_of_timestamptz [simp]: "to_timestamptz (of_timestamptz m) = m"
  by (simp add: to_timestamptz_def of_timestamptz_def towards_zero_def flip: mult_minus_left)

lemma to_timestamptz_mono: "0 \<le> a \<Longrightarrow> a \<le> b \<Longrightarrow> to_timestamptz a \<le> to_timestamptz b"
  by (simp add: to_timestamptz_def towards_zero_nonneg zdiv_mono1)

section \<open>Internet addresses\<close>

datatype IpAddr = V4 "32 word" | V6 "128 word"

definition octets :: "32 word \<Rightarrow> u8 list" where
  "octets a = map (\<lambda>i. ucast (drop_bit (24 - 8 * i) a)) [0, 1, 2, 3]"

definition segments :: "128 word \<Rightarrow> 16 word list" where
  "segments a = map (\<lambda>i. ucast (drop_bit (112 - 16 * i) a)) [0, 1, 2, 3, 4, 5, 6, 7]"

definition hex_char :: "nat \<Rightarrow> char" where
  "hex_char d = (if d < 10 then char_of (48 + d) else char_of (87 + d))"

text \<open>The formats \<open>{:x}\<close> and \<open>{:02x}\<close>.\<close>

fun show_hex :: "nat \<Rightarrow> string" where
  "show_hex n =
     (if n < 16 then [hex_char n] else show_hex (n div 16) @ [hex_char (n mod 16)])"

declare show_hex.simps [simp del]

definition hex_byte :: "u8 \<Rightarrow> string" where
  "hex_byte b = [hex_char (unat b div 16), hex_char (unat b mod 16)]"

definition join_with :: "string \<Rightarrow> string list \<Rightarrow> string" where
  "join_with sep ps = concat (case ps of [] \<Rightarrow> [] | q # qs \<Rightarrow> q # map (\<lambda>r. sep @ r) qs)"

definition show_ipv4 :: "32 word \<Rightarrow> string" where
  "show_ipv4 a = join_with ''.'' (map (\<lambda>o'. show_nat (unat o')) (octets a))"

text \<open>
  The loop of \<open>Ipv6Addr::fmt\<close> that looks for the longest run of zero segments: the running
  span and the longest one, as pairs of start and length.
\<close>

fun zero_span ::
  "nat \<Rightarrow> nat \<times> nat \<Rightarrow> nat \<times> nat \<Rightarrow> 16 word list \<Rightarrow> nat \<times> nat" where
  "zero_span i cur longest [] = longest"
| "zero_span i cur longest (s # ss) =
     (if s = 0
      then (let cur' = (if snd cur = 0 then (i, 1) else (fst cur, Suc (snd cur)))
            in zero_span (Suc i) cur' (if snd longest < snd cur' then cur' else longest) ss)
      else zero_span (Suc i) (0, 0) longest ss)"

definition show_ipv6 :: "128 word \<Rightarrow> string" where
  "show_ipv6 a =
     (let ss = segments a;
          sub = (\<lambda>xs. join_with '':'' (map (\<lambda>s. show_hex (unat s)) xs));
          (start, len) = zero_span 0 (0, 0) (0, 0) ss
      in if drop_bit 32 a = 0xffff then ''::ffff:'' @ show_ipv4 (ucast a)
         else if 1 < len then sub (take start ss) @ ''::'' @ sub (drop (start + len) ss)
         else sub ss)"

definition show_ip :: "IpAddr \<Rightarrow> string" where
  "show_ip a = (case a of V4 w \<Rightarrow> show_ipv4 w | V6 w \<Rightarrow> show_ipv6 w)"

end
