(* ===== verification/Models.thy ===== *)
theory Models
  imports Rust_Std
begin

text \<open>
  The data model of \<open>src/src/db/models.rs\<close>: the identifier newtypes with their text forms
  and their serde forms, and one record per row type. Field names carry the initial of their
  record, since record fields are global in HOL.
\<close>

section \<open>Identifiers\<close>

datatype UserId = UserId (user_raw: i32)
datatype HostId = HostId (host_raw: i32)
datatype GroupId = GroupId (group_raw: i32)
datatype ApiTokenId = ApiTokenId (token_raw: i32)

definition show_HostId :: "HostId \<Rightarrow> string" where
  "show_HostId h = show_i32 (host_raw h)"

definition show_GroupId :: "GroupId \<Rightarrow> string" where
  "show_GroupId g = show_i32 (group_raw g)"

definition show_ApiTokenId :: "ApiTokenId \<Rightarrow> string" where
  "show_ApiTokenId t = show_i32 (token_raw t)"

text \<open>\<open>TryFrom<String> for HostId\<close> and the two \<open>FromStr\<close> instances.\<close>

definition HostId_try_from :: "string \<Rightarrow> string + HostId" where
  "HostId_try_from s =
     (case parse_i32 s of
        Some v \<Rightarrow> Inr (HostId v)
      | None \<Rightarrow> Inl (''Wrong value '' @ s @ '', can not parse to as i32''))"

definition GroupId_from_str :: "string \<Rightarrow> string + GroupId" where
  "GroupId_from_str s =
     (case parse_i32 s of
        Some v \<Rightarrow> Inr (GroupId v)
      | None \<Rightarrow> Inl (''Wrong value '' @ s @ '', can not parse to as i32''))"

definition ApiTokenId_from_str :: "string \<Rightarrow> string + ApiTokenId" where
  "ApiTokenId_from_str s =
     (case parse_i32 s of
        Some v \<Rightarrow> Inr (ApiTokenId v)
      | None \<Rightarrow> Inl (''Wrong value '' @ s @ '', can not parse as i32''))"

text \<open>
  What the three identifiers with a text form have in common: a wrapper around an \<open>i32\<close>
  whose text form is that of the number.
\<close>

locale text_id =
  fixes wrap :: "i32 \<Rightarrow> 'id"
    and raw :: "'id \<Rightarrow> i32"
    and to_string :: "'id \<Rightarrow> string"
    and from_str :: "string \<Rightarrow> string + 'id"
  assumes wrap_raw: "wrap (raw x) = x"
    and to_string: "to_string x = show_i32 (raw x)"
    and from_str_Some: "parse_i32 s = Some v \<Longrightarrow> from_str s = Inr (wrap v)"
    and from_str_None: "parse_i32 s = None \<Longrightarrow> \<exists>msg. from_str s = Inl msg"
begin

lemma from_str_to_string: "from_str (to_string x) = Inr x"
  by (metis from_str_Some parse_i32_show_i32 to_string wrap_raw)

lemma to_string_inject: "to_string x = to_string y \<Longrightarrow> x = y"
  by (metis from_str_to_string sum.inject(2))

lemma from_str_total: "(\<exists>msg. from_str s = Inl msg) \<or> (\<exists>x. from_str s = Inr x)"
  by (cases "parse_i32 s") (use from_str_None from_str_Some in blast)+

end

interpretation host_text: text_id HostId host_raw show_HostId HostId_try_from
  by unfold_locales (auto simp: show_HostId_def HostId_try_from_def)

interpretation group_text: text_id GroupId group_raw show_GroupId GroupId_from_str
  by unfold_locales (auto simp: show_GroupId_def GroupId_from_str_def)

interpretation token_text: text_id ApiTokenId token_raw show_ApiTokenId ApiTokenId_from_str
  by unfold_locales (auto simp: show_ApiTokenId_def ApiTokenId_from_str_def)

section \<open>Rows\<close>

text \<open>An \<open>IpNetwork\<close> is an address with the length of its network prefix.\<close>

datatype IpNetwork = IpNetwork (net_ip: IpAddr) (net_prefix: u8)

record Group =
  g_id :: GroupId
  g_name :: string

record User =
  u_id :: UserId
  u_dn :: string
  u_tg_handle :: "string option"
  u_email :: string
  u_link :: string

record Host =
  h_id :: HostId
  h_hostname :: string
  h_ip_address :: IpNetwork
  h_leased_until :: "timestamptz option"
  h_user_id :: "UserId option"
  h_group_id :: GroupId

record LeasedHost =
  lh_id :: HostId
  lh_hostname :: string
  lh_ip_address :: IpNetwork
  lh_leased_until :: timestamptz
  lh_group :: "Group option"
  lh_user :: User

record HostListing =
  hl_id :: HostId
  hl_hostname :: string
  hl_ip_address :: IpNetwork
  hl_leased_until :: "timestamptz option"
  hl_group :: "Group option"
  hl_user_id :: "UserId option"
  hl_dn :: "string option"
  hl_tg_handle :: "string option"
  hl_email :: "string option"
  hl_link :: "string option"

record AdGroupLeaseLimit =
  al_group :: string
  al_limit :: i32

record ApiToken =
  t_id :: ApiTokenId
  t_user_id :: UserId
  t_name :: "string option"
  t_token_hash :: string
  t_created_at :: timestamptz

section \<open>Serde forms of the identifiers\<close>

text \<open>
  The JSON values that the identifiers are written to and read from. \<open>HostId\<close> is serialised
  as the number inside, but \<open>#[serde(try_from = "String")]\<close> makes its deserialiser ask for a
  string; \<open>GroupId\<close> is a number both ways.
\<close>

datatype json = JNull | JBool bool | JNum int | JStr string | JArr "json list"
  | JObj "(string \<times> json) list"

definition HostId_serialize :: "HostId \<Rightarrow> json" where
  "HostId_serialize h = JNum (sint (host_raw h))"

definition HostId_deserialize :: "json \<Rightarrow> string + HostId" where
  "HostId_deserialize j =
     (case j of JStr s \<Rightarrow> HostId_try_from s | _ \<Rightarrow> Inl ''invalid type, expected a string'')"

definition GroupId_serialize :: "GroupId \<Rightarrow> json" where
  "GroupId_serialize g = JNum (sint (group_raw g))"

definition GroupId_deserialize :: "json \<Rightarrow> string + GroupId" where
  "GroupId_deserialize j =
     (case j of
        JNum n \<Rightarrow> (if - 2147483648 \<le> n \<and> n \<le> 2147483647 then Inr (GroupId (word_of_int n))
                   else Inl ''invalid value, expected i32'')
      | _ \<Rightarrow> Inl ''invalid type, expected i32'')"

text \<open>
  The text form of a host, group or token identifier determines it: reading back what
  \<open>Display\<close> wrote gives the identifier, so the \<open>group_id\<close> cookie and the token path
  parameter survive the round trip.
\<close>

theorem id_text_roundtrip:
  "HostId_try_from (show_HostId h) = Inr h \<and>
   GroupId_from_str (show_GroupId g) = Inr g \<and>
   ApiTokenId_from_str (show_ApiTokenId t) = Inr t"
  by (simp add: host_text.from_str_to_string group_text.from_str_to_string
      token_text.from_str_to_string)

text \<open>
  A host identifier does not survive JSON: the number the API writes for it is refused
  by the deserialiser of the lease and release requests, which ask for its text, whereas a
  group identifier is read back as written.
\<close>

theorem id_json_asymmetry:
  "(\<exists>msg. HostId_deserialize (HostId_serialize h) = Inl msg) \<and>
   HostId_deserialize (JStr (show_HostId h)) = Inr h \<and>
   GroupId_deserialize (GroupId_serialize g) = Inr g"
  by (simp add: HostId_deserialize_def HostId_serialize_def GroupId_deserialize_def
      GroupId_serialize_def host_text.from_str_to_string sint_i32_bounds)

end
