(* ===== verification/Database.thy ===== *)
theory Database
  imports Models
begin

text \<open>
  The database behind \<open>Registry\<close>: the tables of \<open>src/migrations/\<close> with their constraints, the
  connection state (what is committed, what the open transaction sees), and the parameter
  \<open>server\<close> that stands for the PostgreSQL server and the network: which calls fail, in which
  order rows come that a statement leaves unordered, how the server compares addresses and
  texts, and the values of its defaults.
\<close>

section \<open>Tables and constraints\<close>

record database =
  users_t :: "User list"
  groups_t :: "Group list"
  hosts_t :: "Host list"
  lease_limits_t :: "AdGroupLeaseLimit list"
  api_tokens_t :: "ApiToken list"

definition user_ids :: "database \<Rightarrow> UserId set" where
  "user_ids d = u_id ` set (users_t d)"

definition users_ok :: "database \<Rightarrow> bool" where
  "users_ok d \<longleftrightarrow> distinct (map u_id (users_t d)) \<and> distinct (map u_dn (users_t d)) \<and>
     distinct (map u_link (users_t d))"

definition hosts_ok :: "database \<Rightarrow> bool" where
  "hosts_ok d \<longleftrightarrow> distinct (map h_id (hosts_t d)) \<and>
     (\<forall>h \<in> set (hosts_t d). h_group_id h \<in> g_id ` set (groups_t d)) \<and>
     (\<forall>h \<in> set (hosts_t d). \<forall>u. h_user_id h = Some u \<longrightarrow> u \<in> user_ids d)"

definition tokens_ok :: "database \<Rightarrow> bool" where
  "tokens_ok d \<longleftrightarrow> distinct (map t_id (api_tokens_t d)) \<and>
     distinct (map t_token_hash (api_tokens_t d)) \<and>
     (\<forall>t \<in> set (api_tokens_t d). t_user_id t \<in> user_ids d)"

text \<open>The constraints the migrations declare: primary keys, unique and foreign keys.\<close>

definition schema_ok :: "database \<Rightarrow> bool" where
  "schema_ok d \<longleftrightarrow> users_ok d \<and> distinct (map g_id (groups_t d)) \<and> hosts_ok d \<and>
     distinct (map al_group (lease_limits_t d)) \<and> tokens_ok d"

lemmas schema_defs = schema_ok_def users_ok_def hosts_ok_def tokens_ok_def

text \<open>
  What the program keeps besides: whoever holds a host holds it until some point in time.
  (The converse may fail: deleting a user clears \<open>user_id\<close> alone.)
\<close>

definition leases_ok :: "database \<Rightarrow> bool" where
  "leases_ok d \<longleftrightarrow> (\<forall>h \<in> set (hosts_t d). h_user_id h \<noteq> None \<longrightarrow> h_leased_until h \<noteq> None)"

definition db_ok :: "database \<Rightarrow> bool" where
  "db_ok d \<longleftrightarrow> schema_ok d \<and> leases_ok d"

lemma db_okD:
  assumes "db_ok d"
  shows "distinct (map u_id (users_t d))" "distinct (map h_id (hosts_t d))"
    "h \<in> set (hosts_t d) \<Longrightarrow> h_user_id h = Some u \<Longrightarrow> u \<in> user_ids d"
    "h \<in> set (hosts_t d) \<Longrightarrow> h_user_id h = Some u \<Longrightarrow> \<exists>t. h_leased_until h = Some t"
    "distinct (map t_id (api_tokens_t d))" "distinct (map t_token_hash (api_tokens_t d))"
  using assms by (auto simp: db_ok_def schema_defs leases_ok_def)

text \<open>
  The foreign keys of the migrations on a deleted user: hosts lose their holder
  (\<open>ON DELETE SET NULL\<close>), tokens go with the user (\<open>ON DELETE CASCADE\<close>). No code deletes users;
  an administrator may.
\<close>

definition delete_user_hosts :: "UserId \<Rightarrow> Host list \<Rightarrow> Host list" where
  "delete_user_hosts u hs =
     map (\<lambda>h. if h_user_id h = Some u then h\<lparr>h_user_id := None\<rparr> else h) hs"

definition delete_user_tokens :: "UserId \<Rightarrow> ApiToken list \<Rightarrow> ApiToken list" where
  "delete_user_tokens u ts = filter (\<lambda>t. t_user_id t \<noteq> u) ts"

definition delete_user :: "UserId \<Rightarrow> database \<Rightarrow> database" where
  "delete_user u d = d\<lparr>users_t := filter (\<lambda>x. u_id x \<noteq> u) (users_t d),
     hosts_t := delete_user_hosts u (hosts_t d),
     api_tokens_t := delete_user_tokens u (api_tokens_t d)\<rparr>"

section \<open>Server and connection\<close>

datatype sqlx_error = Io | RowNotFound | ColumnDecode | ForeignKeyViolation
  | UniqueViolation | SequenceLimit | DatetimeOverflow | OtherError

text \<open>
  The answer to a call: it is executed and answered; it is refused with an error and has no
  effect; or it is executed and the answer is lost.
\<close>

datatype reply = Answer | Refuse sqlx_error | AnswerLost

record server =
  reply :: "nat \<Rightarrow> reply"
  scan :: "nat \<Rightarrow> i32 \<Rightarrow> nat"
  scan_text :: "nat \<Rightarrow> string \<Rightarrow> nat"
  inet_key :: "IpNetwork \<Rightarrow> int"
  text_key :: "string \<Rightarrow> int"
  gen_uuid :: "nat \<Rightarrow> string"
  server_now :: "nat \<Rightarrow> timestamptz"

text \<open>
  Calls are numbered, so that every call may meet another answer. Sequences are outside the
  transaction: a value once drawn is not given back.
\<close>

record pg =
  calls :: nat
  committed :: database
  working :: database
  users_seq :: int
  tokens_seq :: int

type_synonym 'a tx = "(pg, 'a, sqlx_error) io"

definition begin_tx :: "server \<Rightarrow> unit tx" where
  "begin_tx srv s =
     (let t = s\<lparr>calls := Suc (calls s)\<rparr>
      in case reply srv (calls s) of
           Answer \<Rightarrow> (Ok (), t\<lparr>working := committed t\<rparr>)
         | Refuse e \<Rightarrow> (Err e, t)
         | AnswerLost \<Rightarrow> (Err Io, t))"

text \<open>
  A commit whose answer is lost has taken effect although the caller sees an error. A
  transaction that is dropped instead leaves \<open>committed\<close> as it was.
\<close>

definition commit_tx :: "server \<Rightarrow> unit tx" where
  "commit_tx srv s =
     (let t = s\<lparr>calls := Suc (calls s)\<rparr>
      in case reply srv (calls s) of
           Answer \<Rightarrow> (Ok (), t\<lparr>committed := working t\<rparr>)
         | Refuse e \<Rightarrow> (Err e, t)
         | AnswerLost \<Rightarrow> (Err Io, t\<lparr>committed := working t\<rparr>))"

text \<open>A statement \<open>f\<close> of the open transaction; it sees the number of its call.\<close>

definition stmt ::
  "server \<Rightarrow> (nat \<Rightarrow> pg \<Rightarrow> ('a, sqlx_error) outcome \<times> pg) \<Rightarrow> 'a tx" where
  "stmt srv f s =
     (let t = s\<lparr>calls := Suc (calls s)\<rparr>
      in case reply srv (calls s) of
           Answer \<Rightarrow> f (calls s) t
         | Refuse e \<Rightarrow> (Err e, t)
         | AnswerLost \<Rightarrow> (Err Io, snd (f (calls s) t)))"

definition query ::
  "server \<Rightarrow> (nat \<Rightarrow> database \<Rightarrow> ('a, sqlx_error) outcome) \<Rightarrow> 'a tx" where
  "query srv q = stmt srv (\<lambda>n s. (q n (working s), s))"

definition execute ::
  "server \<Rightarrow> (database \<Rightarrow> (database, sqlx_error) outcome) \<Rightarrow> unit tx" where
  "execute srv f = stmt srv (\<lambda>n s.
     (case f (working s) of
        Ok d \<Rightarrow> (Ok (), s\<lparr>working := d\<rparr>)
      | Err e \<Rightarrow> (Err e, s)
      | Panic \<Rightarrow> (Panic, s)))"

text \<open>The server answers every call.\<close>

definition fine :: "server \<Rightarrow> bool" where
  "fine srv \<longleftrightarrow> (\<forall>n. reply srv n = Answer)"

lemma fineD: "fine srv \<Longrightarrow> reply srv n = Answer"
  by (simp add: fine_def)

named_theorems fine_simps "calls to a server that answers"

lemma begin_tx_fine [fine_simps]:
  "fine srv \<Longrightarrow> begin_tx srv s = (Ok (), s\<lparr>calls := Suc (calls s), working := committed s\<rparr>)"
  by (simp add: begin_tx_def fineD)

lemma commit_tx_fine [fine_simps]:
  "fine srv \<Longrightarrow> commit_tx srv s = (Ok (), s\<lparr>calls := Suc (calls s), committed := working s\<rparr>)"
  by (simp add: commit_tx_def fineD)

lemma query_fine [fine_simps]:
  "fine srv \<Longrightarrow> query srv q s = (q (calls s) (working s), s\<lparr>calls := Suc (calls s)\<rparr>)"
  by (simp add: query_def stmt_def fineD)

lemma execute_fine [fine_simps]:
  "fine srv \<Longrightarrow> execute srv f s =
     (case f (working s) of
        Ok d \<Rightarrow> (Ok (), s\<lparr>calls := Suc (calls s), working := d\<rparr>)
      | Err e \<Rightarrow> (Err e, s\<lparr>calls := Suc (calls s)\<rparr>)
      | Panic \<Rightarrow> (Panic, s\<lparr>calls := Suc (calls s)\<rparr>))"
  by (simp add: execute_def stmt_def fineD split: outcome.splits)

text \<open>Inversions for a server that may fail.\<close>

lemma begin_tx_OkE:
  assumes "begin_tx srv s = (Ok x, t)"
  obtains "t = s\<lparr>calls := Suc (calls s), working := committed s\<rparr>"
  using assms by (auto simp: begin_tx_def Let_def split: reply.splits)

lemma query_OkE:
  assumes "query srv q s = (Ok x, t)"
  obtains "q (calls s) (working s) = Ok x" "t = s\<lparr>calls := Suc (calls s)\<rparr>"
  using assms by (auto simp: query_def stmt_def Let_def split: reply.splits)

lemma execute_OkE:
  assumes "execute srv f s = (Ok x, t)"
  obtains d where "f (working s) = Ok d" "t = s\<lparr>calls := Suc (calls s), working := d\<rparr>"
  using assms
  by (auto simp: execute_def stmt_def Let_def split: reply.splits outcome.splits)

lemma commit_tx_cases:
  assumes "commit_tx srv s = (r, t)"
  obtains (taken) "r = Ok ()" "committed t = working s"
    | (lost) "r = Err Io" "committed t = working s"
    | (refused) e where "r = Err e" "committed t = committed s"
  using assms by (auto simp: commit_tx_def Let_def split: reply.splits)

lemma query_Panic: "query srv q s = (Panic, t) \<Longrightarrow> q (calls s) (working s) = Panic"
  by (auto simp: query_def stmt_def Let_def split: reply.splits)

lemma tx_no_Panic [simp]:
  "begin_tx srv s \<noteq> (Panic, t)" "commit_tx srv s \<noteq> (Panic, t)"
  by (auto simp: begin_tx_def commit_tx_def Let_def split: reply.splits)

text \<open>Nothing but a commit changes what is committed.\<close>

lemma keeps_begin_tx [keeps_intros]: "keeps committed (begin_tx srv)"
  by (auto intro!: keepsI simp: begin_tx_def Let_def split: reply.splits)

lemma keeps_stmt:
  assumes "\<And>n s. committed (snd (f n s)) = committed s"
  shows "keeps committed (stmt srv f)"
proof (rule keepsI)
  fix s r s'
  assume "stmt srv f s = (r, s')"
  then show "committed s' = committed s"
    using assms [of "calls s" "s\<lparr>calls := Suc (calls s)\<rparr>"]
    by (auto simp: stmt_def Let_def split: reply.splits)
qed

lemma keeps_query [keeps_intros]: "keeps committed (query srv q)"
  by (simp add: query_def keeps_stmt)

lemma keeps_execute [keeps_intros]: "keeps committed (execute srv f)"
  unfolding execute_def by (rule keeps_stmt) (simp split: outcome.split)

text \<open>
  A transaction that ends in a commit is atomic: whatever goes wrong on the way, either
  nothing is committed, or what the transaction had prepared.
\<close>

lemma commit_tx_atomic:
  assumes "commit_tx srv s = (r, t)"
  shows "committed t = committed s \<or> committed t = working s"
  using assms by (rule commit_tx_cases) auto

end
