(* ===== verification/Registry.thy ===== *)
theory Registry
  imports Database
begin

text \<open>
  The statements of \<open>RegistryTx\<close> in \<open>src/src/db/mod.rs\<close>, one definition per method, in the
  source's order and under the source's names with the prefix \<open>tx_\<close>. Each is a query or an
  update of the tables as the SQL text says. Rows a statement does not order come in the
  order of \<open>scan\<close>; since identifiers are primary keys, every order is some \<open>scan\<close>.
\<close>

section \<open>Order of rows, joins and decoding\<close>

definition scan_hosts :: "server \<Rightarrow> nat \<Rightarrow> Host list \<Rightarrow> Host list" where
  "scan_hosts srv n hs = sort_key (\<lambda>h. scan srv n (host_raw (h_id h))) hs"

definition scan_users :: "server \<Rightarrow> nat \<Rightarrow> User list \<Rightarrow> User list" where
  "scan_users srv n us = sort_key (\<lambda>u. scan srv n (user_raw (u_id u))) us"

definition by_address :: "server \<Rightarrow> Host list \<Rightarrow> Host list" where
  "by_address srv hs = sort_key (\<lambda>h. inet_key srv (h_ip_address h)) hs"

text \<open>\<open>ORDER BY hosts.leased_until, hosts.ip_address\<close>: nulls come last.\<close>

definition by_lease_end :: "server \<Rightarrow> Host list \<Rightarrow> Host list" where
  "by_lease_end srv hs =
     sort_key (\<lambda>h. h_leased_until h = None)
       (sort_key (\<lambda>h. case h_leased_until h of None \<Rightarrow> 0 | Some t \<Rightarrow> t) (by_address srv hs))"

lemma set_row_order [simp]:
  "set (scan_hosts srv n hs) = set hs" "set (scan_users srv n us) = set us"
  "set (by_address srv hs) = set hs" "set (by_lease_end srv hs) = set hs"
  by (simp_all add: scan_hosts_def scan_users_def by_address_def by_lease_end_def)

lemma length_row_order [simp]:
  "length (scan_hosts srv n hs) = length hs" "length (by_lease_end srv hs) = length hs"
  "length (by_address srv hs) = length hs"
  by (simp_all add: scan_hosts_def by_address_def by_lease_end_def)

lemma row_order_Nil [simp]:
  "scan_hosts srv n hs = [] \<longleftrightarrow> hs = []" "by_address srv hs = [] \<longleftrightarrow> hs = []"
  "by_lease_end srv hs = [] \<longleftrightarrow> hs = []" "scan_users srv n us = [] \<longleftrightarrow> us = []"
  by (simp_all add: scan_hosts_def scan_users_def by_address_def by_lease_end_def)

lemma distinct_row_order [simp]:
  "distinct (map f (scan_hosts srv n hs)) = distinct (map f hs)"
  "distinct (map f (by_address srv hs)) = distinct (map f hs)"
  "distinct (map f (by_lease_end srv hs)) = distinct (map f hs)"
  by (simp_all add: scan_hosts_def by_address_def by_lease_end_def)

text \<open>\<open>FROM hosts JOIN users ON hosts.user_id = users.id\<close>, for hosts in the given order.\<close>

definition join_users :: "database \<Rightarrow> Host list \<Rightarrow> (Host \<times> User) list" where
  "join_users d hs =
     concat (map (\<lambda>h. map (Pair h) (filter (\<lambda>u. h_user_id h = Some (u_id u)) (users_t d))) hs)"

text \<open>
  Decoding of a joined row as a \<open>LeasedHost\<close>: the statements select no column \<open>group\<close>, so the
  field has its default, and a null \<open>leased_until\<close> is an error of the decoder.
\<close>

definition decode_LeasedHost :: "Host \<times> User \<Rightarrow> LeasedHost option" where
  "decode_LeasedHost hu =
     (case hu of (h, u) \<Rightarrow>
       (case h_leased_until h of
          None \<Rightarrow> None
        | Some t \<Rightarrow> Some \<lparr>lh_id = h_id h, lh_hostname = h_hostname h,
            lh_ip_address = h_ip_address h, lh_leased_until = t, lh_group = None,
            lh_user = u\<rparr>))"

definition decode_LeasedHosts ::
  "(Host \<times> User) list \<Rightarrow> (LeasedHost list, sqlx_error) outcome" where
  "decode_LeasedHosts rows =
     (case those (map decode_LeasedHost rows) of None \<Rightarrow> Err ColumnDecode | Some hs \<Rightarrow> Ok hs)"

definition fetch_one :: "('a, sqlx_error) outcome option \<Rightarrow> ('a, sqlx_error) outcome" where
  "fetch_one x = (case x of None \<Rightarrow> Err RowNotFound | Some r \<Rightarrow> r)"

definition first_row :: "'a list \<Rightarrow> 'a option" where
  "first_row xs = (case xs of [] \<Rightarrow> None | x # _ \<Rightarrow> Some x)"

lemma first_row_Some: "first_row xs = Some x \<Longrightarrow> x \<in> set xs"
  by (auto simp: first_row_def split: list.splits)

lemma first_row_None [simp]: "first_row xs = None \<longleftrightarrow> xs = []"
  by (auto simp: first_row_def split: list.splits)

section \<open>Hosts\<close>

definition tx_get_all_hosts :: "server \<Rightarrow> Host list tx" where
  "tx_get_all_hosts srv =
     query srv (\<lambda>n d. Ok (by_address srv (scan_hosts srv n (hosts_t d))))"

definition tx_get_available_group_hosts :: "server \<Rightarrow> GroupId \<Rightarrow> Host list tx" where
  "tx_get_available_group_hosts srv group_id = query srv (\<lambda>n d.
     Ok (by_address srv (scan_hosts srv n
       (filter (\<lambda>h. h_user_id h = None \<and> h_group_id h = group_id) (hosts_t d)))))"

definition tx_get_available_hosts :: "server \<Rightarrow> Host list tx" where
  "tx_get_available_hosts srv = query srv (\<lambda>n d.
     Ok (by_address srv (scan_hosts srv n (filter (\<lambda>h. h_user_id h = None) (hosts_t d)))))"

definition tx_get_first_available_group_host :: "server \<Rightarrow> GroupId \<Rightarrow> Host option tx" where
  "tx_get_first_available_group_host srv group_id = query srv (\<lambda>n d.
     Ok (first_row (scan_hosts srv n
       (filter (\<lambda>h. h_user_id h = None \<and> h_group_id h = group_id) (hosts_t d)))))"

definition tx_get_host :: "server \<Rightarrow> HostId \<Rightarrow> Host tx" where
  "tx_get_host srv host_id = query srv (\<lambda>n d.
     fetch_one (map_option Ok (find (\<lambda>h. h_id h = host_id) (hosts_t d))))"

definition tx_get_hosts :: "server \<Rightarrow> HostId list \<Rightarrow> Host list tx" where
  "tx_get_hosts srv hosts_ids = query srv (\<lambda>n d.
     Ok (scan_hosts srv n (filter (\<lambda>h. h_id h \<in> set hosts_ids) (hosts_t d))))"

definition tx_get_leased_host :: "server \<Rightarrow> HostId \<Rightarrow> LeasedHost tx" where
  "tx_get_leased_host srv host_id = query srv (\<lambda>n d.
     fetch_one (map_option
       (\<lambda>hu. case decode_LeasedHost hu of None \<Rightarrow> Err ColumnDecode | Some l \<Rightarrow> Ok l)
       (first_row (join_users d (filter (\<lambda>h. h_id h = host_id) (hosts_t d))))))"

definition tx_get_leased_hosts :: "server \<Rightarrow> UserId \<Rightarrow> LeasedHost list tx" where
  "tx_get_leased_hosts srv user_id = query srv (\<lambda>n d.
     decode_LeasedHosts (join_users d (by_lease_end srv (scan_hosts srv n
       (filter (\<lambda>h. h_user_id h = Some user_id) (hosts_t d))))))"

text \<open>
  The listing with its two left joins: a host row meets its user and its group if they exist,
  and \<open>NULL\<close> columns otherwise; a filter on the email drops hosts without a user.
\<close>

definition listing_row :: "database \<Rightarrow> Host \<Rightarrow> User option \<Rightarrow> HostListing" where
  "listing_row d h u = \<lparr>hl_id = h_id h, hl_hostname = h_hostname h,
     hl_ip_address = h_ip_address h, hl_leased_until = h_leased_until h,
     hl_group = find (\<lambda>g. g_id g = h_group_id h) (groups_t d),
     hl_user_id = map_option u_id u, hl_dn = map_option u_dn u,
     hl_tg_handle = Option.bind u u_tg_handle, hl_email = map_option u_email u,
     hl_link = map_option u_link u\<rparr>"

definition left_join_user :: "database \<Rightarrow> Host \<Rightarrow> User option" where
  "left_join_user d h = find (\<lambda>u. h_user_id h = Some (u_id u)) (users_t d)"

definition tx_get_hosts_filtered ::
  "server \<Rightarrow> string option \<Rightarrow> GroupId option \<Rightarrow> HostListing list tx" where
  "tx_get_hosts_filtered srv email group_id = query srv (\<lambda>n d.
     Ok (map (\<lambda>h. listing_row d h (left_join_user d h))
       (by_address srv (scan_hosts srv n
         (filter (\<lambda>h. (email = None \<or> map_option u_email (left_join_user d h) = email) \<and>
                      (group_id = None \<or> Some (h_group_id h) = group_id)) (hosts_t d))))))"

definition tx_get_leased_until_hosts :: "server \<Rightarrow> time \<Rightarrow> LeasedHost list tx" where
  "tx_get_leased_until_hosts srv until = query srv (\<lambda>n d.
     decode_LeasedHosts (join_users d (scan_hosts srv n
       (filter (\<lambda>h. case h_leased_until h of
                      None \<Rightarrow> False | Some t \<Rightarrow> t < to_timestamptz until) (hosts_t d)))))"

text \<open>The range of \<open>timestamptz\<close>: 4713 BC to 294276 AD, in microseconds since 2000.\<close>

definition timestamptz_ok :: "timestamptz \<Rightarrow> bool" where
  "timestamptz_ok t \<longleftrightarrow> - 211813488000000000 \<le> t \<and> t < 9223371331200000000"

definition assign_hosts ::
  "UserId \<Rightarrow> HostId list \<Rightarrow> timestamptz \<Rightarrow> database \<Rightarrow> database" where
  "assign_hosts user_id ids until d = d\<lparr>hosts_t := map (\<lambda>h. if h_id h \<in> set ids
     then h\<lparr>h_user_id := Some user_id, h_leased_until := Some until\<rparr> else h) (hosts_t d)\<rparr>"

definition tx_lease_hosts :: "server \<Rightarrow> UserId \<Rightarrow> HostId list \<Rightarrow> time \<Rightarrow> unit tx" where
  "tx_lease_hosts srv user_id hosts_ids untill = execute srv (\<lambda>d.
     if \<not> timestamptz_ok (to_timestamptz untill) then Err DatetimeOverflow
     else if (\<exists>h \<in> set (hosts_t d). h_id h \<in> set hosts_ids) \<and> user_id \<notin> user_ids d
     then Err ForeignKeyViolation
     else Ok (assign_hosts user_id hosts_ids (to_timestamptz untill) d))"

definition clear_hosts :: "(Host \<Rightarrow> bool) \<Rightarrow> database \<Rightarrow> database" where
  "clear_hosts P d = d\<lparr>hosts_t := map (\<lambda>h. if P h
     then h\<lparr>h_user_id := None, h_leased_until := None\<rparr> else h) (hosts_t d)\<rparr>"

definition tx_free_hosts_for_user :: "server \<Rightarrow> HostId list \<Rightarrow> UserId \<Rightarrow> unit tx" where
  "tx_free_hosts_for_user srv hosts_ids user_id = execute srv (\<lambda>d.
     Ok (clear_hosts (\<lambda>h. h_id h \<in> set hosts_ids \<and> h_user_id h = Some user_id) d))"

definition tx_free_hosts :: "server \<Rightarrow> HostId list \<Rightarrow> unit tx" where
  "tx_free_hosts srv hosts_ids = execute srv (\<lambda>d.
     Ok (clear_hosts (\<lambda>h. h_id h \<in> set hosts_ids) d))"

definition tx_free_all :: "server \<Rightarrow> UserId \<Rightarrow> unit tx" where
  "tx_free_all srv user_id = execute srv (\<lambda>d.
     Ok (clear_hosts (\<lambda>h. h_user_id h = Some user_id) d))"

section \<open>Users\<close>

definition tx_get_user_by_id :: "server \<Rightarrow> UserId \<Rightarrow> User option tx" where
  "tx_get_user_by_id srv user_id = query srv (\<lambda>n d.
     Ok (find (\<lambda>u. u_id u = user_id) (users_t d)))"

definition tx_get_user_by_mail :: "server \<Rightarrow> string \<Rightarrow> User option tx" where
  "tx_get_user_by_mail srv mail = query srv (\<lambda>n d.
     Ok (first_row (scan_users srv n (filter (\<lambda>u. u_email u = mail) (users_t d)))))"

definition tx_get_user_by_dn :: "server \<Rightarrow> string \<Rightarrow> User option tx" where
  "tx_get_user_by_dn srv dn = query srv (\<lambda>n d.
     Ok (find (\<lambda>u. u_dn u = dn) (users_t d)))"

definition tx_get_user_by_link :: "server \<Rightarrow> string \<Rightarrow> User option tx" where
  "tx_get_user_by_link srv link = query srv (\<lambda>n d.
     Ok (find (\<lambda>u. u_link u = link) (users_t d)))"

text \<open>\<open>tg_handle\<close> is not unique: with several matching users the server picks one.\<close>

definition tx_get_user_by_tg_handle :: "server \<Rightarrow> string \<Rightarrow> User option tx" where
  "tx_get_user_by_tg_handle srv tg_handle = query srv (\<lambda>n d.
     Ok (first_row (scan_users srv n
       (filter (\<lambda>u. u_tg_handle u = Some tg_handle) (users_t d)))))"

definition tx_get_expiring_hosts_for_user ::
  "server \<Rightarrow> UserId \<Rightarrow> time \<Rightarrow> LeasedHost list tx" where
  "tx_get_expiring_hosts_for_user srv user_id expiring_before = query srv (\<lambda>n d.
     decode_LeasedHosts (join_users d (by_lease_end srv (scan_hosts srv n
       (filter (\<lambda>h. h_user_id h = Some user_id \<and>
          (case h_leased_until h of
             None \<Rightarrow> False | Some t \<Rightarrow> t < to_timestamptz expiring_before)) (hosts_t d))))))"

definition hour_us :: int where "hour_us = 3600000000"

definition prolong_hosts :: "HostId list \<Rightarrow> int \<Rightarrow> database \<Rightarrow> database" where
  "prolong_hosts ids hours d = d\<lparr>hosts_t := map (\<lambda>h. if h_id h \<in> set ids
     then h\<lparr>h_leased_until := map_option (\<lambda>t. t + hours * hour_us) (h_leased_until h)\<rparr>
     else h) (hosts_t d)\<rparr>"

definition tx_extend_hosts_lease :: "server \<Rightarrow> HostId list \<Rightarrow> i32 \<Rightarrow> unit tx" where
  "tx_extend_hosts_lease srv hosts_ids hours = execute srv (\<lambda>d.
     if \<exists>h \<in> set (hosts_t d). h_id h \<in> set hosts_ids \<and>
          (case h_leased_until h of
             None \<Rightarrow> False | Some t \<Rightarrow> \<not> timestamptz_ok (t + sint hours * hour_us))
     then Err DatetimeOverflow
     else Ok (prolong_hosts hosts_ids (sint hours) d))"

definition set_tg_handle :: "UserId \<Rightarrow> string \<Rightarrow> database \<Rightarrow> database" where
  "set_tg_handle user_id tg d = d\<lparr>users_t := map (\<lambda>u. if u_id u = user_id
     then u\<lparr>u_tg_handle := Some tg\<rparr> else u) (users_t d)\<rparr>"

definition tx_set_user_tg_handle :: "server \<Rightarrow> UserId \<Rightarrow> string \<Rightarrow> unit tx" where
  "tx_set_user_tg_handle srv user_id tg_handle = execute srv (\<lambda>d.
     Ok (set_tg_handle user_id tg_handle d))"

text \<open>
  An insertion draws the identifier from the sequence first: the value is used up even when
  a constraint refuses the row or the transaction is dropped.
\<close>

definition tx_add_user :: "server \<Rightarrow> string \<Rightarrow> string option \<Rightarrow> string \<Rightarrow> UserId tx" where
  "tx_add_user srv dn tg_handle email = stmt srv (\<lambda>n s.
     if users_seq s > 2147483647 then (Err SequenceLimit, s)
     else
       (let d = working s; t = s\<lparr>users_seq := users_seq s + 1\<rparr>;
            u = \<lparr>u_id = UserId (word_of_int (users_seq s)), u_dn = dn,
                 u_tg_handle = tg_handle, u_email = email, u_link = gen_uuid srv n\<rparr>
        in if u_id u \<in> user_ids d \<or> u_dn u \<in> u_dn ` set (users_t d) \<or>
              u_link u \<in> u_link ` set (users_t d)
           then (Err UniqueViolation, t)
           else (Ok (u_id u), t\<lparr>working := d\<lparr>users_t := users_t d @ [u]\<rparr>\<rparr>)))"

section \<open>Groups, users, limits\<close>

definition tx_get_groups :: "server \<Rightarrow> Group list tx" where
  "tx_get_groups srv = query srv (\<lambda>n d.
     Ok (sort_key (\<lambda>g. text_key srv (g_name g))
       (sort_key (\<lambda>g. scan srv n (group_raw (g_id g))) (groups_t d))))"

definition tx_get_all_users :: "server \<Rightarrow> User list tx" where
  "tx_get_all_users srv = query srv (\<lambda>n d. Ok (scan_users srv n (users_t d)))"

definition tx_get_ad_groups_lease_limits ::
  "server \<Rightarrow> string list \<Rightarrow> AdGroupLeaseLimit list tx" where
  "tx_get_ad_groups_lease_limits srv groups = query srv (\<lambda>n d.
     Ok (sort_key (\<lambda>l. scan_text srv n (al_group l))
       (filter (\<lambda>l. al_group l \<in> set groups) (lease_limits_t d))))"

section \<open>API tokens\<close>

definition tx_create_api_token ::
  "server \<Rightarrow> UserId \<Rightarrow> string option \<Rightarrow> string \<Rightarrow> ApiToken tx" where
  "tx_create_api_token srv user_id name token_hash = stmt srv (\<lambda>n s.
     if tokens_seq s > 2147483647 then (Err SequenceLimit, s)
     else
       (let d = working s; t = s\<lparr>tokens_seq := tokens_seq s + 1\<rparr>;
            k = \<lparr>t_id = ApiTokenId (word_of_int (tokens_seq s)), t_user_id = user_id,
                 t_name = name, t_token_hash = token_hash, t_created_at = server_now srv n\<rparr>
        in if t_id k \<in> t_id ` set (api_tokens_t d) \<or>
              token_hash \<in> t_token_hash ` set (api_tokens_t d)
           then (Err UniqueViolation, t)
           else if user_id \<notin> user_ids d then (Err ForeignKeyViolation, t)
           else (Ok k, t\<lparr>working := d\<lparr>api_tokens_t := api_tokens_t d @ [k]\<rparr>\<rparr>)))"

definition tx_list_api_tokens_for_user :: "server \<Rightarrow> UserId \<Rightarrow> ApiToken list tx" where
  "tx_list_api_tokens_for_user srv user_id = query srv (\<lambda>n d.
     Ok (sort_key (\<lambda>t. - t_created_at t) (sort_key (\<lambda>t. scan srv n (token_raw (t_id t)))
       (filter (\<lambda>t. t_user_id t = user_id) (api_tokens_t d)))))"

definition tx_get_api_token_by_hash :: "server \<Rightarrow> string \<Rightarrow> ApiToken option tx" where
  "tx_get_api_token_by_hash srv token_hash = query srv (\<lambda>n d.
     Ok (find (\<lambda>t. t_token_hash t = token_hash) (api_tokens_t d)))"

definition tx_delete_api_token_for_user :: "server \<Rightarrow> ApiTokenId \<Rightarrow> UserId \<Rightarrow> bool tx" where
  "tx_delete_api_token_for_user srv token_id user_id = stmt srv (\<lambda>n s.
     (let d = working s; P = (\<lambda>t. t_id t = token_id \<and> t_user_id t = user_id)
      in (Ok (\<exists>t \<in> set (api_tokens_t d). P t),
          s\<lparr>working := d\<lparr>api_tokens_t := filter (\<lambda>t. \<not> P t) (api_tokens_t d)\<rparr>\<rparr>)))"

text \<open>No statement changes what is committed.\<close>

lemma keeps_tx_add_user [keeps_intros]: "keeps committed (tx_add_user srv dn tg email)"
  unfolding tx_add_user_def by (rule keeps_stmt) (simp add: Let_def)

lemma keeps_tx_create_api_token [keeps_intros]:
  "keeps committed (tx_create_api_token srv u name hash)"
  unfolding tx_create_api_token_def by (rule keeps_stmt) (simp add: Let_def)

lemma keeps_tx_delete_api_token [keeps_intros]:
  "keeps committed (tx_delete_api_token_for_user srv k u)"
  unfolding tx_delete_api_token_for_user_def by (rule keeps_stmt) (simp add: Let_def)

lemmas tx_host_query_defs =
  tx_get_all_hosts_def tx_get_available_group_hosts_def tx_get_available_hosts_def
  tx_get_first_available_group_host_def tx_get_host_def tx_get_hosts_def
  tx_get_leased_host_def tx_get_leased_hosts_def tx_get_hosts_filtered_def
  tx_get_leased_until_hosts_def tx_get_expiring_hosts_for_user_def

lemmas tx_user_query_defs =
  tx_get_user_by_id_def tx_get_user_by_mail_def tx_get_user_by_dn_def
  tx_get_user_by_link_def tx_get_user_by_tg_handle_def tx_get_all_users_def

lemmas tx_other_query_defs =
  tx_get_groups_def tx_get_ad_groups_lease_limits_def tx_list_api_tokens_for_user_def
  tx_get_api_token_by_hash_def

lemmas tx_query_defs = tx_host_query_defs tx_user_query_defs tx_other_query_defs

lemmas tx_update_defs =
  tx_lease_hosts_def tx_free_hosts_for_user_def tx_free_hosts_def tx_free_all_def
  tx_extend_hosts_lease_def tx_set_user_tg_handle_def

end
