(* ===== verification/Lease_Book.thy ===== *)
theory Lease_Book
  imports Registry
begin

text \<open>
  What the rows of \<open>hosts\<close> mean: a book that says, for each host, who holds it until when.
  The contract of such a book is a locale; the table updates of the registry are its
  instance.
\<close>

section \<open>The book\<close>

definition host_ids :: "database \<Rightarrow> HostId set" where
  "host_ids d = h_id ` set (hosts_t d)"

definition host_row :: "database \<Rightarrow> HostId \<Rightarrow> Host option" where
  "host_row d i = find (\<lambda>h. h_id h = i) (hosts_t d)"

definition row_holder :: "Host \<Rightarrow> (UserId \<times> timestamptz) option" where
  "row_holder h =
     (case h_user_id h of None \<Rightarrow> None | Some u \<Rightarrow> map_option (Pair u) (h_leased_until h))"

definition holder :: "database \<Rightarrow> HostId \<Rightarrow> (UserId \<times> timestamptz) option" where
  "holder d i = Option.bind (host_row d i) row_holder"

definition held :: "database \<Rightarrow> UserId \<Rightarrow> HostId set" where
  "held d u = {i \<in> host_ids d. case holder d i of None \<Rightarrow> False | Some (v, t) \<Rightarrow> v = u}"

locale lease_book =
  fixes known :: "'db \<Rightarrow> HostId set"
    and book :: "'db \<Rightarrow> HostId \<Rightarrow> (UserId \<times> timestamptz) option"
    and held_by :: "'db \<Rightarrow> UserId \<Rightarrow> HostId set"
    and assign :: "UserId \<Rightarrow> HostId list \<Rightarrow> timestamptz \<Rightarrow> 'db \<Rightarrow> 'db"
    and free_for :: "HostId list \<Rightarrow> UserId \<Rightarrow> 'db \<Rightarrow> 'db"
    and free_any :: "HostId list \<Rightarrow> 'db \<Rightarrow> 'db"
    and free_user :: "UserId \<Rightarrow> 'db \<Rightarrow> 'db"
  assumes finite_known: "finite (known d)"
    and book_known: "book d i = Some x \<Longrightarrow> i \<in> known d"
    and held_by: "held_by d u = {i. \<exists>t. book d i = Some (u, t)}"
    and book_assign: "book (assign u is t d) i =
      (if i \<in> set is \<and> i \<in> known d then Some (u, t) else book d i)"
    and book_free_for: "book (free_for is u d) i =
      (if i \<in> set is \<and> i \<in> held_by d u then None else book d i)"
    and book_free_any: "book (free_any is d) i = (if i \<in> set is then None else book d i)"
    and book_free_user: "book (free_user u d) i = (if i \<in> held_by d u then None else book d i)"
begin

lemma held_by_known: "held_by d u \<subseteq> known d"
  by (auto simp: held_by dest: book_known)

lemma finite_held_by: "finite (held_by d u)"
  using finite_known held_by_known by (rule finite_subset [rotated])

lemma held_by_disjoint: "u \<noteq> v \<Longrightarrow> held_by d u \<inter> held_by d v = {}"
  by (auto simp: held_by)

lemma held_by_assign:
  "held_by (assign u is t d) v =
     (if v = u then held_by d u \<union> (set is \<inter> known d) else held_by d v - set is)"
  by (auto simp: held_by book_assign dest: book_known)

lemma card_held_by_assign:
  "card (held_by (assign u is t d) u) \<le> card (held_by d u) + card (set is)"
proof -
  have "card (held_by (assign u is t d) u) \<le> card (held_by d u) + card (set is \<inter> known d)"
    by (simp add: held_by_assign card_Un_le)
  also have "card (set is \<inter> known d) \<le> card (set is)" by (simp add: card_mono)
  finally show ?thesis by simp
qed

lemma held_by_free_for:
  "held_by (free_for is u d) v = (if v = u then held_by d u - set is else held_by d v)"
  by (auto simp: held_by book_free_for)

lemma held_by_free_user: "held_by (free_user u d) v = (if v = u then {} else held_by d v)"
  by (auto simp: held_by book_free_user)

lemma free_for_undoes_assign:
  assumes "\<And>i. i \<in> set is \<Longrightarrow> book d i = None"
  shows "book (free_for is u (assign u is t d)) i = book d i"
  using assms by (auto simp: book_free_for book_assign held_by dest: book_known)

lemma free_user_is_free_for:
  "held_by d u \<subseteq> set is \<Longrightarrow> book (free_for is u d) i = book (free_user u d) i"
  by (auto simp: book_free_for book_free_user)

end

section \<open>The registry keeps such a book\<close>

lemma find_map_key:
  "(\<And>h. key (f h) = key h) \<Longrightarrow>
   find (\<lambda>h. key h = i) (map f hs) = map_option f (find (\<lambda>h. key h = i) hs)"
  by (induction hs) auto

lemma find_key_Some: "find (\<lambda>h. key h = i) hs = Some h \<Longrightarrow> h \<in> set hs \<and> key h = i"
  by (induction hs) (auto split: if_splits)

lemma host_row_Some: "host_row d i = Some h \<Longrightarrow> h \<in> set (hosts_t d) \<and> h_id h = i"
  unfolding host_row_def by (rule find_key_Some)

lemma host_known_row: "i \<in> host_ids d \<longleftrightarrow> host_row d i \<noteq> None"
  by (auto simp: host_row_def host_ids_def find_None_iff)

lemma host_row_unique:
  "distinct (map h_id (hosts_t d)) \<Longrightarrow> h \<in> set (hosts_t d) \<Longrightarrow> host_row d (h_id h) = Some h"
  unfolding host_row_def by (rule find_distinct_eq)

lemma host_ids_update [simp]:
  "host_ids (assign_hosts u is t d) = host_ids d" "host_ids (clear_hosts P d) = host_ids d"
  "host_ids (prolong_hosts is k d) = host_ids d"
  by (simp_all add: host_ids_def assign_hosts_def clear_hosts_def prolong_hosts_def o_def
      if_distrib [of h_id] cong: if_cong flip: set_map)

lemma host_row_assign: "host_row (assign_hosts u is t d) i =
    map_option (\<lambda>h. if h_id h \<in> set is
      then h\<lparr>h_user_id := Some u, h_leased_until := Some t\<rparr> else h) (host_row d i)"
  unfolding host_row_def assign_hosts_def by (simp add: find_map_key)

lemma host_row_clear: "host_row (clear_hosts P d) i =
    map_option (\<lambda>h. if P h
      then h\<lparr>h_user_id := None, h_leased_until := None\<rparr> else h) (host_row d i)"
  unfolding host_row_def clear_hosts_def by (simp add: find_map_key)

lemma host_row_prolong: "host_row (prolong_hosts is k d) i =
    map_option (\<lambda>h. if h_id h \<in> set is
      then h\<lparr>h_leased_until := map_option (\<lambda>t. t + k * hour_us) (h_leased_until h)\<rparr>
      else h) (host_row d i)"
  unfolding host_row_def prolong_hosts_def by (simp add: find_map_key)

lemma holder_known: "holder d i = Some x \<Longrightarrow> i \<in> host_ids d"
  by (cases "host_row d i") (auto simp: holder_def host_known_row)

lemma held_iff: "i \<in> held d u \<longleftrightarrow> (\<exists>t. holder d i = Some (u, t))"
  by (auto simp: held_def dest: holder_known split: option.splits)

lemma holder_assign: "holder (assign_hosts u is t d) i =
    (if i \<in> set is \<and> i \<in> host_ids d then Some (u, t) else holder d i)"
  by (cases "host_row d i")
    (auto simp: holder_def host_row_assign row_holder_def host_known_row
      dest: host_row_Some)

lemma holder_clear: "holder (clear_hosts P d) i =
    (case host_row d i of None \<Rightarrow> None | Some h \<Rightarrow> if P h then None else holder d i)"
  by (cases "host_row d i") (auto simp: holder_def host_row_clear row_holder_def)

lemma holder_prolong: "holder (prolong_hosts is k d) i =
    (if i \<in> set is then map_option (map_prod id (\<lambda>t. t + k * hour_us)) (holder d i)
     else holder d i)"
  by (cases "host_row d i")
    (auto simp: holder_def host_row_prolong row_holder_def option.map_comp comp_def
      split: option.splits dest: host_row_Some)

lemma holder_clear_user: "holder (clear_hosts (\<lambda>h. Q (h_id h) \<and> h_user_id h = Some u) d) i =
    (if Q i \<and> i \<in> held d u then None else holder d i)"
  by (cases "host_row d i")
    (auto simp: host_row_clear held_iff holder_def row_holder_def dest: host_row_Some
      split: option.splits)

interpretation book: lease_book host_ids holder held assign_hosts
  "\<lambda>is u. clear_hosts (\<lambda>h. h_id h \<in> set is \<and> h_user_id h = Some u)"
  "\<lambda>is. clear_hosts (\<lambda>h. h_id h \<in> set is)"
  "\<lambda>u. clear_hosts (\<lambda>h. h_user_id h = Some u)"
proof unfold_locales
  fix d and i :: HostId and u and "is" :: "HostId list"
  show "held d u = {i. \<exists>t. holder d i = Some (u, t)}" by (auto simp: held_iff)
  show "holder (clear_hosts (\<lambda>h. h_id h \<in> set is \<and> h_user_id h = Some u) d) i =
      (if i \<in> set is \<and> i \<in> held d u then None else holder d i)"
    by (rule holder_clear_user)
  show "holder (clear_hosts (\<lambda>h. h_user_id h = Some u) d) i =
      (if i \<in> held d u then None else holder d i)"
    using holder_clear_user [of "\<lambda>_. True"] by simp
  show "holder (clear_hosts (\<lambda>h. h_id h \<in> set is) d) i = (if i \<in> set is then None else holder d i)"
    by (cases "host_row d i")
      (auto simp: host_row_clear holder_def row_holder_def dest: host_row_Some)
qed (auto simp: host_ids_def holder_assign dest: holder_known)

end
