(* ===== verification/Invariant.thy ===== *)
theory Invariant
  imports Lease_Book
begin

text \<open>
  Every update of the tables preserves the database invariant \<open>db_ok\<close>, and in a database
  that satisfies it the joined queries decode every row: what they return, as a function of
  the book of \<open>Lease_Book\<close>.
\<close>

section \<open>Preservation\<close>

named_theorems db_ok_intros "updates that keep the database invariant"

lemma map_h_id_update [simp]:
  "map h_id (hosts_t (assign_hosts u is t d)) = map h_id (hosts_t d)"
  "map h_id (hosts_t (clear_hosts P d)) = map h_id (hosts_t d)"
  "map h_id (hosts_t (prolong_hosts is k d)) = map h_id (hosts_t d)"
  by (simp_all add: assign_hosts_def clear_hosts_def prolong_hosts_def o_def
      if_distrib [of h_id] cong: if_cong)

lemma hosts_update_frame [simp]:
  "users_t (assign_hosts u is t d) = users_t d" "groups_t (assign_hosts u is t d) = groups_t d"
  "lease_limits_t (assign_hosts u is t d) = lease_limits_t d"
  "api_tokens_t (assign_hosts u is t d) = api_tokens_t d"
  "users_t (clear_hosts P d) = users_t d" "groups_t (clear_hosts P d) = groups_t d"
  "lease_limits_t (clear_hosts P d) = lease_limits_t d"
  "api_tokens_t (clear_hosts P d) = api_tokens_t d"
  "users_t (prolong_hosts is k d) = users_t d" "groups_t (prolong_hosts is k d) = groups_t d"
  "lease_limits_t (prolong_hosts is k d) = lease_limits_t d"
  "api_tokens_t (prolong_hosts is k d) = api_tokens_t d"
  by (simp_all add: assign_hosts_def clear_hosts_def prolong_hosts_def)

lemma user_ids_update [simp]:
  "user_ids (assign_hosts u is t d) = user_ids d" "user_ids (clear_hosts P d) = user_ids d"
  "user_ids (prolong_hosts is k d) = user_ids d"
  by (simp_all add: user_ids_def)

lemma db_ok_assign [db_ok_intros]:
  assumes "db_ok d" and "(\<exists>h \<in> set (hosts_t d). h_id h \<in> set is) \<longrightarrow> u \<in> user_ids d"
  shows "db_ok (assign_hosts u is t d)"
  using assms
  by (auto simp: db_ok_def schema_defs leases_ok_def simp del: map_h_id_update)
    (auto simp: assign_hosts_def o_def if_distrib [of h_id] cong: if_cong split: if_splits)

lemma db_ok_clear [db_ok_intros]: "db_ok d \<Longrightarrow> db_ok (clear_hosts P d)"
  by (auto simp: db_ok_def schema_defs leases_ok_def simp del: map_h_id_update)
    (auto simp: clear_hosts_def o_def if_distrib [of h_id] cong: if_cong split: if_splits)

lemma db_ok_prolong [db_ok_intros]: "db_ok d \<Longrightarrow> db_ok (prolong_hosts is k d)"
  by (auto simp: db_ok_def schema_defs leases_ok_def simp del: map_h_id_update)
    (auto simp: prolong_hosts_def o_def if_distrib [of h_id] cong: if_cong split: if_splits)

lemma user_ids_set_tg [simp]: "user_ids (set_tg_handle u tg d) = user_ids d"
  by (simp add: user_ids_def set_tg_handle_def o_def if_distrib [of u_id] cong: if_cong
      flip: set_map)

lemma db_ok_set_tg [db_ok_intros]: "db_ok d \<Longrightarrow> db_ok (set_tg_handle u tg d)"
  unfolding db_ok_def schema_ok_def hosts_ok_def tokens_ok_def user_ids_set_tg
  by (simp add: users_ok_def set_tg_handle_def o_def leases_ok_def if_distrib [of u_id]
      if_distrib [of u_dn] if_distrib [of u_link] cong: if_cong)

lemma user_ids_delete [simp]: "user_ids (delete_user u d) = user_ids d - {u}"
  by (auto simp: user_ids_def delete_user_def)

lemma db_ok_delete_user [db_ok_intros]: "db_ok d \<Longrightarrow> db_ok (delete_user u d)"
  unfolding db_ok_def schema_ok_def hosts_ok_def tokens_ok_def user_ids_delete
  by (auto simp: users_ok_def leases_ok_def delete_user_def delete_user_hosts_def
      delete_user_tokens_def distinct_map_filter o_def if_distrib [of h_id]
      cong: if_cong split: if_splits)

lemma db_ok_add_user [db_ok_intros]:
  assumes "db_ok d" and "u_id u \<notin> user_ids d" and "u_dn u \<notin> u_dn ` set (users_t d)"
    and "u_link u \<notin> u_link ` set (users_t d)"
  shows "db_ok (d\<lparr>users_t := users_t d @ [u]\<rparr>)"
  using assms by (auto simp: db_ok_def schema_defs leases_ok_def user_ids_def)

lemma db_ok_add_token [db_ok_intros]:
  assumes "db_ok d" and "t_id k \<notin> t_id ` set (api_tokens_t d)"
    and "t_token_hash k \<notin> t_token_hash ` set (api_tokens_t d)" and "t_user_id k \<in> user_ids d"
  shows "db_ok (d\<lparr>api_tokens_t := api_tokens_t d @ [k]\<rparr>)"
  using assms by (auto simp: db_ok_def schema_defs leases_ok_def user_ids_def)

lemma db_ok_drop_tokens [db_ok_intros]:
  "db_ok d \<Longrightarrow> db_ok (d\<lparr>api_tokens_t := filter P (api_tokens_t d)\<rparr>)"
  by (auto simp: db_ok_def schema_defs leases_ok_def user_ids_def distinct_map_filter)

lemma assigned_row:
  assumes "h \<in> set (hosts_t (assign_hosts u is t d))" and "h_id h \<in> set is"
  shows "h_user_id h = Some u" "h_leased_until h = Some t"
proof -
  from assms(1) have "h \<in> (\<lambda>x. if h_id x \<in> set is
      then x\<lparr>h_user_id := Some u, h_leased_until := Some t\<rparr> else x) ` set (hosts_t d)"
    by (simp add: assign_hosts_def)
  then obtain x where x: "h = (if h_id x \<in> set is
      then x\<lparr>h_user_id := Some u, h_leased_until := Some t\<rparr> else x)" ..
  show "h_user_id h = Some u" "h_leased_until h = Some t"
    using assms(2) unfolding x by (simp_all split: if_splits)
qed

section \<open>What the joined queries return\<close>

definition user_row :: "database \<Rightarrow> UserId \<Rightarrow> User option" where
  "user_row d u = find (\<lambda>x. u_id x = u) (users_t d)"

definition leased_of :: "database \<Rightarrow> Host \<Rightarrow> LeasedHost" where
  "leased_of d h = \<lparr>lh_id = h_id h, lh_hostname = h_hostname h,
     lh_ip_address = h_ip_address h, lh_leased_until = the (h_leased_until h),
     lh_group = None, lh_user = the (user_row d (the (h_user_id h)))\<rparr>"

lemma leased_of_simps [simp]:
  "lh_id (leased_of d h) = h_id h" "lh_leased_until (leased_of d h) = the (h_leased_until h)"
  "lh_group (leased_of d h) = None" "lh_hostname (leased_of d h) = h_hostname h"
  "lh_ip_address (leased_of d h) = h_ip_address h"
  by (simp_all add: leased_of_def)

lemma user_row_id: "db_ok d \<Longrightarrow> u \<in> user_ids d \<Longrightarrow> \<exists>x. user_row d u = Some x \<and> u_id x = u"
  by (force simp: user_row_def user_ids_def dest: find_distinct_eq db_okD(1))

lemma leased_of_user:
  assumes "db_ok d" "h \<in> set (hosts_t d)" "h_user_id h = Some u"
  shows "u_id (lh_user (leased_of d h)) = u"
  using user_row_id [OF assms(1) db_okD(3) [OF assms]] assms(3) by (auto simp: leased_of_def)

lemma filter_unique:
  assumes "distinct (map f xs)" and "find (\<lambda>x. f x = k) xs = Some y"
  shows "filter (\<lambda>x. f x = k) xs = [y]"
  using assms
proof (induction xs)
  case (Cons x xs)
  show ?case
  proof (cases "f x = k")
    case True
    with Cons.prems have "k \<notin> f ` set xs" "y = x" by auto
    with True show ?thesis by (simp add: filter_empty_conv) (metis imageI)
  next
    case False
    with Cons show ?thesis by simp
  qed
qed simp

lemma join_one:
  assumes "db_ok d" "h \<in> set (hosts_t d)" "h_user_id h = Some u"
  shows "\<exists>x. user_row d u = Some x \<and> join_users d (h # hs) = (h, x) # join_users d hs"
proof -
  obtain x where x: "user_row d u = Some x"
    using user_row_id [OF assms(1) db_okD(3) [OF assms]] by blast
  then have "filter (\<lambda>y. u_id y = u) (users_t d) = [x]"
    using filter_unique db_okD(1) [OF assms(1)] by (auto simp: user_row_def)
  then have "filter (\<lambda>y. h_user_id h = Some (u_id y)) (users_t d) = [x]"
    using assms(3) by (simp add: eq_commute)
  with x show ?thesis by (simp add: join_users_def)
qed

lemma join_none: "h_user_id h = None \<Longrightarrow> join_users d (h # hs) = join_users d hs"
  by (simp add: join_users_def)

lemma those_join:
  assumes "db_ok d" and "set hs \<subseteq> set (hosts_t d)"
  shows "those (map decode_LeasedHost (join_users d hs)) =
    Some (map (leased_of d) (filter (\<lambda>h. h_user_id h \<noteq> None) hs))"
  using assms(2)
proof (induction hs)
  case Nil
  then show ?case by (simp add: join_users_def)
next
  case (Cons h hs)
  show ?case
  proof (cases "h_user_id h")
    case None
    with Cons show ?thesis by (simp add: join_none)
  next
    case (Some u)
    with Cons.prems assms(1) obtain t where t: "h_leased_until h = Some t"
      using db_okD(4) by fastforce
    obtain x where "user_row d u = Some x" "join_users d (h # hs) = (h, x) # join_users d hs"
      using join_one [OF assms(1) _ Some, of hs] Cons.prems by auto
    with Some t Cons show ?thesis by (simp add: decode_LeasedHost_def leased_of_def)
  qed
qed

lemma decode_join:
  "db_ok d \<Longrightarrow> set hs \<subseteq> set (hosts_t d) \<Longrightarrow>
   decode_LeasedHosts (join_users d hs) =
     Ok (map (leased_of d) (filter (\<lambda>h. h_user_id h \<noteq> None) hs))"
  by (simp add: decode_LeasedHosts_def those_join)

lemma held_rows:
  assumes "db_ok d"
  shows "h_id ` {h \<in> set (hosts_t d). h_user_id h = Some u} = held d u"
proof -
  have "h_id h \<in> held d u \<longleftrightarrow> h_user_id h = Some u" if h: "h \<in> set (hosts_t d)" for h
  proof (cases "h_user_id h")
    case None
    with h show ?thesis
      using host_row_unique [OF db_okD(2) [OF assms] h]
      by (simp add: held_iff holder_def row_holder_def)
  next
    case (Some v)
    with h obtain t where "h_leased_until h = Some t" using db_okD(4) [OF assms] by blast
    with h Some show ?thesis
      using host_row_unique [OF db_okD(2) [OF assms] h]
      by (simp add: held_iff holder_def row_holder_def)
  qed
  moreover have "held d u \<subseteq> h_id ` set (hosts_t d)" by (auto simp: held_def host_ids_def)
  ultimately show ?thesis by blast
qed

text \<open>The rows a user holds, in the order of \<open>get_leased_hosts\<close>.\<close>

definition rows_of :: "server \<Rightarrow> nat \<Rightarrow> database \<Rightarrow> UserId \<Rightarrow> Host list" where
  "rows_of srv n d u = by_lease_end srv (scan_hosts srv n
     (filter (\<lambda>h. h_user_id h = Some u) (hosts_t d)))"

lemma get_leased_hosts_rows:
  assumes "db_ok d"
  shows "decode_LeasedHosts (join_users d (by_lease_end srv (scan_hosts srv n
      (filter (\<lambda>h. h_user_id h = Some u) (hosts_t d))))) =
    Ok (map (leased_of d) (rows_of srv n d u))"
proof -
  have "filter (\<lambda>h. h_user_id h \<noteq> None) (rows_of srv n d u) = rows_of srv n d u"
    by (auto simp: rows_of_def filter_id_conv)
  moreover have "set (rows_of srv n d u) \<subseteq> set (hosts_t d)" by (auto simp: rows_of_def)
  ultimately show ?thesis
    using decode_join [OF assms] by (fastforce simp: rows_of_def)
qed

lemma rows_of_ids:
  assumes "db_ok d"
  shows "set (map h_id (rows_of srv n d u)) = held d u"
    and "distinct (map h_id (rows_of srv n d u))"
    and "length (rows_of srv n d u) = card (held d u)"
proof -
  show ids: "set (map h_id (rows_of srv n d u)) = held d u"
    using held_rows [OF assms, of u] by (auto simp: rows_of_def)
  show dist: "distinct (map h_id (rows_of srv n d u))"
    using db_okD(2) [OF assms] by (simp add: rows_of_def distinct_map_filter)
  show "length (rows_of srv n d u) = card (held d u)"
    using distinct_card [OF dist] unfolding ids by simp
qed

end
