(* ===== verification/Hosts_Service.thy ===== *)
theory Hosts_Service
  imports Invariant
begin

text \<open>
  \<open>HostsService\<close> of \<open>src/src/logic/hosts.rs\<close>: every method as a call that opens a
  transaction on the server, with the early returns of the source. A \<open>HashSet\<close> is a list
  without duplicates; the order in which it is iterated is that of the parameter \<open>hash\<close>.
\<close>

section \<open>The service\<close>

datatype HostError = DatabaseError sqlx_error | ThereIsNoFreeHosts
  | AlreadyLeased "HostId list" | LeaseLimit | UnexpectedError sqlx_error

record HostsService = lease_limit :: nat

type_synonym 'a hosts_call = "(pg, 'a, HostError) io"

definition HostError_to_string :: "HostError \<Rightarrow> string" where
  "HostError_to_string e =
     (case e of
        DatabaseError _ \<Rightarrow> ''Database error''
      | ThereIsNoFreeHosts \<Rightarrow> ''There is no free hosts''
      | AlreadyLeased _ \<Rightarrow> ''Host is already leased''
      | LeaseLimit \<Rightarrow> ''Hosts lease limit is reached''
      | UnexpectedError _ \<Rightarrow> ''Unexpected error'')"

text \<open>The read-only methods: begin, one statement, commit.\<close>

definition read_only :: "server \<Rightarrow> (sqlx_error \<Rightarrow> 'e) \<Rightarrow> 'a tx \<Rightarrow> (pg, 'a, 'e) io" where
  "read_only srv from q =
     qmark from (begin_tx srv) (\<lambda>_. qmark from q (\<lambda>x. qmark from (commit_tx srv) (\<lambda>_. return x)))"

definition hosts_get_all_hosts :: "server \<Rightarrow> Host list hosts_call" where
  "hosts_get_all_hosts srv = read_only srv DatabaseError (tx_get_all_hosts srv)"

definition hosts_get_available_group_hosts :: "server \<Rightarrow> GroupId \<Rightarrow> Host list hosts_call" where
  "hosts_get_available_group_hosts srv group_id =
     read_only srv DatabaseError (tx_get_available_group_hosts srv group_id)"

definition hosts_get_available_hosts :: "server \<Rightarrow> Host list hosts_call" where
  "hosts_get_available_hosts srv = read_only srv DatabaseError (tx_get_available_hosts srv)"

definition hosts_get_leased_hosts :: "server \<Rightarrow> UserId \<Rightarrow> LeasedHost list hosts_call" where
  "hosts_get_leased_hosts srv user_id =
     read_only srv DatabaseError (tx_get_leased_hosts srv user_id)"

definition hosts_get_hosts_filtered ::
  "server \<Rightarrow> string option \<Rightarrow> GroupId option \<Rightarrow> HostListing list hosts_call" where
  "hosts_get_hosts_filtered srv email group_id =
     read_only srv DatabaseError (tx_get_hosts_filtered srv email group_id)"

text \<open>\<open>limit.try_into().unwrap()\<close> from \<open>i32\<close> to \<open>usize\<close>: \<open>None\<close> is the panic.\<close>

definition usize_try_from :: "i32 \<Rightarrow> nat option" where
  "usize_try_from w = (if sint w < 0 then None else Some (nat (sint w)))"

definition hosts_get_lease_limit ::
  "server \<Rightarrow> HostsService \<Rightarrow> string list \<Rightarrow> nat tx" where
  "hosts_get_lease_limit srv svc groups =
     qmark id (tx_get_ad_groups_lease_limits srv groups) (\<lambda>groups_limits.
       case those (map (\<lambda>gl. usize_try_from (al_limit gl)) groups_limits) of
         None \<Rightarrow> panic
       | Some limits \<Rightarrow> return (if limits = [] then lease_limit svc else Max (set limits)))"

definition hosts_lease ::
  "server \<Rightarrow> HostsService \<Rightarrow> (HostId \<Rightarrow> nat) \<Rightarrow> time \<Rightarrow> UserId \<Rightarrow> string list \<Rightarrow> HostId list \<Rightarrow>
   duration \<Rightarrow> LeasedHost list hosts_call" where
  "hosts_lease srv svc hash now user_id user_groups hosts_ids lease_for =
     qmark DatabaseError (begin_tx srv) (\<lambda>_.
     qmark DatabaseError (tx_get_leased_hosts srv user_id) (\<lambda>hs.
       let leased = remdups (map lh_id hs);
           hosts_ids_set = remdups hosts_ids;
           intersection = filter (\<lambda>i. i \<in> set hosts_ids_set) leased
       in if intersection \<noteq> [] then throw (AlreadyLeased (sort_key hash intersection))
          else qmark UnexpectedError (hosts_get_lease_limit srv svc user_groups) (\<lambda>limit.
            if length leased + length hosts_ids_set > limit then throw LeaseLimit
            else qmark id (unwrap (date_add now lease_for)) (\<lambda>until.
              qmark DatabaseError (tx_lease_hosts srv user_id hosts_ids until) (\<lambda>_.
              qmark DatabaseError (tx_get_leased_hosts srv user_id) (\<lambda>leased.
              qmark DatabaseError (commit_tx srv) (\<lambda>_. return leased)))))))"

definition hosts_free :: "server \<Rightarrow> UserId \<Rightarrow> HostId list \<Rightarrow> unit hosts_call" where
  "hosts_free srv user_id hosts_ids =
     qmark DatabaseError (begin_tx srv) (\<lambda>_.
     qmark DatabaseError (tx_free_hosts_for_user srv hosts_ids user_id) (\<lambda>_.
     qmark DatabaseError (commit_tx srv) (\<lambda>_. return ())))"

definition hosts_free_all :: "server \<Rightarrow> UserId \<Rightarrow> unit hosts_call" where
  "hosts_free_all srv user_id =
     qmark DatabaseError (begin_tx srv) (\<lambda>_.
     qmark DatabaseError (tx_free_all srv user_id) (\<lambda>_.
     qmark DatabaseError (commit_tx srv) (\<lambda>_. return ())))"

definition hosts_lease_random ::
  "server \<Rightarrow> HostsService \<Rightarrow> time \<Rightarrow> UserId \<Rightarrow> string list \<Rightarrow> duration \<Rightarrow> GroupId \<Rightarrow>
   LeasedHost hosts_call" where
  "hosts_lease_random srv svc now user_id user_groups lease_for group_id =
     qmark DatabaseError (begin_tx srv) (\<lambda>_.
     qmark UnexpectedError (hosts_get_lease_limit srv svc user_groups) (\<lambda>limit.
     qmark DatabaseError (tx_get_leased_hosts srv user_id) (\<lambda>hs.
       if length hs \<ge> limit then throw LeaseLimit
       else qmark DatabaseError (tx_get_first_available_group_host srv group_id) (\<lambda>host.
         case host of
           None \<Rightarrow> throw ThereIsNoFreeHosts
         | Some h \<Rightarrow>
             qmark id (unwrap (date_add now lease_for)) (\<lambda>until.
             qmark DatabaseError (tx_lease_hosts srv user_id [h_id h] until) (\<lambda>_.
             qmark DatabaseError (tx_get_leased_host srv (h_id h)) (\<lambda>leased.
             qmark DatabaseError (commit_tx srv) (\<lambda>_. return leased))))))))"

section \<open>Steps of a call\<close>

text \<open>The limit as a function of the tables, \<open>None\<close> where the code panics.\<close>

definition limit_of :: "HostsService \<Rightarrow> database \<Rightarrow> string list \<Rightarrow> nat option" where
  "limit_of svc d groups =
     (let ls = filter (\<lambda>l. al_group l \<in> set groups) (lease_limits_t d)
      in if \<exists>l \<in> set ls. sint (al_limit l) < 0 then None
         else Some (if ls = [] then lease_limit svc
                    else Max ((\<lambda>l. nat (sint (al_limit l))) ` set ls)))"

lemma those_usize:
  "those (map (\<lambda>l. usize_try_from (al_limit l)) ls) =
     (if \<exists>l \<in> set ls. sint (al_limit l) < 0 then None
      else Some (map (\<lambda>l. nat (sint (al_limit l))) ls))"
  by (induction ls) (auto simp: usize_try_from_def)

lemma get_lease_limit_cases:
  assumes "hosts_get_lease_limit srv svc groups s = (r, t)"
  obtains (Ok) n where "r = Ok n" "limit_of svc (working s) groups = Some n"
      "t = s\<lparr>calls := Suc (calls s)\<rparr>"
    | (Err) e where "r = Err e"
    | (Panic) "r = Panic" "limit_of svc (working s) groups = None"
  using assms unfolding hosts_get_lease_limit_def
proof (rule qmark_elim)
  fix ls t'
  assume "tx_get_ad_groups_lease_limits srv groups s = (Ok ls, t')"
  then have ls: "set ls = set (filter (\<lambda>l. al_group l \<in> set groups) (lease_limits_t (working s)))"
    and t': "t' = s\<lparr>calls := Suc (calls s)\<rparr>"
    by (auto simp: tx_get_ad_groups_lease_limits_def elim!: query_OkE)
  assume k: "(case those (map (\<lambda>gl. usize_try_from (al_limit gl)) ls) of None \<Rightarrow> panic
      | Some limits \<Rightarrow>
          return (if limits = [] then lease_limit svc else Max (set limits))) t' = (r, t)"
  have e: "filter (\<lambda>l. al_group l \<in> set groups) (lease_limits_t (working s)) = [] \<longleftrightarrow> ls = []"
    using ls by (metis set_empty)
  have l: "limit_of svc (working s) groups =
      (if \<exists>l \<in> set ls. sint (al_limit l) < 0 then None
       else Some (if ls = [] then lease_limit svc
                  else Max ((\<lambda>l. nat (sint (al_limit l))) ` set ls)))"
    unfolding limit_of_def Let_def ls e ..
  show thesis
  proof (cases "\<exists>l \<in> set ls. sint (al_limit l) < 0")
    case True
    with k l show thesis by (intro that(3)) (auto simp: those_usize io_defs)
  next
    case False
    with k l t' show thesis
      by (intro that(1) [of "if ls = [] then lease_limit svc
            else Max ((\<lambda>l. nat (sint (al_limit l))) ` set ls)"])
        (auto simp: those_usize io_defs)
  qed
next
  fix d
  assume "r = Err (id d)"
  then show thesis by (rule that(2))
next
  assume "tx_get_ad_groups_lease_limits srv groups s = (Panic, t)"
  then show thesis
    using query_Panic unfolding tx_get_ad_groups_lease_limits_def by fastforce
qed

lemma get_leased_hosts_Ok:
  assumes "tx_get_leased_hosts srv u s = (Ok hs, t)" and "db_ok (working s)"
  shows "hs = map (leased_of (working s)) (rows_of srv (calls s) (working s) u)"
    and "t = s\<lparr>calls := Suc (calls s)\<rparr>"
    and "set (map lh_id hs) = held (working s) u" and "distinct (map lh_id hs)"
    and "length hs = card (held (working s) u)"
proof -
  show hs: "hs = map (leased_of (working s)) (rows_of srv (calls s) (working s) u)"
    and "t = s\<lparr>calls := Suc (calls s)\<rparr>"
    using assms unfolding tx_get_leased_hosts_def
    by (auto elim!: query_OkE simp: get_leased_hosts_rows)
  have ids: "map lh_id hs = map h_id (rows_of srv (calls s) (working s) u)"
    by (simp add: hs)
  show "set (map lh_id hs) = held (working s) u" and "distinct (map lh_id hs)"
    unfolding ids using rows_of_ids [OF assms(2)] by blast+
  show "length hs = card (held (working s) u)" using rows_of_ids(3) [OF assms(2)] by (simp add: hs)
qed

lemma get_leased_hosts_no_Panic:
  "tx_get_leased_hosts srv u s = (Panic, t) \<Longrightarrow> db_ok (working s) \<Longrightarrow> False"
  using query_Panic unfolding tx_get_leased_hosts_def
  by (fastforce simp: get_leased_hosts_rows)

lemma lease_hosts_Ok:
  assumes "tx_lease_hosts srv u is until s = (Ok x, t)"
  shows "t = s\<lparr>calls := Suc (calls s),
      working := assign_hosts u is (to_timestamptz until) (working s)\<rparr>"
    and "(\<exists>h \<in> set (hosts_t (working s)). h_id h \<in> set is) \<longrightarrow> u \<in> user_ids (working s)"
    and "timestamptz_ok (to_timestamptz until)"
  using assms unfolding tx_lease_hosts_def
  by (auto elim!: execute_OkE split: if_splits)

lemma keeps_hosts_get_lease_limit [keeps_intros]:
  "keeps committed (hosts_get_lease_limit srv svc groups)"
  unfolding hosts_get_lease_limit_def tx_get_ad_groups_lease_limits_def
  by (intro keeps_intros)

lemmas keeps_tx_defs = tx_query_defs tx_update_defs

section \<open>What a lease does\<close>

text \<open>
  The inversion every property of \<open>lease\<close> rests on: the call either changes nothing, or all
  its guards held and it commits the assignment of the requested hosts.
\<close>

text \<open>The commit at the end of a call, and the assignment before the last reads.\<close>

lemma commit_last:
  assumes "qmark from (commit_tx srv) (\<lambda>_. return x) s = (r, s')"
  obtains (refused) d where "committed s' = committed s" "r = Err d"
    | (taken) "committed s' = working s" "r = Err (from Io) \<or> r = Ok x"
  using assms
proof (cases rule: qmark_elim)
  case (Ok y t)
  with that(2) show thesis by (auto simp: return_def elim!: commit_tx_cases)
next
  case (Err e)
  from Err(1) show thesis by (rule commit_tx_cases) (use Err(2) that in auto)
qed simp

lemma assign_step:
  assumes run: "qmark id (unwrap (date_add now dur)) (\<lambda>until.
      qmark DatabaseError (tx_lease_hosts srv u is until) (\<lambda>_. rest)) s = (r, s')"
    and ok: "db_ok (working s)" and same: "working s = committed s"
  obtains (failed) "committed s' = committed s" "r = Panic \<or> (\<exists>d. r = Err d)"
    | (assigned) until t where "date_add now dur = Some until" "rest t = (r, s')"
      "working t = assign_hosts u is (to_timestamptz until) (committed s)"
      "committed t = committed s" "db_ok (working t)"
  using run
proof (cases rule: qmark_keeps [where P = committed, consumes 1, case_names _ go stop])
  case (go until t1)
  then have until: "date_add now dur = Some until" and t1: "t1 = s"
    by (auto simp: unwrap_def split: option.splits)
  from go(3) show thesis
  proof (cases rule: qmark_keeps [where P = committed, consumes 1, case_names _ go stop])
    case (go x t2)
    from lease_hosts_Ok [OF go(1)] t1 same ok
    have "working t2 = assign_hosts u is (to_timestamptz until) (committed s)"
      "committed t2 = committed s" "db_ok (working t2)"
      by (auto intro: db_ok_assign)
    then show thesis by (rule that(2) [OF until go(3)])
  qed (use that(1) t1 in \<open>auto simp: tx_lease_hosts_def intro: keeps_execute\<close>)
qed (use that(1) in \<open>auto intro: keeps_basic\<close>)

lemma lease_tail:
  assumes tail: "qmark id (unwrap (date_add now dur)) (\<lambda>until.
      qmark DatabaseError (tx_lease_hosts srv u is until) (\<lambda>_.
      qmark DatabaseError (tx_get_leased_hosts srv u) (\<lambda>leased.
      qmark DatabaseError (commit_tx srv) (\<lambda>_. return leased)))) s = (r, s')"
    and ok: "db_ok (working s)" and same: "working s = committed s"
  obtains (failed) "committed s' = committed s" "r = Panic \<or> (\<exists>d. r = Err d)"
    | (leased) until k where "date_add now dur = Some until"
      "committed s' = assign_hosts u is (to_timestamptz until) (committed s)"
      "db_ok (committed s')"
      "r = Err (DatabaseError Io) \<or>
       r = Ok (map (leased_of (committed s')) (rows_of srv k (committed s') u))"
proof -
  let ?d' = "\<lambda>until. assign_hosts u is (to_timestamptz until) (committed s)"
  from tail ok same show thesis
  proof (cases rule: assign_step)
    case (assigned until t)
    from assigned(2) show thesis
    proof (cases rule: qmark_keeps [where P = committed, consumes 1, case_names _ go stop])
      case (go hs t3)
      with assigned have hs: "hs = map (leased_of (?d' until)) (rows_of srv (calls t) (?d' until) u)"
          and t3: "working t3 = ?d' until" "committed t3 = committed s"
        using get_leased_hosts_Ok(1,2) [OF go(1)] by auto
      from go(3) show thesis
        by (rule commit_last) (use that t3 hs assigned in auto)
    qed (use that(1) assigned in \<open>auto simp: tx_get_leased_hosts_def intro: keeps_query\<close>)
  qed (rule that(1))
qed

lemma lease_checked:
  assumes run: "qmark UnexpectedError (hosts_get_lease_limit srv svc groups) (\<lambda>limit.
      if m > limit then throw LeaseLimit
      else qmark id (unwrap (date_add now dur)) (\<lambda>until.
        qmark DatabaseError (tx_lease_hosts srv u is until) (\<lambda>_.
        qmark DatabaseError (tx_get_leased_hosts srv u) (\<lambda>leased.
        qmark DatabaseError (commit_tx srv) (\<lambda>_. return leased))))) s = (r, s')"
    and ok: "db_ok (working s)" and same: "working s = committed s"
  obtains (failed) "committed s' = committed s" "\<And>ls. r \<noteq> Ok ls"
    | (leased) n until k where "limit_of svc (committed s) groups = Some n" "m \<le> n"
      "date_add now dur = Some until"
      "committed s' = assign_hosts u is (to_timestamptz until) (committed s)"
      "db_ok (committed s')"
      "r = Err (DatabaseError Io) \<or>
       r = Ok (map (leased_of (committed s')) (rows_of srv k (committed s') u))"
  using run
proof (cases rule: qmark_keeps [where P = committed, consumes 1, case_names _ go stop])
  case (go n t)
  then have n: "limit_of svc (committed s) groups = Some n" "working t = committed s" "committed t = committed s"
    using same by (auto elim: get_lease_limit_cases)
  show thesis
  proof (cases "m > n")
    case True
    with go(3) n(3) show thesis by (intro that(1)) (auto simp: throw_def)
  next
    case False
    with go(3) have "qmark id (unwrap (date_add now dur)) (\<lambda>until.
        qmark DatabaseError (tx_lease_hosts srv u is until) (\<lambda>_.
        qmark DatabaseError (tx_get_leased_hosts srv u) (\<lambda>leased.
        qmark DatabaseError (commit_tx srv) (\<lambda>_. return leased)))) t = (r, s')"
      by simp
    then show thesis
    proof (cases rule: lease_tail [consumes 1, case_names _ _ stop leased])
      case (leased until k)
      with n(1,3) False show thesis by (intro that(2)) auto
    qed (use that(1) n ok same in auto)
  qed
qed (use that(1) in \<open>auto intro: keeps_hosts_get_lease_limit\<close>)

lemma hosts_lease_cases:
  assumes lease: "hosts_lease srv svc hash now u groups is dur s = (r, s')"
    and ok: "db_ok (committed s)"
  obtains (failed) "committed s' = committed s" "\<And>ls. r \<noteq> Ok ls"
    | (leased) n until k where
      "limit_of svc (committed s) groups = Some n"
      "held (committed s) u \<inter> set is = {}"
      "card (held (committed s) u) + card (set is) \<le> n"
      "date_add now dur = Some until"
      "committed s' = assign_hosts u is (to_timestamptz until) (committed s)"
      "db_ok (committed s')"
      "r = Err (DatabaseError Io) \<or>
       r = Ok (map (leased_of (committed s')) (rows_of srv k (committed s') u))"
proof -
  let ?d = "committed s"
  note step = qmark_keeps [where P = committed, consumes 1, case_names _ go stop]
  show thesis
    using lease unfolding hosts_lease_def
  proof (cases rule: step)
    case (go x t0)
    then have t0: "working t0 = ?d" "committed t0 = ?d" by (auto elim!: begin_tx_OkE)
    from go(3) show ?thesis
    proof (cases rule: step)
      case (go hs t1)
      then have t1: "working t1 = ?d" "committed t1 = ?d" "set (map lh_id hs) = held ?d u"
          "length (remdups (map lh_id hs)) = card (held ?d u)"
        using get_leased_hosts_Ok [OF go(1)] t0 ok
        by (auto simp: distinct_remdups_id distinct_card)
      let ?inter = "filter (\<lambda>i. i \<in> set (remdups is)) (remdups (map lh_id hs))"
      show ?thesis
      proof (cases "?inter = []")
        case False
        with go(3) t1(2) show ?thesis by (intro failed) (auto simp: Let_def throw_def)
      next
        case True
        with t1(3) have disjoint: "held ?d u \<inter> set is = {}" by (auto simp: filter_empty_conv)
        note go(3) [unfolded Let_def, simplified True simp_thms if_False]
        then show ?thesis
        proof (cases rule: lease_checked [consumes 1, case_names _ _ stop leased])
          case (leased n until k)
          with t1(2,4) disjoint show ?thesis
            by (intro that(2)) (auto simp: length_remdups_card_conv)
        qed (use failed t1 ok in auto)
      qed
    qed (use failed t0 in \<open>auto simp: tx_get_leased_hosts_def intro: keeps_query\<close>)
  qed (use failed in \<open>auto intro: keeps_begin_tx\<close>)
qed

section \<open>The other writing calls\<close>

lemma write_tx_cases:
  assumes "qmark from (begin_tx srv) (\<lambda>_. qmark from (execute srv f) (\<lambda>_.
      qmark from (commit_tx srv) (\<lambda>_. return x))) s = (r, s')"
  obtains (failed) "committed s' = committed s" "\<And>y. r \<noteq> Ok y"
    | (written) d where "f (committed s) = Ok d" "committed s' = d"
      "r = Ok x \<or> r = Err (from Io)"
proof -
  note step = qmark_keeps [where P = committed, consumes 1, case_names _ go stop]
  show thesis
    using assms
  proof (cases rule: step)
    case (go a t0)
    then have t0: "working t0 = committed s" "committed t0 = committed s"
      by (auto elim!: begin_tx_OkE)
    from go(3) show ?thesis
    proof (cases rule: step)
      case (go b t1)
      then obtain d where d: "f (committed s) = Ok d" "working t1 = d" "committed t1 = committed s"
        using t0 by (auto elim!: execute_OkE)
      from go(3) show ?thesis
      proof (cases rule: qmark_elim)
        case (Ok c t2)
        from Ok(1) Ok(2) d that(2) show ?thesis
          by (auto simp: return_def elim!: commit_tx_cases)
      next
        case (Err e)
        from Err(1) show ?thesis by (rule commit_tx_cases) (use Err(2) d that in auto)
      qed simp
    qed (use that(1) t0 in \<open>auto intro: keeps_execute\<close>)
  qed (use that(1) in \<open>auto intro: keeps_begin_tx\<close>)
qed

lemma hosts_free_cases:
  assumes "hosts_free srv u is s = (r, s')"
  obtains (failed) "committed s' = committed s" "\<And>y. r \<noteq> Ok y"
    | (freed) "committed s' = clear_hosts (\<lambda>h. h_id h \<in> set is \<and> h_user_id h = Some u) (committed s)"
      "r = Ok () \<or> r = Err (DatabaseError Io)"
  using assms unfolding hosts_free_def tx_free_hosts_for_user_def
  by (rule write_tx_cases) (use that in auto)

lemma hosts_free_all_cases:
  assumes "hosts_free_all srv u s = (r, s')"
  obtains (failed) "committed s' = committed s" "\<And>y. r \<noteq> Ok y"
    | (freed) "committed s' = clear_hosts (\<lambda>h. h_user_id h = Some u) (committed s)"
      "r = Ok () \<or> r = Err (DatabaseError Io)"
  using assms unfolding hosts_free_all_def tx_free_all_def
  by (rule write_tx_cases) (use that in auto)

text \<open>A read-only call commits nothing new, whatever the server answers.\<close>

lemma read_only_committed:
  assumes call: "read_only srv from q s = (r, s')"
    and q: "keeps committed q" "\<And>s x t. q s = (Ok x, t) \<Longrightarrow> working t = working s"
  shows "committed s' = committed s"
proof -
  note step = qmark_keeps [where P = committed, consumes 1, case_names _ go stop]
  show ?thesis
    using call unfolding read_only_def
  proof (cases rule: step)
    case (go a t0)
    then have t0: "working t0 = committed s" "committed t0 = committed s"
      by (auto elim!: begin_tx_OkE)
    from go(3) show ?thesis
    proof (cases rule: step)
      case (go x t1)
      with q(2) t0 have t1: "working t1 = committed s" "committed t1 = committed s" by auto
      from go(3) show ?thesis
        by (rule qmark_elim) (use t1 commit_tx_atomic in \<open>fastforce simp: return_def\<close>)+
    qed (use t0 q(1) in auto)
  qed (auto intro: keeps_begin_tx)
qed

lemma read_only_query_committed:
  "read_only srv from (query srv q) s = (r, s') \<Longrightarrow> committed s' = committed s"
  by (erule read_only_committed) (auto intro: keeps_query elim: query_OkE)

lemma read_only_query_fine [fine_simps]:
  "fine srv \<Longrightarrow> q (Suc (calls s)) (committed s) = Ok x \<Longrightarrow>
   fst (read_only srv from (query srv q) s) = Ok x"
  by (simp add: read_only_def qmark_def fine_simps return_def)

section \<open>What a random lease does\<close>

lemma those_SomeD: "those xs = Some ys \<Longrightarrow> xs = map Some ys"
  by (induction xs arbitrary: ys) (auto split: option.splits)

lemma get_leased_host_Ok:
  assumes "tx_get_leased_host srv i s = (Ok l, t)" and ok: "db_ok (working s)"
  obtains h where "h \<in> set (hosts_t (working s))" "h_id h = i" "h_user_id h \<noteq> None"
    "l = leased_of (working s) h" "t = s\<lparr>calls := Suc (calls s)\<rparr>"
proof -
  let ?d = "working s"
  let ?hs = "filter (\<lambda>h. h_id h = i) (hosts_t ?d)"
  have rows: "map decode_LeasedHost (join_users ?d ?hs) =
      map Some (map (leased_of ?d) (filter (\<lambda>h. h_user_id h \<noteq> None) ?hs))"
    using those_join [OF ok, of ?hs] by (intro those_SomeD) auto
  from assms(1) have q: "fetch_one (map_option
      (\<lambda>hu. case decode_LeasedHost hu of None \<Rightarrow> Err ColumnDecode | Some l \<Rightarrow> Ok l)
      (first_row (join_users ?d ?hs))) = Ok l" and t: "t = s\<lparr>calls := Suc (calls s)\<rparr>"
    unfolding tx_get_leased_host_def by (auto elim!: query_OkE)
  then obtain hu rest where join: "join_users ?d ?hs = hu # rest"
    by (auto simp: fetch_one_def first_row_def split: option.splits list.splits)
  with q have "decode_LeasedHost hu = Some l"
    by (auto simp: fetch_one_def first_row_def split: option.splits)
  with join rows obtain h hs where "filter (\<lambda>h. h_user_id h \<noteq> None) ?hs = h # hs" "l = leased_of ?d h"
    by (cases "filter (\<lambda>h. h_user_id h \<noteq> None) ?hs") auto
  then have h: "h \<in> set (filter (\<lambda>h. h_user_id h \<noteq> None) ?hs)" "l = leased_of ?d h"
    by (metis list.set_intros(1), simp)
  then have "h \<in> set (hosts_t ?d)" "h_id h = i" "h_user_id h \<noteq> None" by auto
  with h(2) t show thesis by (intro that)
qed

lemma random_tail:
  assumes tail: "qmark id (unwrap (date_add now dur)) (\<lambda>until.
      qmark DatabaseError (tx_lease_hosts srv u [i] until) (\<lambda>_.
      qmark DatabaseError (tx_get_leased_host srv i) (\<lambda>leased.
      qmark DatabaseError (commit_tx srv) (\<lambda>_. return leased)))) s = (r, s')"
    and ok: "db_ok (working s)" and same: "working s = committed s"
  obtains (failed) "committed s' = committed s" "\<And>l. r \<noteq> Ok l"
    | (leased) until where "date_add now dur = Some until"
      "committed s' = assign_hosts u [i] (to_timestamptz until) (committed s)"
      "db_ok (committed s')"
      "r = Err (DatabaseError Io) \<or> (\<exists>h \<in> set (hosts_t (committed s')). h_id h = i \<and>
         h_user_id h = Some u \<and> r = Ok (leased_of (committed s') h))"
proof -
  from tail ok same show thesis
  proof (cases rule: assign_step)
    case (assigned until t)
    from assigned(2) show thesis
    proof (cases rule: qmark_keeps [where P = committed, consumes 1, case_names _ go stop])
      case (go l t3)
      obtain h where h: "h \<in> set (hosts_t (working t))" "h_id h = i" "l = leased_of (working t) h"
          and t3: "t3 = t\<lparr>calls := Suc (calls t)\<rparr>"
        using go(1) assigned(5) by (rule get_leased_host_Ok)
      from h(1,2) have holder: "h_user_id h = Some u"
        unfolding assigned(3) by (intro assigned_row(1)) auto
      from go(3) show thesis
      proof (cases rule: commit_last)
        case taken
        with h holder assigned t3 show thesis by (intro that(2)) auto
      qed (use that(1) assigned t3 in auto)
    qed (use that(1) assigned in \<open>auto simp: tx_get_leased_host_def intro: keeps_query\<close>)
  qed (use that(1) in auto)
qed

lemma first_available_Ok:
  assumes "tx_get_first_available_group_host srv g s = (Ok x, t)"
  shows "t = s\<lparr>calls := Suc (calls s)\<rparr>"
    and "x = Some h \<Longrightarrow> h \<in> set (hosts_t (working s)) \<and> h_user_id h = None \<and> h_group_id h = g"
    and "x = None \<Longrightarrow> \<forall>h \<in> set (hosts_t (working s)). h_group_id h = g \<longrightarrow> h_user_id h \<noteq> None"
  using assms unfolding tx_get_first_available_group_host_def
  by (auto elim!: query_OkE dest!: first_row_Some simp: filter_empty_conv
      dest: arg_cong [of _ _ set])

lemma random_rest:
  assumes rest: "qmark DatabaseError (tx_get_first_available_group_host srv g) (\<lambda>host.
      case host of
        None \<Rightarrow> throw ThereIsNoFreeHosts
      | Some h \<Rightarrow>
          qmark id (unwrap (date_add now dur)) (\<lambda>until.
          qmark DatabaseError (tx_lease_hosts srv u [h_id h] until) (\<lambda>_.
          qmark DatabaseError (tx_get_leased_host srv (h_id h)) (\<lambda>leased.
          qmark DatabaseError (commit_tx srv) (\<lambda>_. return leased))))) s = (r, s')"
    and d: "working s = d" "committed s = d" and ok: "db_ok d"
  obtains (failed) "committed s' = d" "\<And>l. r \<noteq> Ok l"
    | (leased) h until where
      "h \<in> set (hosts_t d)" "h_user_id h = None" "h_group_id h = g"
      "date_add now dur = Some until"
      "committed s' = assign_hosts u [h_id h] (to_timestamptz until) d" "db_ok (committed s')"
      "r = Err (DatabaseError Io) \<or> (\<exists>h' \<in> set (hosts_t (committed s')). h_id h' = h_id h \<and>
         h_user_id h' = Some u \<and> r = Ok (leased_of (committed s') h'))"
  using rest
proof (cases rule: qmark_keeps [where P = committed, consumes 1, case_names _ go stop])
  case (go x t1)
  then have t1: "working t1 = d" "committed t1 = d"
    using first_available_Ok(1) [OF go(1)] d by auto
  show ?thesis
  proof (cases x)
    case None
    with go(3) t1 show ?thesis by (auto simp: throw_def intro: that(1))
  next
    case (Some h)
    with first_available_Ok(2) [OF go(1)] d
    have h: "h \<in> set (hosts_t d)" "h_user_id h = None" "h_group_id h = g" by auto
    from go(3) Some have "qmark id (unwrap (date_add now dur)) (\<lambda>until.
          qmark DatabaseError (tx_lease_hosts srv u [h_id h] until) (\<lambda>_.
          qmark DatabaseError (tx_get_leased_host srv (h_id h)) (\<lambda>leased.
          qmark DatabaseError (commit_tx srv) (\<lambda>_. return leased)))) t1 = (r, s')"
      by simp
    then show ?thesis
      by (rule random_tail) (use h t1 ok that in auto)
  qed
qed (use that(1) d in \<open>auto simp: tx_get_first_available_group_host_def intro: keeps_query\<close>)

lemma hosts_lease_random_cases:
  assumes lease: "hosts_lease_random srv svc now u groups dur g s = (r, s')"
    and ok: "db_ok (committed s)"
  obtains (failed) "committed s' = committed s" "\<And>l. r \<noteq> Ok l"
    | (leased) n h until where
      "limit_of svc (committed s) groups = Some n" "card (held (committed s) u) < n"
      "h \<in> set (hosts_t (committed s))" "h_user_id h = None" "h_group_id h = g"
      "date_add now dur = Some until"
      "committed s' = assign_hosts u [h_id h] (to_timestamptz until) (committed s)"
      "db_ok (committed s')"
      "r = Err (DatabaseError Io) \<or> (\<exists>h' \<in> set (hosts_t (committed s')). h_id h' = h_id h \<and>
         h_user_id h' = Some u \<and> r = Ok (leased_of (committed s') h'))"
proof -
  let ?d = "committed s"
  have failed: thesis if "committed s' = ?d" "r = Panic \<or> (\<exists>d. r = Err d)"
    using that by (intro failed) auto
  note step = qmark_keeps [where P = committed, consumes 1, case_names _ go stop]
  note keep = keeps_begin_tx keeps_query keeps_hosts_get_lease_limit
  show thesis
    using lease unfolding hosts_lease_random_def
  proof (cases rule: step)
    case (go x t0)
    then have t0: "working t0 = ?d" "committed t0 = ?d" by (auto elim!: begin_tx_OkE)
    from go(3) show ?thesis
    proof (cases rule: step)
      case (go n t1)
      then have n: "limit_of svc ?d groups = Some n" "working t1 = ?d" "committed t1 = ?d"
        using t0 by (auto elim: get_lease_limit_cases)
      from go(3) show ?thesis
      proof (cases rule: step)
        case (go hs t2)
        then have t2: "working t2 = ?d" "committed t2 = ?d" "length hs = card (held ?d u)"
          using get_leased_hosts_Ok [OF go(1)] n ok by auto
        show ?thesis
        proof (cases "length hs \<ge> n")
          case True
          with go(3) t2 show ?thesis by (auto simp: throw_def intro: failed)
        next
          case False
          with t2(3) have lt: "card (held ?d u) < n" by simp
          note go(3) [simplified False if_False]
          then show ?thesis
            by (rule random_rest [OF _ t2(1,2) ok]) (use that n(1) lt in blast)+
        qed
      qed (use failed n in \<open>auto simp: tx_get_leased_hosts_def intro: keep\<close>)
    qed (use failed t0 in \<open>auto intro: keep\<close>)
  qed (use failed in \<open>auto intro: keep\<close>)
qed

end
