(* ===== verification/Sample.thy ===== *)
theory Sample
  imports Hosts_Service
begin

text \<open>
  A small concrete database and servers, the inputs of the witnesses: two users, one group
  with three hosts of which the second user holds one, one Active Directory group with a
  limit and one with a negative limit.
\<close>

definition sample_server :: server where
  "sample_server = \<lparr>reply = (\<lambda>n. Answer), scan = (\<lambda>n i. unat i), scan_text = (\<lambda>n s. length s),
     inet_key = (\<lambda>a. 0), text_key = (\<lambda>s. 0), gen_uuid = (\<lambda>n. ''uuid-'' @ show_nat n),
     server_now = (\<lambda>n. 0)\<rparr>"

text \<open>A server that loses the answer to call number \<open>k\<close>.\<close>

definition losing_server :: "nat \<Rightarrow> server" where
  "losing_server k = sample_server\<lparr>reply := (\<lambda>n. if n = k then AnswerLost else Answer)\<rparr>"

lemma fine_sample [simp]: "fine sample_server"
  by (simp add: fine_def sample_server_def)

definition alice :: User where
  "alice = \<lparr>u_id = UserId 1, u_dn = ''cn=alice'', u_tg_handle = Some ''42'',
     u_email = ''alice@x'', u_link = ''link-a''\<rparr>"

definition bob :: User where
  "bob = \<lparr>u_id = UserId 2, u_dn = ''cn=bob'', u_tg_handle = None,
     u_email = ''bob@x'', u_link = ''link-b''\<rparr>"

definition sample_host :: "i32 \<Rightarrow> timestamptz option \<Rightarrow> UserId option \<Rightarrow> Host" where
  "sample_host i t u = \<lparr>h_id = HostId i, h_hostname = ''host'',
     h_ip_address = IpNetwork (V4 0x0A000001) 32, h_leased_until = t, h_user_id = u,
     h_group_id = GroupId 0\<rparr>"

definition sample_db :: database where
  "sample_db = \<lparr>users_t = [alice, bob], groups_t = [\<lparr>g_id = GroupId 0, g_name = ''root''\<rparr>],
     hosts_t = [sample_host 1 None None, sample_host 2 None None,
                sample_host 3 (Some 500) (Some (UserId 2))],
     lease_limits_t = [\<lparr>al_group = ''devs'', al_limit = 2\<rparr>, \<lparr>al_group = ''odd'', al_limit = - 1\<rparr>],
     api_tokens_t = []\<rparr>"

definition sample_pg :: pg where
  "sample_pg = \<lparr>calls = 0, committed = sample_db, working = sample_db, users_seq = 3,
     tokens_seq = 1\<rparr>"

definition sample_service :: HostsService where
  "sample_service = \<lparr>lease_limit = 1\<rparr>"

lemmas sample_defs = sample_server_def losing_server_def alice_def bob_def sample_host_def
  sample_db_def sample_pg_def sample_service_def

lemma committed_sample [simp]: "committed sample_pg = sample_db"
  by (simp add: sample_pg_def)

lemma db_ok_sample [simp]: "db_ok sample_db"
  by (simp add: db_ok_def schema_defs leases_ok_def sample_defs user_ids_def)

lemma db_ok_sample_pg: "db_ok (committed sample_pg)"
  by simp

end
