(* ===== verification/Hosts_Props.thy ===== *)
theory Hosts_Props
  imports Sample
begin

text \<open>
  The properties of \<open>HostsService\<close>: what leases, releases and listings do to the book of
  \<open>Lease_Book\<close>, under every behaviour of the server unless a statement says otherwise.
\<close>

section \<open>Evaluation on a server that answers\<close>

lemma get_leased_hosts_fine [fine_simps]:
  "fine srv \<Longrightarrow> db_ok (working s) \<Longrightarrow> tx_get_leased_hosts srv u s =
     (Ok (map (leased_of (working s)) (rows_of srv (calls s) (working s) u)),
      s\<lparr>calls := Suc (calls s)\<rparr>)"
  by (simp add: tx_get_leased_hosts_def query_fine get_leased_hosts_rows)

lemma lease_limit_fine [fine_simps]:
  assumes "fine srv"
  shows "hosts_get_lease_limit srv svc groups s =
     (case limit_of svc (working s) groups of None \<Rightarrow> Panic | Some n \<Rightarrow> Ok n,
      s\<lparr>calls := Suc (calls s)\<rparr>)"
proof -
  define ls where "ls = sort_key (\<lambda>l. scan_text srv (calls s) (al_group l))
    (filter (\<lambda>l. al_group l \<in> set groups) (lease_limits_t (working s)))"
  have set: "set ls = set (filter (\<lambda>l. al_group l \<in> set groups) (lease_limits_t (working s)))"
    and nil: "filter (\<lambda>l. al_group l \<in> set groups) (lease_limits_t (working s)) = [] \<longleftrightarrow> ls = []"
    by (simp_all add: ls_def)
  have "limit_of svc (working s) groups =
      (if \<exists>l \<in> set ls. sint (al_limit l) < 0 then None
       else Some (if ls = [] then lease_limit svc
                  else Max ((\<lambda>l. nat (sint (al_limit l))) ` set ls)))"
    unfolding limit_of_def Let_def set nil ..
  moreover have "tx_get_ad_groups_lease_limits srv groups s = (Ok ls, s\<lparr>calls := Suc (calls s)\<rparr>)"
    using assms by (simp add: tx_get_ad_groups_lease_limits_def query_fine ls_def)
  ultimately show ?thesis
    by (simp add: hosts_get_lease_limit_def those_usize io_defs)
qed

lemma rows_inter:
  assumes "db_ok d"
  shows "set (filter (\<lambda>i. i \<in> set is) (remdups (map h_id (rows_of srv n d u)))) = held d u \<inter> set is"
    and "filter (\<lambda>i. i \<in> set is) (remdups (map h_id (rows_of srv n d u))) = [] \<longleftrightarrow>
      held d u \<inter> set is = {}"
    and "length (remdups (map h_id (rows_of srv n d u))) = card (held d u)"
  using rows_of_ids [OF assms, of srv n u]
  by (auto simp: filter_empty_conv distinct_remdups_id)

definition lease_permitted :: "database \<Rightarrow> UserId \<Rightarrow> HostId list \<Rightarrow> nat \<Rightarrow> bool" where
  "lease_permitted d u is n \<longleftrightarrow>
     held d u \<inter> set is = {} \<and> card (held d u) + card (set is) \<le> n"

lemma lease_overlap:
  assumes "fine srv" "db_ok (committed s)" "held (committed s) u \<inter> set is \<noteq> {}"
  shows "\<exists>js. fst (hosts_lease srv svc hash now u groups is dur s) = Err (AlreadyLeased js) \<and>
    set js = held (committed s) u \<inter> set is"
  using assms rows_inter(1) [OF assms(2), of "is" srv "Suc (calls s)" u]
    rows_inter(2) [OF assms(2), of "is" srv "Suc (calls s)" u]
  by (simp add: hosts_lease_def qmark_def fine_simps throw_def o_def Let_def)

lemma lease_disjoint:
  assumes "fine srv" "db_ok (committed s)" "held (committed s) u \<inter> set is = {}"
  shows "limit_of svc (committed s) groups = None \<Longrightarrow>
      fst (hosts_lease srv svc hash now u groups is dur s) = Panic"
    and "limit_of svc (committed s) groups = Some n \<Longrightarrow>
      n < card (held (committed s) u) + card (set is) \<Longrightarrow>
      fst (hosts_lease srv svc hash now u groups is dur s) = Err LeaseLimit"
  using assms rows_inter(2) [OF assms(2), of "is" srv "Suc (calls s)" u]
    rows_inter(3) [OF assms(2), of srv "Suc (calls s)" u]
  by (simp_all add: hosts_lease_def qmark_def fine_simps throw_def o_def Let_def
      length_remdups_card_conv)

lemma lease_succeeds:
  assumes "fine srv" "db_ok (committed s)" "u \<in> user_ids (committed s)"
    and "limit_of svc (committed s) groups = Some n" "lease_permitted (committed s) u is n"
    and "date_add now dur = Some until" "timestamptz_ok (to_timestamptz until)"
  shows "\<exists>k. fst (hosts_lease srv svc hash now u groups is dur s) =
    Ok (map (leased_of (assign_hosts u is (to_timestamptz until) (committed s)))
      (rows_of srv k (assign_hosts u is (to_timestamptz until) (committed s)) u))"
proof -
  have "db_ok (assign_hosts u is (to_timestamptz until) (committed s))"
    using assms by (auto intro: db_ok_assign)
  then show ?thesis
    using assms rows_inter(2) [OF assms(2), of "is" srv "Suc (calls s)" u]
    rows_inter(3) [OF assms(2), of srv "Suc (calls s)" u]
    by (auto simp: hosts_lease_def qmark_def fine_simps io_defs o_def Let_def lease_permitted_def
        length_remdups_card_conv tx_lease_hosts_def)
qed

section \<open>Leasing\<close>

text \<open>
  C7: a lease commits a change only under all its guards: none of the requested hosts is
  already the user's, the user's hosts and the distinct requested identifiers together do
  not exceed the limit of the user's groups, and the change is exactly that every requested
  host that exists is assigned to the user until the end of the lease. This holds whatever
  the server does, including a commit whose answer is lost.
\<close>

theorem lease_guarded:
  assumes "hosts_lease srv svc hash now u groups is dur s = (r, s')"
    and "db_ok (committed s)" and "committed s' \<noteq> committed s"
  shows "\<exists>n until. limit_of svc (committed s) groups = Some n \<and>
    held (committed s) u \<inter> set is = {} \<and> card (held (committed s) u) + card (set is) \<le> n \<and>
    date_add now dur = Some until \<and>
    committed s' = assign_hosts u is (to_timestamptz until) (committed s)"
  using assms(1,2) by (rule hosts_lease_cases) (use assms(3) in auto)

definition alice_lease :: "(LeasedHost list, HostError) outcome \<times> pg" where
  "alice_lease = hosts_lease sample_server sample_service (\<lambda>_. 0) 0 (UserId 1) [''devs'']
     [HostId 1, HostId 2] hour sample_pg"

lemma alice_lease_result:
  "case fst alice_lease of Ok ls \<Rightarrow> map lh_id ls = [HostId 1, HostId 2] | _ \<Rightarrow> False"
  "committed (snd alice_lease) \<noteq> sample_db"
  by code_simp+

theorem lease_guarded_witness:
  "\<exists>n until. limit_of sample_service sample_db [''devs''] = Some n \<and>
    held sample_db (UserId 1) \<inter> set [HostId 1, HostId 2] = {} \<and>
    card (held sample_db (UserId 1)) + card (set [HostId 1, HostId 2]) \<le> n \<and>
    date_add 0 hour = Some until \<and>
    committed (snd alice_lease) =
      assign_hosts (UserId 1) [HostId 1, HostId 2] (to_timestamptz until) sample_db"
  using lease_guarded [of sample_server sample_service "\<lambda>_. 0" 0 "UserId 1" "[''devs'']"
      "[HostId 1, HostId 2]" hour sample_pg "fst alice_lease" "snd alice_lease"]
    alice_lease_result(2)
  by (simp add: alice_lease_def)

text \<open>
  No lease call takes a user over the limit. After the call, in whatever way it ended,
  the user holds no more hosts than before or no more than the limit of his groups.
\<close>

theorem lease_within_limit:
  assumes "hosts_lease srv svc hash now u groups is dur s = (r, s')"
    and "db_ok (committed s)"
  shows "held (committed s') u = held (committed s) u \<or>
    (\<exists>n. limit_of svc (committed s) groups = Some n \<and> card (held (committed s') u) \<le> n)"
  using assms
proof (rule hosts_lease_cases)
  fix n until k
  assume n: "limit_of svc (committed s) groups = Some n"
    and le: "card (held (committed s) u) + card (set is) \<le> n"
    and s': "committed s' = assign_hosts u is (to_timestamptz until) (committed s)"
  have "card (held (committed s') u) \<le> n"
    unfolding s' using book.card_held_by_assign le by (rule le_trans)
  with n show ?thesis by blast
qed simp

theorem lease_within_limit_witness:
  "held (committed (snd alice_lease)) (UserId 1) = held sample_db (UserId 1) \<or>
   (\<exists>n. limit_of sample_service sample_db [''devs''] = Some n \<and>
      card (held (committed (snd alice_lease)) (UserId 1)) \<le> n)"
  using lease_within_limit [of sample_server sample_service "\<lambda>_. 0" 0 "UserId 1" "[''devs'']"
      "[HostId 1, HostId 2]" hour sample_pg "fst alice_lease" "snd alice_lease"]
  by (simp add: alice_lease_def)

lemma sorted_map_leased:
  assumes "\<And>h. h \<in> set hs \<Longrightarrow> h_leased_until h \<noteq> None"
  shows "sorted (map (\<lambda>h. the (h_leased_until h)) (by_lease_end srv hs))"
proof -
  let ?t = "\<lambda>h. case h_leased_until h of None \<Rightarrow> 0 | Some t \<Rightarrow> t"
  let ?ys = "sort_key ?t (by_address srv hs)"
  have "sorted (map (\<lambda>h. h_leased_until h = None) ?ys)"
    using assms by (intro sorted_map_const [where c = False]) simp
  then have "by_lease_end srv hs = ?ys"
    unfolding by_lease_end_def by (rule sort_key_id_if_sorted)
  moreover have "map (\<lambda>h. the (h_leased_until h)) ?ys = map ?t ?ys"
    using assms by (intro map_cong) (fastforce split: option.splits)+
  ultimately show ?thesis by (simp only: sorted_sort_key)
qed

text \<open>
  C8: the effect of a successful lease on the book, host by host: the requested hosts that
  exist are the user's until the end of the lease, every other host is as before. The
  answer lists the user's hosts, each once, by the end of their lease.
\<close>

theorem lease_effect:
  assumes "hosts_lease srv svc hash now u groups is dur s = (Ok ls, s')"
    and "db_ok (committed s)"
  shows "\<exists>until. date_add now dur = Some until \<and>
    (\<forall>i. holder (committed s') i =
      (if i \<in> set is \<and> i \<in> host_ids (committed s) then Some (u, to_timestamptz until)
       else holder (committed s) i)) \<and>
    set (map lh_id ls) = held (committed s') u \<and> distinct (map lh_id ls) \<and>
    sorted (map lh_leased_until ls)"
  using assms
proof (rule hosts_lease_cases)
  fix n until k
  assume until: "date_add now dur = Some until"
    and s': "committed s' = assign_hosts u is (to_timestamptz until) (committed s)"
    and ok: "db_ok (committed s')"
    and r: "Ok ls = Err (DatabaseError Io) \<or>
      Ok ls = Ok (map (leased_of (committed s')) (rows_of srv k (committed s') u))"
  from r have ls: "ls = map (leased_of (committed s')) (rows_of srv k (committed s') u)" by simp
  have "sorted (map (\<lambda>h. the (h_leased_until h)) (rows_of srv k (committed s') u))"
    unfolding rows_of_def using db_okD(4) [OF ok]
    by (intro sorted_map_leased) fastforce
  with ls rows_of_ids(1,2) [OF ok, of srv k u] until show ?thesis
    by (auto simp: s' holder_assign o_def)
qed blast

theorem lease_effect_witness:
  "\<exists>ls s' until. alice_lease = (Ok ls, s') \<and> date_add 0 hour = Some until \<and>
     (\<forall>i. holder (committed s') i =
       (if i \<in> set [HostId 1, HostId 2] \<and> i \<in> host_ids sample_db
        then Some (UserId 1, to_timestamptz until) else holder sample_db i)) \<and>
     set (map lh_id ls) = held (committed s') (UserId 1) \<and> distinct (map lh_id ls) \<and>
     sorted (map lh_leased_until ls)"
proof -
  obtain ls s' where run: "alice_lease = (Ok ls, s')"
    using alice_lease_result(1) by (rule outcome_run_Ok)
  from lease_effect [OF run [unfolded alice_lease_def]] run show ?thesis
    unfolding committed_sample using db_ok_sample by blast
qed

text \<open>
  C9: on a server that answers, the outcome of a lease by a known user is decided by the
  request and the database alone: hosts already held are reported, all of them and no
  others; a negative limit of one of the user's groups is a panic; a request over the limit
  is refused; and a permitted request succeeds.
\<close>

theorem lease_outcome:
  assumes "fine srv" and "db_ok (committed s)" and "u \<in> user_ids (committed s)"
    and "date_add now dur = Some until" and "timestamptz_ok (to_timestamptz until)"
  shows "case fst (hosts_lease srv svc hash now u groups is dur s) of
      Ok ls \<Rightarrow> \<exists>n. limit_of svc (committed s) groups = Some n \<and>
        held (committed s) u \<inter> set is = {} \<and>
        card (held (committed s) u) + card (set is) \<le> n
    | Err e \<Rightarrow>
        (if held (committed s) u \<inter> set is \<noteq> {}
         then \<exists>js. e = AlreadyLeased js \<and> set js = held (committed s) u \<inter> set is
         else e = LeaseLimit \<and> (\<exists>n. limit_of svc (committed s) groups = Some n \<and>
           n < card (held (committed s) u) + card (set is)))
    | Panic \<Rightarrow> held (committed s) u \<inter> set is = {} \<and> limit_of svc (committed s) groups = None"
proof (cases "held (committed s) u \<inter> set is = {}")
  case False
  with lease_overlap [OF assms(1,2) False, of svc hash now groups dur] show ?thesis by force
next
  case True
  show ?thesis
  proof (cases "limit_of svc (committed s) groups")
    case None
    with lease_disjoint(1) [OF assms(1,2) True None, of hash now dur] True show ?thesis by simp
  next
    case (Some n)
    show ?thesis
    proof (cases "n < card (held (committed s) u) + card (set is)")
      case over: True
      with lease_disjoint(2) [OF assms(1,2) True Some over, of hash now dur] True Some
      show ?thesis by simp
    next
      case False
      with True have "lease_permitted (committed s) u is n" by (simp add: lease_permitted_def)
      from lease_succeeds [OF assms(1-3) Some this assms(4,5), of hash] True Some False
      show ?thesis by fastforce
    qed
  qed
qed

theorem lease_outcome_witness:
  "case fst (hosts_lease sample_server sample_service (\<lambda>_. 0) 0 (UserId 2) [] [HostId 3] hour
      sample_pg) of
      Ok ls \<Rightarrow> \<exists>n. limit_of sample_service sample_db [] = Some n \<and>
        held sample_db (UserId 2) \<inter> set [HostId 3] = {} \<and>
        card (held sample_db (UserId 2)) + card (set [HostId 3]) \<le> n
    | Err e \<Rightarrow>
        (if held sample_db (UserId 2) \<inter> set [HostId 3] \<noteq> {}
         then \<exists>js. e = AlreadyLeased js \<and> set js = held sample_db (UserId 2) \<inter> set [HostId 3]
         else e = LeaseLimit \<and> (\<exists>n. limit_of sample_service sample_db [] = Some n \<and>
           n < card (held sample_db (UserId 2)) + card (set [HostId 3])))
    | Panic \<Rightarrow> held sample_db (UserId 2) \<inter> set [HostId 3] = {} \<and>
        limit_of sample_service sample_db [] = None"
proof -
  have "UserId 2 \<in> user_ids sample_db" by (simp add: user_ids_def sample_defs)
  moreover have "date_add 0 hour = Some hour" by code_simp
  moreover have "timestamptz_ok (to_timestamptz hour)" by code_simp
  ultimately show ?thesis
    by (rule lease_outcome [OF fine_sample db_ok_sample_pg, unfolded committed_sample])
qed

text \<open>
  C10: a host that another user holds is not protected: a permitted request that names it
  succeeds, and the host is then the requester's, its former holder having lost it. The
  only overlap the code looks for is with the requester's own hosts.
\<close>

theorem lease_takes_over:
  assumes "fine srv" and "db_ok (committed s)" and "u \<in> user_ids (committed s)"
    and "limit_of svc (committed s) groups = Some n"
    and "card (held (committed s) u) < n" and "i \<in> held (committed s) v" and "v \<noteq> u"
    and "date_add now dur = Some until" and "timestamptz_ok (to_timestamptz until)"
  shows "\<exists>ls s'. hosts_lease srv svc hash now u groups [i] dur s = (Ok ls, s') \<and>
    i \<in> held (committed s') u \<and> i \<notin> held (committed s') v"
proof -
  have "lease_permitted (committed s) u [i] n"
    using assms book.held_by_disjoint [of v u "committed s"] by (auto simp: lease_permitted_def)
  then obtain ls where "fst (hosts_lease srv svc hash now u groups [i] dur s) = Ok ls"
    using lease_succeeds [OF assms(1-4) _ assms(8,9), of "[i]" hash] by auto
  then obtain s' where run: "hosts_lease srv svc hash now u groups [i] dur s = (Ok ls, s')"
    by (metis prod.collapse)
  have known: "i \<in> host_ids (committed s)"
    using assms(6) book.held_by_known by blast
  have "i \<in> held (committed s') u \<and> i \<notin> held (committed s') v"
    using run assms(2)
  proof (rule hosts_lease_cases)
    fix n until k
    assume s': "committed s' = assign_hosts u [i] (to_timestamptz until) (committed s)"
    show ?thesis unfolding s' book.held_by_assign using known assms(7) by simp
  qed blast
  with run show ?thesis by blast
qed

theorem lease_takes_over_witness:
  "HostId 3 \<in> held sample_db (UserId 2) \<and>
   (\<exists>ls s'. hosts_lease sample_server sample_service (\<lambda>_. 0) 0 (UserId 1) [] [HostId 3] hour
      sample_pg = (Ok ls, s') \<and>
    HostId 3 \<in> held (committed s') (UserId 1) \<and> HostId 3 \<notin> held (committed s') (UserId 2))"
proof -
  have "UserId 1 \<in> user_ids (committed sample_pg)" by (simp add: user_ids_def sample_defs)
  moreover have "limit_of sample_service (committed sample_pg) [] = Some 1" by code_simp
  moreover have "card (held (committed sample_pg) (UserId 1)) < 1" by code_simp
  moreover have h: "HostId 3 \<in> held (committed sample_pg) (UserId 2)" by code_simp
  moreover have "date_add 0 hour = Some hour" by code_simp
  moreover have "timestamptz_ok (to_timestamptz hour)" by code_simp
  ultimately show ?thesis
    using lease_takes_over [of sample_server sample_pg "UserId 1" sample_service "[]" 1
        "HostId 3" "UserId 2" 0 hour hour "\<lambda>_. 0"] by simp
qed

section \<open>Random leases\<close>

text \<open>
  C11: a random lease never takes a host from anybody: whenever it commits a change, the
  change is the assignment of one host of the requested group that nobody held, to a user
  below the limit; what it answers is that host, now held by the user.
\<close>

theorem lease_random_free_host:
  assumes "hosts_lease_random srv svc now u groups dur g s = (r, s')"
    and "db_ok (committed s)" and "committed s' \<noteq> committed s"
  shows "\<exists>h n until. h \<in> set (hosts_t (committed s)) \<and> h_user_id h = None \<and>
    h_group_id h = g \<and> limit_of svc (committed s) groups = Some n \<and>
    card (held (committed s) u) < n \<and> date_add now dur = Some until \<and>
    holder (committed s') = (holder (committed s))(h_id h \<mapsto> (u, to_timestamptz until)) \<and>
    (\<forall>l. r = Ok l \<longrightarrow> lh_id l = h_id h \<and> u_id (lh_user l) = u)"
  using assms(1,2)
proof (rule hosts_lease_random_cases)
  fix n h until
  assume n: "limit_of svc (committed s) groups = Some n" "card (held (committed s) u) < n"
    and h: "h \<in> set (hosts_t (committed s))" "h_user_id h = None" "h_group_id h = g"
    and until: "date_add now dur = Some until"
    and s': "committed s' = assign_hosts u [h_id h] (to_timestamptz until) (committed s)"
    and ok: "db_ok (committed s')"
    and r: "r = Err (DatabaseError Io) \<or> (\<exists>h'\<in>set (hosts_t (committed s')). h_id h' = h_id h \<and>
      h_user_id h' = Some u \<and> r = Ok (leased_of (committed s') h'))"
  have "holder (committed s') = (holder (committed s))(h_id h \<mapsto> (u, to_timestamptz until))"
    using h(1) by (auto simp: s' holder_assign host_ids_def)
  moreover have "\<forall>l. r = Ok l \<longrightarrow> lh_id l = h_id h \<and> u_id (lh_user l) = u"
    using r leased_of_user [OF ok] by auto
  ultimately show ?thesis using n h until by blast
qed (use assms(3) in simp)

definition bob_random :: "(LeasedHost, HostError) outcome \<times> pg" where
  "bob_random = hosts_lease_random sample_server sample_service 0 (UserId 2) [''devs''] hour
     (GroupId 0) sample_pg"

lemma bob_random_changes: "committed (snd bob_random) \<noteq> sample_db"
  by code_simp

theorem lease_random_free_host_witness:
  "\<exists>h n until. h \<in> set (hosts_t sample_db) \<and> h_user_id h = None \<and>
    h_group_id h = GroupId 0 \<and> limit_of sample_service sample_db [''devs''] = Some n \<and>
    card (held sample_db (UserId 2)) < n \<and> date_add 0 hour = Some until \<and>
    holder (committed (snd bob_random)) =
      (holder sample_db)(h_id h \<mapsto> (UserId 2, to_timestamptz until)) \<and>
    (\<forall>l. fst bob_random = Ok l \<longrightarrow> lh_id l = h_id h \<and> u_id (lh_user l) = UserId 2)"
  using lease_random_free_host [of sample_server sample_service 0 "UserId 2" "[''devs'']" hour
      "GroupId 0" sample_pg "fst bob_random" "snd bob_random"] bob_random_changes
  by (simp add: bob_random_def)

lemma get_leased_host_fine:
  assumes "fine srv" "db_ok (working s)" "h \<in> set (hosts_t (working s))" "h_user_id h = Some u"
  shows "tx_get_leased_host srv (h_id h) s =
    (Ok (leased_of (working s) h), s\<lparr>calls := Suc (calls s)\<rparr>)"
proof -
  have "filter (\<lambda>x. h_id x = h_id h) (hosts_t (working s)) = [h]"
    using filter_unique [OF db_okD(2) [OF assms(2)]]
      find_distinct_eq [OF db_okD(2) [OF assms(2)] assms(3)] by blast
  moreover obtain x where "user_row (working s) u = Some x"
      "join_users (working s) [h] = [(h, x)]"
    using join_one [OF assms(2-4), of "[]"] by (auto simp: join_users_def)
  moreover obtain t where "h_leased_until h = Some t" using db_okD(4) [OF assms(2-4)] by blast
  ultimately show ?thesis
    using assms(1,4) by (simp add: tx_get_leased_host_def query_fine fetch_one_def first_row_def
        decode_LeasedHost_def leased_of_def)
qed

text \<open>
  C12: on a server that answers, a random lease finds a host whenever there is one: for a
  known user below his limit it succeeds if some host of the group is free and reports that
  there is none otherwise.
\<close>

theorem lease_random_outcome:
  assumes "fine srv" and "db_ok (committed s)" and "u \<in> user_ids (committed s)"
    and "limit_of svc (committed s) groups = Some n" and "card (held (committed s) u) < n"
    and "date_add now dur = Some until" and "timestamptz_ok (to_timestamptz until)"
  shows "(\<exists>h \<in> set (hosts_t (committed s)). h_group_id h = g \<and> h_user_id h = None) \<and>
      (\<exists>l. fst (hosts_lease_random srv svc now u groups dur g s) = Ok l) \<or>
    (\<forall>h \<in> set (hosts_t (committed s)). h_group_id h = g \<longrightarrow> h_user_id h \<noteq> None) \<and>
      fst (hosts_lease_random srv svc now u groups dur g s) = Err ThereIsNoFreeHosts"
proof -
  let ?d = "committed s"
  let ?free = "filter (\<lambda>h. h_user_id h = None \<and> h_group_id h = g) (hosts_t ?d)"
  let ?scan = "scan_hosts srv (Suc (Suc (Suc (calls s)))) ?free"
  note eval = hosts_lease_random_def qmark_def fine_simps io_defs
    tx_get_first_available_group_host_def rows_of_ids(3) [OF assms(2)]
  show ?thesis
  proof (cases "first_row ?scan")
    case None
    then have none: "?free = []" by simp
    then have "\<forall>h \<in> set (hosts_t ?d). h_group_id h = g \<longrightarrow> h_user_id h \<noteq> None"
      by (auto simp: filter_empty_conv)
    moreover have "fst (hosts_lease_random srv svc now u groups dur g s) = Err ThereIsNoFreeHosts"
      using assms none by (simp add: eval first_row_def scan_hosts_def del: filter_empty_conv)
    ultimately show ?thesis by blast
  next
    case (Some h)
    then have "h \<in> set ?scan" by (rule first_row_Some)
    then have h: "h \<in> set (hosts_t ?d)" "h_user_id h = None" "h_group_id h = g" by auto
    let ?d' = "assign_hosts u [h_id h] (to_timestamptz until) ?d"
    let ?h' = "h\<lparr>h_user_id := Some u, h_leased_until := Some (to_timestamptz until)\<rparr>"
    have ok': "db_ok ?d'" using assms by (auto intro: db_ok_assign)
    have h': "?h' \<in> set (hosts_t ?d')" using h(1) by (auto simp: assign_hosts_def image_iff)
    have read: "tx_get_leased_host srv (h_id h) t = (Ok (leased_of ?d' ?h'), t\<lparr>calls := Suc (calls t)\<rparr>)"
      if "working t = ?d'" for t
      using get_leased_host_fine [of srv t ?h' u] assms(1) ok' h' that by simp
    have "fst (hosts_lease_random srv svc now u groups dur g s) = Ok (leased_of ?d' ?h')"
      using assms Some by (simp add: eval tx_lease_hosts_def read)
    with h show ?thesis by blast
  qed
qed

theorem lease_random_outcome_witness:
  "(\<exists>h \<in> set (hosts_t sample_db). h_group_id h = GroupId 5 \<and> h_user_id h = None) \<and>
      (\<exists>l. fst (hosts_lease_random sample_server sample_service 0 (UserId 1) [] hour (GroupId 5)
        sample_pg) = Ok l) \<or>
    (\<forall>h \<in> set (hosts_t sample_db). h_group_id h = GroupId 5 \<longrightarrow> h_user_id h \<noteq> None) \<and>
      fst (hosts_lease_random sample_server sample_service 0 (UserId 1) [] hour (GroupId 5)
        sample_pg) = Err ThereIsNoFreeHosts"
proof -
  have "UserId 1 \<in> user_ids sample_db" by (simp add: user_ids_def sample_defs)
  moreover have "limit_of sample_service sample_db [] = Some 1" by code_simp
  moreover have "card (held sample_db (UserId 1)) < 1" by code_simp
  moreover have "date_add 0 hour = Some hour" by code_simp
  moreover have "timestamptz_ok (to_timestamptz hour)" by code_simp
  ultimately show ?thesis
    by (rule lease_random_outcome [OF fine_sample db_ok_sample_pg, unfolded committed_sample])
qed

section \<open>Releasing\<close>

text \<open>
  C13: a user can release only his own hosts: whatever identifiers a release names and
  however it ends, the other users hold what they held, until the same time; and after a
  successful release the user holds none of the hosts he named and all of his others.
\<close>

theorem free_only_own:
  assumes "hosts_free srv u is s = (r, s')"
  shows "(\<forall>v. v \<noteq> u \<longrightarrow> held (committed s') v = held (committed s) v) \<and>
    (\<forall>i. i \<notin> held (committed s) u \<longrightarrow> holder (committed s') i = holder (committed s) i) \<and>
    (r = Ok () \<longrightarrow> held (committed s') u = held (committed s) u - set is)"
  using assms
  by (rule hosts_free_cases) (simp_all add: book.held_by_free_for book.book_free_for)

theorem free_only_own_witness:
  "\<exists>s'. hosts_free sample_server (UserId 1) [HostId 3] sample_pg = (Ok (), s') \<and>
     (\<forall>v. v \<noteq> UserId 1 \<longrightarrow> held (committed s') v = held sample_db v) \<and>
     held (committed s') (UserId 1) = held sample_db (UserId 1) - {HostId 3}"
proof -
  have "case fst (hosts_free sample_server (UserId 1) [HostId 3] sample_pg) of Ok x \<Rightarrow> True | _ \<Rightarrow> False"
    by code_simp
  then obtain x s' where run: "hosts_free sample_server (UserId 1) [HostId 3] sample_pg = (Ok x, s')"
    by (rule outcome_run_Ok)
  from free_only_own [OF run] run show ?thesis by simp
qed

text \<open>
  C14: a lease of hosts that nobody held, followed by a release of the same hosts by the same
  user, restores the book, though other calls of the server may fail in between.
\<close>

theorem lease_free_roundtrip:
  assumes lease: "hosts_lease srv svc hash now u groups is dur s = (Ok ls, s1)"
    and free: "hosts_free srv u is s1 = (Ok x, s2)" and ok: "db_ok (committed s)"
    and unheld: "\<And>i. i \<in> set is \<Longrightarrow> holder (committed s) i = None"
  shows "holder (committed s2) = holder (committed s)"
  using lease ok
proof (rule hosts_lease_cases)
  fix n until k
  assume s1: "committed s1 = assign_hosts u is (to_timestamptz until) (committed s)"
  from free have "committed s2 = clear_hosts
      (\<lambda>h. h_id h \<in> set is \<and> h_user_id h = Some u) (committed s1)"
    by (rule hosts_free_cases) auto
  with s1 unheld show ?thesis by (auto simp: book.free_for_undoes_assign)
qed blast

definition alice_free :: "(unit, HostError) outcome \<times> pg" where
  "alice_free = hosts_free sample_server (UserId 1) [HostId 1, HostId 2] (snd alice_lease)"

theorem lease_free_roundtrip_witness:
  "holder (committed (snd alice_free)) = holder sample_db"
proof -
  obtain ls s1 where lease: "alice_lease = (Ok ls, s1)"
    using alice_lease_result(1) by (rule outcome_run_Ok)
  have "fst alice_free = Ok ()" by code_simp
  then obtain s2 where free: "alice_free = (Ok (), s2)" by (metis prod.collapse)
  have none: "holder (committed sample_pg) i = None" if "i \<in> set [HostId 1, HostId 2]" for i
    using that by (auto simp: holder_def host_row_def row_holder_def sample_defs)
  have "hosts_free sample_server (UserId 1) [HostId 1, HostId 2] s1 = (Ok (), s2)"
    using free unfolding alice_free_def lease snd_conv .
  from lease_free_roundtrip [OF lease [unfolded alice_lease_def] this db_ok_sample_pg none]
  show ?thesis by (simp add: free)
qed

text \<open>
  Releasing everything is releasing by name all hosts that the listing of the user's
  leases shows: the two calls leave the same book.
\<close>

theorem free_all_is_free_of_leased:
  assumes leased: "hosts_get_leased_hosts srv u s = (Ok ls, s1)" and ok: "db_ok (committed s)"
    and all: "hosts_free_all srv u s1 = (Ok x, s2)"
    and named: "hosts_free srv u (map lh_id ls) s1 = (Ok y, s3)"
  shows "holder (committed s2) = holder (committed s3) \<and> held (committed s2) u = {}"
proof -
  have s1: "committed s1 = committed s"
    using leased unfolding hosts_get_leased_hosts_def tx_get_leased_hosts_def
    by (rule read_only_query_committed)
  obtain t0 t1 where t0: "begin_tx srv s = (Ok (), t0)" "tx_get_leased_hosts srv u t0 = (Ok ls, t1)"
    using leased unfolding hosts_get_leased_hosts_def read_only_def
    by (elim qmark_OkE) (auto simp: return_def)
  from t0(1) have w: "working t0 = committed s" by (auto elim!: begin_tx_OkE)
  with ok have ls: "set (map lh_id ls) = held (committed s) u"
    using get_leased_hosts_Ok(3) [OF t0(2)] by simp
  have s2: "committed s2 = clear_hosts (\<lambda>h. h_user_id h = Some u) (committed s)"
    using all by (rule hosts_free_all_cases) (auto simp: s1)
  have s3: "committed s3 = clear_hosts
      (\<lambda>h. h_id h \<in> set (map lh_id ls) \<and> h_user_id h = Some u) (committed s)"
    using named by (rule hosts_free_cases) (auto simp: s1)
  have "holder (committed s2) = holder (committed s3)"
    using book.free_user_is_free_for [of "committed s" u "map lh_id ls"] ls
    by (auto simp: s2 s3)
  moreover have "held (committed s2) u = {}" by (simp add: s2 book.held_by_free_user)
  ultimately show ?thesis ..
qed

theorem free_all_is_free_of_leased_witness:
  "\<exists>ls s1 s2. hosts_get_leased_hosts sample_server (UserId 1) (snd alice_lease) = (Ok ls, s1) \<and>
     hosts_free_all sample_server (UserId 1) s1 = (Ok (), s2) \<and>
     held (committed s2) (UserId 1) = {}"
proof -
  let ?u = "UserId 1"
  let ?leased = "hosts_get_leased_hosts sample_server ?u (snd alice_lease)"
  obtain hs s' where run: "alice_lease = (Ok hs, s')"
    using alice_lease_result(1) by (rule outcome_run_Ok)
  have ok: "db_ok (committed (snd alice_lease))"
    using run [unfolded alice_lease_def] db_ok_sample_pg
    by (rule hosts_lease_cases) (auto simp: run)
  have "case fst ?leased of Ok x \<Rightarrow> True | _ \<Rightarrow> False" by code_simp
  then obtain ls s1 where leased: "?leased = (Ok ls, s1)" by (rule outcome_run_Ok)
  obtain s2 where all: "hosts_free_all sample_server ?u s1 = (Ok (), s2)"
    by (simp add: hosts_free_all_def tx_free_all_def qmark_def fine_simps io_defs)
  obtain s3 where "hosts_free sample_server ?u (map lh_id ls) s1 = (Ok (), s3)"
    by (simp add: hosts_free_def tx_free_hosts_for_user_def qmark_def fine_simps io_defs)
  from free_all_is_free_of_leased [OF leased ok all this] all leased show ?thesis by blast
qed

end
