(* ===== verification/Tokens_Service.thy ===== *)
theory Tokens_Service
  imports Sample
begin

text \<open>
  \<open>ApiTokensService\<close> of \<open>src/src/logic/api_tokens.rs\<close>: creation, listing, lookup and
  revocation of API tokens. The digest of the \<open>sha2\<close> crate and the bytes drawn from the random
  number generator are parameters.
\<close>

section \<open>The interface of a store of credentials\<close>

text \<open>
  What the service needs of the table of tokens: a lookup by digest, an insertion and a
  deletion, such that in a well-formed store the lookup finds exactly the stored keys.
\<close>

locale credential_store =
  fixes find_key :: "'s \<Rightarrow> 'h \<Rightarrow> 'k option"
    and add_key :: "'k \<Rightarrow> 's \<Rightarrow> 's"
    and drop_keys :: "('k \<Rightarrow> bool) \<Rightarrow> 's \<Rightarrow> 's"
    and keys_of :: "'s \<Rightarrow> 'k set"
    and digest :: "'k \<Rightarrow> 'h"
    and ok :: "'s \<Rightarrow> bool"
  assumes find_key: "ok s \<Longrightarrow> find_key s h = Some k \<longleftrightarrow> k \<in> keys_of s \<and> digest k = h"
    and keys_add: "keys_of (add_key k s) = insert k (keys_of s)"
    and keys_drop: "keys_of (drop_keys P s) = {k \<in> keys_of s. \<not> P k}"
    and ok_add: "ok s \<Longrightarrow> digest k \<notin> digest ` keys_of s \<Longrightarrow> ok (add_key k s)"
    and ok_drop: "ok s \<Longrightarrow> ok (drop_keys P s)"
begin

lemma find_none: "ok s \<Longrightarrow> find_key s h = None \<longleftrightarrow> h \<notin> digest ` keys_of s"
proof (cases "find_key s h")
  case None
  assume "ok s"
  with None find_key [of s h] show ?thesis by auto
next
  case (Some k)
  assume "ok s"
  with Some find_key [of s h k] show ?thesis by auto
qed

lemma digest_inj: "ok s \<Longrightarrow> j \<in> keys_of s \<Longrightarrow> k \<in> keys_of s \<Longrightarrow> digest j = digest k \<Longrightarrow> j = k"
  using find_key [of s "digest k" j] find_key [of s "digest k" k] by simp

lemma find_added:
  "ok s \<Longrightarrow> digest k \<notin> digest ` keys_of s \<Longrightarrow> find_key (add_key k s) (digest k) = Some k"
  using find_key [OF ok_add] by (simp add: keys_add)

lemma find_other:
  assumes "ok s" and "digest k \<notin> digest ` keys_of s" and "h \<noteq> digest k"
  shows "find_key (add_key k s) h = find_key s h"
proof (cases "find_key s h")
  case None
  with assms have "h \<notin> digest ` keys_of (add_key k s)" by (auto simp: keys_add find_none)
  with assms None show ?thesis using find_none [OF ok_add] by simp
next
  case (Some j)
  with assms(1) find_key have "j \<in> keys_of (add_key k s)" "digest j = h" by (auto simp: keys_add)
  with assms Some show ?thesis using find_key [OF ok_add] by simp
qed

lemma find_dropped:
  assumes "ok s" and "k \<in> keys_of s" and "P k"
  shows "find_key (drop_keys P s) (digest k) = None"
proof (rule ccontr)
  assume "find_key (drop_keys P s) (digest k) \<noteq> None"
  then obtain j where "find_key (drop_keys P s) (digest k) = Some j" by blast
  then have "j \<in> keys_of s" "\<not> P j" "digest j = digest k"
    using find_key [OF ok_drop [OF assms(1)]] by (auto simp: keys_drop)
  with assms digest_inj show False by metis
qed

lemma find_kept:
  assumes "ok s" and "find_key s h = Some k" and "\<not> P k"
  shows "find_key (drop_keys P s) h = Some k"
  using assms find_key [OF ok_drop [OF assms(1)]] find_key by (auto simp: keys_drop)

end

definition find_token :: "database \<Rightarrow> string \<Rightarrow> ApiToken option" where
  "find_token d h = find (\<lambda>t. t_token_hash t = h) (api_tokens_t d)"

definition add_token :: "ApiToken \<Rightarrow> database \<Rightarrow> database" where
  "add_token k d = d\<lparr>api_tokens_t := api_tokens_t d @ [k]\<rparr>"

definition drop_tokens :: "(ApiToken \<Rightarrow> bool) \<Rightarrow> database \<Rightarrow> database" where
  "drop_tokens P d = d\<lparr>api_tokens_t := filter (\<lambda>t. \<not> P t) (api_tokens_t d)\<rparr>"

definition tokens_of :: "database \<Rightarrow> UserId \<Rightarrow> ApiToken list" where
  "tokens_of d u = filter (\<lambda>t. t_user_id t = u) (api_tokens_t d)"

interpretation tokens: credential_store find_token add_token drop_tokens
  "\<lambda>d. set (api_tokens_t d)" t_token_hash "\<lambda>d. distinct (map t_token_hash (api_tokens_t d))"
proof unfold_locales
  fix d :: database and h :: string and k :: ApiToken
  assume ok: "distinct (map t_token_hash (api_tokens_t d))"
  show "find_token d h = Some k \<longleftrightarrow> k \<in> set (api_tokens_t d) \<and> t_token_hash k = h"
    unfolding find_token_def
    using find_distinct_eq [OF ok, of k]
    by (auto simp: find_Some_iff in_set_conv_nth)
next
  fix d :: database and k :: ApiToken
  assume "distinct (map t_token_hash (api_tokens_t d))"
    "t_token_hash k \<notin> t_token_hash ` set (api_tokens_t d)"
  then show "distinct (map t_token_hash (api_tokens_t (add_token k d)))"
    by (simp add: add_token_def)
qed (auto simp: add_token_def drop_tokens_def distinct_map_filter)

section \<open>The service\<close>

datatype ApiTokenError = TokenDatabaseError sqlx_error | TokenNotFound | TokenLimitExceeded

definition ApiTokenError_to_string :: "ApiTokenError \<Rightarrow> string" where
  "ApiTokenError_to_string e =
     (case e of
        TokenDatabaseError _ \<Rightarrow> ''Database error''
      | TokenNotFound \<Rightarrow> ''Token not found''
      | TokenLimitExceeded \<Rightarrow> ''API token limit is reached'')"

record ApiTokensService = api_token_limit :: nat

record CreatedApiToken =
  ct_token :: ApiToken
  ct_plaintext :: string

type_synonym digest = "u8 list \<Rightarrow> u8 list"

type_synonym 'a tokens_call = "(pg, 'a, ApiTokenError) io"

definition as_bytes :: "string \<Rightarrow> u8 list" where
  "as_bytes s = map (\<lambda>c. of_char c) s"

definition hex :: "u8 list \<Rightarrow> string" where
  "hex bytes = concat (map hex_byte bytes)"

definition hash_token :: "digest \<Rightarrow> string \<Rightarrow> string" where
  "hash_token sha256 plaintext = hex (sha256 (as_bytes plaintext))"

definition generate_plaintext :: "u8 list \<Rightarrow> string" where
  "generate_plaintext bytes = ''tk_'' @ hex bytes"

definition token_name :: "string option \<Rightarrow> string option" where
  "token_name name =
     (case map_option trim name of
        None \<Rightarrow> None
      | Some s \<Rightarrow> (if s = [] then None else Some s))"

definition tokens_create ::
  "server \<Rightarrow> ApiTokensService \<Rightarrow> digest \<Rightarrow> u8 list \<Rightarrow> UserId \<Rightarrow> string option \<Rightarrow>
   CreatedApiToken tokens_call" where
  "tokens_create srv svc sha256 bytes user_id name =
     (let plaintext = generate_plaintext bytes;
          token_hash = hash_token sha256 plaintext;
          name = token_name name
      in qmark TokenDatabaseError (begin_tx srv) (\<lambda>_.
         qmark TokenDatabaseError (tx_list_api_tokens_for_user srv user_id) (\<lambda>existing.
         if length existing \<ge> api_token_limit svc then throw TokenLimitExceeded
         else
           qmark TokenDatabaseError (tx_create_api_token srv user_id name token_hash) (\<lambda>token.
           qmark TokenDatabaseError (commit_tx srv) (\<lambda>_.
           return \<lparr>ct_token = token, ct_plaintext = plaintext\<rparr>)))))"

definition tokens_list_for_user :: "server \<Rightarrow> UserId \<Rightarrow> ApiToken list tokens_call" where
  "tokens_list_for_user srv user_id =
     read_only srv TokenDatabaseError (tx_list_api_tokens_for_user srv user_id)"

definition tokens_find_user_id_by_plaintext ::
  "server \<Rightarrow> digest \<Rightarrow> string \<Rightarrow> UserId option tokens_call" where
  "tokens_find_user_id_by_plaintext srv sha256 plaintext =
     (let token_hash = hash_token sha256 plaintext
      in qmark TokenDatabaseError (begin_tx srv) (\<lambda>_.
         qmark TokenDatabaseError (tx_get_api_token_by_hash srv token_hash) (\<lambda>token.
         qmark TokenDatabaseError (commit_tx srv) (\<lambda>_.
         return (map_option t_user_id token)))))"

definition tokens_revoke :: "server \<Rightarrow> ApiTokenId \<Rightarrow> UserId \<Rightarrow> unit tokens_call" where
  "tokens_revoke srv token_id user_id =
     qmark TokenDatabaseError (begin_tx srv) (\<lambda>_.
     qmark TokenDatabaseError (tx_delete_api_token_for_user srv token_id user_id) (\<lambda>deleted.
     qmark TokenDatabaseError (commit_tx srv) (\<lambda>_.
     if deleted then return () else throw TokenNotFound)))"

section \<open>Text of tokens\<close>

lemma hex_char_digit: "n < 16 \<Longrightarrow> hex_char n \<in> set ''0123456789abcdef''"
proof -
  assume "n < 16"
  moreover have "\<forall>n \<in> set [0 ..< 16]. hex_char n \<in> set ''0123456789abcdef''" by code_simp
  ultimately show ?thesis by simp
qed

lemma hex_byte_digits: "set (hex_byte b) \<subseteq> set ''0123456789abcdef''"
proof -
  have "unat b < 256" using unsigned_less [of b, where 'a = nat] by simp
  then have "unat b div 16 < 16" "unat b mod 16 < 16" by auto
  then show ?thesis using hex_char_digit unfolding hex_byte_def by simp
qed

lemma hex_digits: "set (hex bs) \<subseteq> set ''0123456789abcdef''"
  using hex_byte_digits by (fastforce simp: hex_def)

lemma length_hex: "length (hex bs) = 2 * length bs"
  by (induction bs) (simp_all add: hex_def hex_byte_def)

lemma trim_plaintext: "trim (generate_plaintext bytes) = generate_plaintext bytes"
proof (rule trim_id)
  let ?S = "set ''tk_0123456789abcdef''"
  have ends: "\<forall>w \<in> set white_space. hd w \<notin> ?S \<and> last w \<notin> ?S" by code_simp
  have "set ''tk_'' \<subseteq> ?S" "set ''0123456789abcdef'' \<subseteq> ?S" by code_simp+
  then have "set (generate_plaintext bytes) \<subseteq> ?S"
    unfolding generate_plaintext_def set_append using hex_digits [of bytes] by blast
  with ends show "hd w \<notin> set (generate_plaintext bytes) \<and> last w \<notin> set (generate_plaintext bytes)"
    if "w \<in> set white_space" for w
    using that by blast
qed

section \<open>What the calls commit\<close>

lemma stmt_OkE:
  assumes "stmt srv f s = (Ok x, t)"
  obtains "f (calls s) (s\<lparr>calls := Suc (calls s)\<rparr>) = (Ok x, t)"
  using assms by (auto simp: stmt_def Let_def split: reply.splits)

lemma list_tokens_Ok:
  assumes "tx_list_api_tokens_for_user srv u s = (Ok ks, t)"
  shows "set ks = set (tokens_of (working s) u)" "length ks = length (tokens_of (working s) u)"
    "t = s\<lparr>calls := Suc (calls s)\<rparr>"
  using assms unfolding tx_list_api_tokens_for_user_def tokens_of_def
  by (auto elim!: query_OkE)

lemma create_token_Ok:
  assumes "tx_create_api_token srv u name h s = (Ok k, t)"
  shows "working t = add_token k (working s)" "committed t = committed s"
    "t_user_id k = u" "t_name k = name" "t_token_hash k = h"
    "h \<notin> t_token_hash ` set (api_tokens_t (working s))"
    "t_id k \<notin> t_id ` set (api_tokens_t (working s))" "u \<in> user_ids (working s)"
  using assms unfolding tx_create_api_token_def add_token_def
  by (auto simp: Let_def elim!: stmt_OkE split: if_splits)

lemma delete_token_Ok:
  assumes "tx_delete_api_token_for_user srv i u s = (Ok b, t)"
  shows "working t = drop_tokens (\<lambda>k. t_id k = i \<and> t_user_id k = u) (working s)"
    "committed t = committed s"
    "b \<longleftrightarrow> (\<exists>k \<in> set (api_tokens_t (working s)). t_id k = i \<and> t_user_id k = u)"
  using assms unfolding tx_delete_api_token_for_user_def drop_tokens_def
  by (auto simp: Let_def elim!: stmt_OkE)

lemma keeps_list_tokens [keeps_intros]: "keeps committed (tx_list_api_tokens_for_user srv u)"
  by (simp add: tx_list_api_tokens_for_user_def keeps_query)

lemma tokens_create_cases:
  assumes "tokens_create srv svc sha bytes u name s = (r, s')"
  obtains (failed) "committed s' = committed s" "\<And>c. r \<noteq> Ok c"
    | (created) k where "t_user_id k = u" "t_name k = token_name name"
      "t_token_hash k = hash_token sha (generate_plaintext bytes)"
      "t_token_hash k \<notin> t_token_hash ` set (api_tokens_t (committed s))"
      "t_id k \<notin> t_id ` set (api_tokens_t (committed s))" "u \<in> user_ids (committed s)"
      "length (tokens_of (committed s) u) < api_token_limit svc"
      "committed s' = add_token k (committed s)"
      "r = Err (TokenDatabaseError Io) \<or>
       r = Ok \<lparr>ct_token = k, ct_plaintext = generate_plaintext bytes\<rparr>"
proof -
  let ?d = "committed s"
  have failed: thesis if "committed s' = ?d" "r = Panic \<or> (\<exists>e. r = Err e)"
    using that by (intro failed) auto
  note step = qmark_keeps [where P = committed, consumes 1, case_names _ go stop]
  show thesis
    using assms unfolding tokens_create_def Let_def
  proof (cases rule: step)
    case (go x t0)
    then have t0: "working t0 = ?d" "committed t0 = ?d" by (auto elim!: begin_tx_OkE)
    from go(3) show ?thesis
    proof (cases rule: step)
      case (go ks t1)
      with list_tokens_Ok [OF go(1)] t0
      have t1: "working t1 = ?d" "committed t1 = ?d" "length ks = length (tokens_of ?d u)" by auto
      show ?thesis
      proof (cases "length ks \<ge> api_token_limit svc")
        case True
        with go(3) t1 show ?thesis by (auto simp: throw_def intro: failed)
      next
        case False
        with t1(3) have lt: "length (tokens_of ?d u) < api_token_limit svc" by simp
        note go(3) [simplified False if_False]
        then show ?thesis
        proof (cases rule: step)
          case (go k t2)
          note k = create_token_Ok [OF go(1), unfolded t1]
          from go(3) show ?thesis
            by (rule commit_last) (use k lt created failed in auto)
        qed (use failed t1 in \<open>auto intro: keeps_intros\<close>)
      qed
    qed (use failed t0 in \<open>auto intro: keeps_intros\<close>)
  qed (use failed in \<open>auto intro: keeps_intros\<close>)
qed

lemma tokens_revoke_cases:
  assumes "tokens_revoke srv i u s = (r, s')"
  obtains (failed) "committed s' = committed s" "\<And>x. r \<noteq> Ok x" "r \<noteq> Err TokenNotFound"
    | (revoked) "committed s' = drop_tokens (\<lambda>k. t_id k = i \<and> t_user_id k = u) (committed s)"
      "r = Err (TokenDatabaseError Io) \<or>
       r = (if \<exists>k \<in> set (api_tokens_t (committed s)). t_id k = i \<and> t_user_id k = u
            then Ok () else Err TokenNotFound)"
proof -
  let ?d = "committed s"
  have failed: thesis if "committed s' = ?d" "r = Panic \<or> (\<exists>e. r = Err (TokenDatabaseError e))"
    using that by (intro failed) auto
  note step = qmark_keeps [where P = committed, consumes 1, case_names _ go stop]
  show thesis
    using assms unfolding tokens_revoke_def
  proof (cases rule: step)
    case (go x t0)
    then have t0: "working t0 = ?d" "committed t0 = ?d" by (auto elim!: begin_tx_OkE)
    from go(3) show ?thesis
    proof (cases rule: step)
      case (go b t1)
      note b = delete_token_Ok [OF go(1), unfolded t0]
      from go(3) show ?thesis
      proof (cases rule: qmark_elim)
        case (Ok y t2)
        then have "committed s' = working t1" "r = (if b then Ok () else Err TokenNotFound)"
          by (auto simp: return_def throw_def elim!: commit_tx_cases split: if_splits)
        with b show ?thesis by (intro revoked) auto
      next
        case (Err e)
        from Err(1) show ?thesis
          by (rule commit_tx_cases) (use Err(2) b revoked failed in auto)
      qed simp
    qed (use failed t0 in \<open>auto intro: keeps_intros\<close>)
  qed (use failed in \<open>auto intro: keeps_intros\<close>)
qed

lemma tokens_find_cases:
  assumes "tokens_find_user_id_by_plaintext srv sha p s = (Ok r, s')"
  shows "r = map_option t_user_id (find_token (committed s) (hash_token sha p))"
    and "committed s' = committed s"
proof -
  obtain t0 k t1 t2 where "begin_tx srv s = (Ok (), t0)"
      "tx_get_api_token_by_hash srv (hash_token sha p) t0 = (Ok k, t1)"
      "commit_tx srv t1 = (Ok (), t2)" "r = map_option t_user_id k" "s' = t2"
    using assms unfolding tokens_find_user_id_by_plaintext_def Let_def
    by (elim qmark_OkE) (auto simp: return_def)
  then show "r = map_option t_user_id (find_token (committed s) (hash_token sha p))"
    "committed s' = committed s"
    by (auto simp: tx_get_api_token_by_hash_def find_token_def
        elim!: begin_tx_OkE query_OkE commit_tx_cases)
qed

lemma tokens_distinct: "db_ok d \<Longrightarrow> distinct (map t_token_hash (api_tokens_t d))"
  by (rule db_okD)

lemma tokens_of_add [simp]:
  "tokens_of (add_token k d) u = tokens_of d u @ (if t_user_id k = u then [k] else [])"
  by (simp add: tokens_of_def add_token_def)

lemma tokens_of_drop [simp]: "tokens_of (drop_tokens P d) u = filter (\<lambda>t. \<not> P t) (tokens_of d u)"
  by (simp add: tokens_of_def drop_tokens_def conj_commute)

end
