(* ===== verification/Tokens_Props.thy ===== *)
theory Tokens_Props
  imports Tokens_Service
begin

text \<open>
  The properties of \<open>ApiTokensService\<close>: what creation and revocation commit, and that the
  plaintext shown once is a credential of its owner exactly until it is revoked. They rest on
  the interface \<open>credential_store\<close> through its interpretation \<open>tokens\<close>.
\<close>

section \<open>Inputs of the witnesses\<close>

definition sample_tokens :: ApiTokensService where
  "sample_tokens = \<lparr>api_token_limit = 1\<rparr>"

text \<open>A stand-in for the digest that keeps the bytes, so that witnesses can be evaluated.\<close>

definition sample_sha :: digest where
  "sample_sha bytes = bytes"

definition alice_token :: "(CreatedApiToken, ApiTokenError) outcome \<times> pg" where
  "alice_token = tokens_create sample_server sample_tokens sample_sha [1, 0xab] (UserId 1)
     (Some '' ci '') sample_pg"

lemma alice_token_result:
  "case fst alice_token of
     Ok c \<Rightarrow> t_id (ct_token c) = ApiTokenId 1 \<and> t_name (ct_token c) = Some ''ci'' \<and>
       ct_plaintext c = ''tk_01ab''
   | _ \<Rightarrow> False"
  "committed (snd alice_token) \<noteq> sample_db"
  by code_simp+

lemma alice_token_stored:
  obtains c s1 where "alice_token = (Ok c, s1)" "db_ok (committed s1)"
    "ct_token c \<in> set (api_tokens_t (committed s1))" "users_t (committed s1) = [alice, bob]"
proof -
  obtain c s1 where run: "alice_token = (Ok c, s1)"
    using alice_token_result(1) by (rule outcome_run_Ok)
  obtain k where k: "ct_token c = k" "committed s1 = add_token k sample_db"
      "t_user_id k = UserId 1" "t_token_hash k \<notin> t_token_hash ` set (api_tokens_t sample_db)"
      "t_id k \<notin> t_id ` set (api_tokens_t sample_db)" "UserId 1 \<in> user_ids sample_db"
    using run [unfolded alice_token_def] by (rule tokens_create_cases) auto
  have "db_ok (committed s1)"
    unfolding k(2) add_token_def by (rule db_ok_add_token) (use k in auto)
  moreover have "ct_token c \<in> set (api_tokens_t (committed s1))"
    unfolding k(1,2) tokens.keys_add by simp
  moreover have "users_t (committed s1) = [alice, bob]"
    by (simp add: k(2) add_token_def sample_db_def)
  ultimately show thesis by (rule that [OF run])
qed

section \<open>Creation\<close>

text \<open>
  C17: creating a token commits nothing, or exactly one new row: it belongs to the caller, who
  is a known user with fewer tokens than the limit, it carries the trimmed name (none if that
  is empty) and the digest of the plaintext, which no row had before. In particular no
  creation takes a user over the limit, whatever the server does.
\<close>

theorem token_create_guarded:
  assumes "tokens_create srv svc sha bytes u name s = (r, s')"
    and "committed s' \<noteq> committed s"
  shows "\<exists>k. committed s' = add_token k (committed s) \<and> t_user_id k = u \<and>
    t_name k = token_name name \<and> t_token_hash k = hash_token sha (generate_plaintext bytes) \<and>
    u \<in> user_ids (committed s) \<and>
    t_token_hash k \<notin> t_token_hash ` set (api_tokens_t (committed s)) \<and>
    length (tokens_of (committed s') u) \<le> api_token_limit svc"
  using assms(1)
proof (rule tokens_create_cases)
  fix k
  assume "t_user_id k = u" "t_name k = token_name name" "u \<in> user_ids (committed s)"
    "t_token_hash k = hash_token sha (generate_plaintext bytes)"
    "t_token_hash k \<notin> t_token_hash ` set (api_tokens_t (committed s))"
    "length (tokens_of (committed s) u) < api_token_limit svc"
    "committed s' = add_token k (committed s)"
  then show ?thesis by (intro exI [of _ k]) simp
qed (use assms(2) in simp)

theorem token_create_guarded_witness:
  "\<exists>k. committed (snd alice_token) = add_token k sample_db \<and> t_user_id k = UserId 1 \<and>
    t_name k = token_name (Some '' ci '') \<and>
    t_token_hash k = hash_token sample_sha (generate_plaintext [1, 0xab]) \<and>
    UserId 1 \<in> user_ids sample_db \<and>
    t_token_hash k \<notin> t_token_hash ` set (api_tokens_t sample_db) \<and>
    length (tokens_of (committed (snd alice_token)) (UserId 1)) \<le> api_token_limit sample_tokens"
  using token_create_guarded [of sample_server sample_tokens sample_sha "[1, 0xab]" "UserId 1"
      "Some '' ci ''" sample_pg "fst alice_token" "snd alice_token"] alice_token_result(2)
  by (simp add: alice_token_def)

text \<open>
  The plaintext of a created token is a credential of the user it was created for, at once
  and for as long as the row is in the table: whatever has happened to the database since, a
  lookup that succeeds names that user.
\<close>

theorem token_identifies_owner:
  assumes create: "tokens_create srv svc sha bytes u name s = (Ok c, s1)"
    and present: "ct_token c \<in> set (api_tokens_t (committed s2))" and ok: "db_ok (committed s2)"
    and lookup: "tokens_find_user_id_by_plaintext srv' sha (ct_plaintext c) s2 = (Ok r, s3)"
  shows "ct_token c \<in> set (api_tokens_t (committed s1)) \<and> r = Some u"
  using create
proof (rule tokens_create_cases)
  fix k
  assume k: "t_user_id k = u" "t_token_hash k = hash_token sha (generate_plaintext bytes)"
    and s1: "committed s1 = add_token k (committed s)"
    and "Ok c = Err (TokenDatabaseError Io) \<or>
      Ok c = Ok \<lparr>ct_token = k, ct_plaintext = generate_plaintext bytes\<rparr>"
  then have c: "ct_token c = k" "ct_plaintext c = generate_plaintext bytes" by simp_all
  have "find_token (committed s2) (t_token_hash k) = Some k"
    using tokens.find_key [OF tokens_distinct [OF ok]] present c by simp
  then have "r = Some u" using tokens_find_cases(1) [OF lookup] k c by simp
  then show ?thesis using c s1 tokens.keys_add by simp
qed blast

theorem token_identifies_owner_witness:
  "\<exists>c s1 r s3. alice_token = (Ok c, s1) \<and>
     tokens_find_user_id_by_plaintext sample_server sample_sha (ct_plaintext c) s1 = (Ok r, s3) \<and>
     r = Some (UserId 1)"
proof -
  obtain c s1 where run: "alice_token = (Ok c, s1)" and ok: "db_ok (committed s1)"
      and present: "ct_token c \<in> set (api_tokens_t (committed s1))"
    by (rule alice_token_stored)
  let ?find = "tokens_find_user_id_by_plaintext sample_server sample_sha (ct_plaintext c) s1"
  obtain r s3 where find: "?find = (Ok r, s3)"
    by (simp add: tokens_find_user_id_by_plaintext_def tx_get_api_token_by_hash_def qmark_def
        fine_simps return_def Let_def)
  from token_identifies_owner [OF run [unfolded alice_token_def] present ok find] run find
  show ?thesis by blast
qed

section \<open>Revocation\<close>

text \<open>
  C18: a successful revocation kills the credential: the token was the caller's, and from then
  on a lookup of a plaintext with its digest names nobody.
\<close>

theorem token_revoked_is_dead:
  assumes revoke: "tokens_revoke srv i u s = (Ok x, s1)" and ok: "db_ok (committed s)"
    and lookup: "tokens_find_user_id_by_plaintext srv' sha plaintext s1 = (Ok r, s2)"
    and token: "k \<in> set (api_tokens_t (committed s))" "t_id k = i"
      "t_token_hash k = hash_token sha plaintext"
  shows "t_user_id k = u \<and> r = None"
  using revoke
proof (rule tokens_revoke_cases)
  let ?P = "\<lambda>k. t_id k = i \<and> t_user_id k = u"
  assume s1: "committed s1 = drop_tokens ?P (committed s)"
    and "Ok x = Err (TokenDatabaseError Io) \<or>
      Ok x = (if \<exists>k \<in> set (api_tokens_t (committed s)). ?P k then Ok () else Err TokenNotFound)"
  then obtain j where j: "j \<in> set (api_tokens_t (committed s))" "t_id j = i" "t_user_id j = u"
    by (auto split: if_splits)
  with token db_okD(5) [OF ok] have "j = k" by (metis distinct_map_unique)
  with j have P: "?P k" by simp
  have "find_token (committed s1) (t_token_hash k) = None"
    unfolding s1 using tokens_distinct [OF ok] token(1) P by (rule tokens.find_dropped)
  with P token(3) tokens_find_cases(1) [OF lookup] show ?thesis by simp
qed blast

definition token_pg :: pg where
  "token_pg = sample_pg\<lparr>committed := add_token \<lparr>t_id = ApiTokenId 1, t_user_id = UserId 1,
     t_name = None, t_token_hash = ''6b6579'', t_created_at = 0\<rparr> sample_db\<rparr>"

lemma db_ok_token_pg: "db_ok (committed token_pg)"
  unfolding token_pg_def add_token_def
  by (simp, rule db_ok_add_token, rule db_ok_sample) (simp_all add: user_ids_def sample_defs)

lemma token_pg_rows: "api_tokens_t (committed token_pg) = [\<lparr>t_id = ApiTokenId 1,
    t_user_id = UserId 1, t_name = None, t_token_hash = ''6b6579'', t_created_at = 0\<rparr>]"
  by (simp add: token_pg_def add_token_def sample_defs)

theorem token_revoked_is_dead_witness:
  "\<exists>s1 r s2. tokens_revoke sample_server (ApiTokenId 1) (UserId 1) token_pg = (Ok (), s1) \<and>
     tokens_find_user_id_by_plaintext sample_server sample_sha ''key'' s1 = (Ok r, s2) \<and>
     r = None"
proof -
  let ?revoke = "tokens_revoke sample_server (ApiTokenId 1) (UserId 1) token_pg"
  have "case fst ?revoke of Ok x \<Rightarrow> True | _ \<Rightarrow> False" by code_simp
  then obtain x s1 where revoke: "?revoke = (Ok x, s1)" by (rule outcome_run_Ok)
  obtain r s2 where find:
      "tokens_find_user_id_by_plaintext sample_server sample_sha ''key'' s1 = (Ok r, s2)"
    by (simp add: tokens_find_user_id_by_plaintext_def tx_get_api_token_by_hash_def qmark_def
        fine_simps return_def Let_def)
  have "hash_token sample_sha ''key'' = ''6b6579''" by code_simp
  with token_revoked_is_dead [OF revoke db_ok_token_pg find, of "hd (api_tokens_t (committed token_pg))"]
  have "r = None" by (simp add: token_pg_rows)
  with revoke find show ?thesis by simp
qed

text \<open>
  C19: a user revokes only his own tokens: whatever identifier a revocation names and however
  it ends, the other users keep all their tokens, and an unknown or foreign identifier changes
  nothing and is reported as not found if the server answers.
\<close>

theorem token_revoke_only_own:
  assumes "tokens_revoke srv i u s = (r, s')"
  shows "(\<forall>v. v \<noteq> u \<longrightarrow> tokens_of (committed s') v = tokens_of (committed s) v) \<and>
    (i \<notin> t_id ` set (tokens_of (committed s) u) \<longrightarrow>
       committed s' = committed s \<and> r \<noteq> Ok () \<and> (fine srv \<longrightarrow> r = Err TokenNotFound))"
proof -
  let ?P = "\<lambda>k. t_id k = i \<and> t_user_id k = u"
  have others: "filter (\<lambda>t. \<not> ?P t) (tokens_of d v) = tokens_of d v" if "v \<noteq> u" for d v
    using that by (auto simp: tokens_of_def intro!: filter_cong)
  have unknown: "drop_tokens ?P d = d \<and> \<not> (\<exists>k \<in> set (api_tokens_t d). ?P k)"
    if "i \<notin> t_id ` set (tokens_of d u)" for d
  proof -
    from that have none: "\<forall>k \<in> set (api_tokens_t d). \<not> ?P k"
      by (auto simp: tokens_of_def)
    then have "filter (\<lambda>t. \<not> ?P t) (api_tokens_t d) = api_tokens_t d" by (intro filter_True) simp
    with none show ?thesis by (simp add: drop_tokens_def)
  qed
  have answers: "r = Err TokenNotFound"
    if "fine srv" "i \<notin> t_id ` set (tokens_of (committed s) u)"
    using assms unknown [OF that(2)] that(1)
    by (auto simp: tokens_revoke_def tx_delete_api_token_for_user_def qmark_def fine_simps
        stmt_def fineD Let_def throw_def return_def split: if_splits)
  show ?thesis
    using assms
  proof (rule tokens_revoke_cases)
    assume "committed s' = committed s" "\<And>x. r \<noteq> Ok x"
    with answers show ?thesis by auto
  next
    assume "committed s' = drop_tokens ?P (committed s)" and
      r: "r = Err (TokenDatabaseError Io) \<or> r = (if \<exists>k \<in> set (api_tokens_t (committed s)). ?P k
        then Ok () else Err TokenNotFound)"
    moreover from r have "r \<noteq> Ok ()" if "i \<notin> t_id ` set (tokens_of (committed s) u)"
      using unknown [OF that] by (auto split: if_splits)
    ultimately show ?thesis using others unknown [of "committed s"] answers by auto
  qed
qed

theorem token_revoke_only_own_witness:
  "\<exists>s'. tokens_revoke sample_server (ApiTokenId 1) (UserId 2) token_pg = (Err TokenNotFound, s') \<and>
     committed s' = committed token_pg \<and>
     tokens_of (committed s') (UserId 1) = tokens_of (committed token_pg) (UserId 1)"
proof -
  obtain r s' where run: "tokens_revoke sample_server (ApiTokenId 1) (UserId 2) token_pg = (r, s')"
    by (cases "tokens_revoke sample_server (ApiTokenId 1) (UserId 2) token_pg")
  have "ApiTokenId 1 \<notin> t_id ` set (tokens_of (committed token_pg) (UserId 2))"
    by (simp add: tokens_of_def token_pg_rows)
  with token_revoke_only_own [OF run] run show ?thesis by simp
qed

end
