(* ===== verification/Users_Service.thy ===== *)
theory Users_Service
  imports Sample
begin

text \<open>
  \<open>UsersService\<close> and \<open>GroupsService\<close> (\<open>src/src/logic/users.rs\<close>, \<open>src/src/logic/groups.rs\<close>):
  linking a Telegram account by its link code, and the listings of users and groups.
\<close>

section \<open>The services\<close>

datatype UserError = UserDatabaseError sqlx_error
datatype GroupError = GroupDatabaseError sqlx_error

definition UserError_to_string :: "UserError \<Rightarrow> string" where
  "UserError_to_string e = ''Database error''"

definition GroupError_to_string :: "GroupError \<Rightarrow> string" where
  "GroupError_to_string e = ''Database error''"

definition users_link_user ::
  "server \<Rightarrow> string \<Rightarrow> string \<Rightarrow> (pg, User option, UserError) io" where
  "users_link_user srv link tg_user_id =
     qmark UserDatabaseError (begin_tx srv) (\<lambda>_.
     qmark UserDatabaseError (tx_get_user_by_link srv link) (\<lambda>found.
     case found of
       Some user \<Rightarrow>
         qmark UserDatabaseError (tx_set_user_tg_handle srv (u_id user) tg_user_id) (\<lambda>_.
         qmark UserDatabaseError (tx_get_user_by_id srv (u_id user)) (\<lambda>again.
         qmark id (unwrap again) (\<lambda>user.
         qmark UserDatabaseError (commit_tx srv) (\<lambda>_. return (Some user)))))
     | None \<Rightarrow> return None))"

definition users_get_user_by_mail ::
  "server \<Rightarrow> string \<Rightarrow> (pg, User option, UserError) io" where
  "users_get_user_by_mail srv mail =
     qmark UserDatabaseError (begin_tx srv) (\<lambda>_.
     qmark UserDatabaseError (tx_get_user_by_mail srv mail) (\<lambda>user. return user))"

definition users_get_all_users :: "server \<Rightarrow> (pg, User list, UserError) io" where
  "users_get_all_users srv =
     qmark UserDatabaseError (begin_tx srv) (\<lambda>_.
     qmark UserDatabaseError (tx_get_all_users srv) (\<lambda>users. return users))"

definition groups_get_all_groups :: "server \<Rightarrow> (pg, Group list, GroupError) io" where
  "groups_get_all_groups srv = read_only srv GroupDatabaseError (tx_get_groups srv)"

section \<open>What they commit and answer\<close>

lemma keeps_user_listings [keeps_intros]:
  "keeps committed (users_get_all_users srv)" "keeps committed (users_get_user_by_mail srv mail)"
  unfolding users_get_all_users_def users_get_user_by_mail_def tx_get_all_users_def
    tx_get_user_by_mail_def
  by (intro keeps_intros)+

lemma get_all_users_Ok:
  assumes "users_get_all_users srv s = (Ok us, t)"
  shows "set us = set (users_t (committed s))"
  using assms unfolding users_get_all_users_def tx_get_all_users_def
  by (elim qmark_OkE) (auto simp: return_def elim!: begin_tx_OkE query_OkE)

lemma get_all_users_fine [fine_simps]:
  "fine srv \<Longrightarrow> users_get_all_users srv s = (Ok (scan_users srv (Suc (calls s)) (users_t (committed s))),
     s\<lparr>calls := Suc (Suc (calls s)), working := committed s\<rparr>)"
  by (simp add: users_get_all_users_def tx_get_all_users_def qmark_def fine_simps return_def)

lemma groups_committed: "groups_get_all_groups srv s = (r, t) \<Longrightarrow> committed t = committed s"
  unfolding groups_get_all_groups_def tx_get_groups_def by (rule read_only_query_committed)

lemma get_all_groups_Ok:
  assumes "groups_get_all_groups srv s = (Ok gs, t)"
  shows "set gs = set (groups_t (committed s))"
    and "sorted (map (\<lambda>g. text_key srv (g_name g)) gs)"
  using assms unfolding groups_get_all_groups_def tx_get_groups_def read_only_def
  by (auto simp: return_def elim!: qmark_OkE begin_tx_OkE query_OkE)

lemma find_set_tg:
  "find (\<lambda>x. u_id x = u) (users_t (set_tg_handle u tg d)) =
     map_option (\<lambda>x. x\<lparr>u_tg_handle := Some tg\<rparr>) (find (\<lambda>x. u_id x = u) (users_t d))"
proof -
  have "find (\<lambda>x. u_id x = u) (map (\<lambda>x. if u_id x = u then x\<lparr>u_tg_handle := Some tg\<rparr> else x) us) =
      map_option (\<lambda>x. x\<lparr>u_tg_handle := Some tg\<rparr>) (find (\<lambda>x. u_id x = u) us)" for us
    by (induction us) auto
  then show ?thesis by (simp add: set_tg_handle_def)
qed

lemma users_no_panic:
  "query srv (\<lambda>n d. Ok (q n d)) t \<noteq> (Panic, t')" "execute srv (\<lambda>d. Ok (f d)) t \<noteq> (Panic, t')"
  by (auto simp: query_def execute_def stmt_def Let_def split: reply.splits)

lemmas link_tx_defs = tx_get_user_by_link_def tx_set_user_tg_handle_def tx_get_user_by_id_def

lemma keeps_link_tx [keeps_intros]:
  "keeps committed (tx_get_user_by_link srv link)" "keeps committed (tx_set_user_tg_handle srv u tg)"
  "keeps committed (tx_get_user_by_id srv u)"
  by (simp_all add: link_tx_defs keeps_query keeps_execute)

text \<open>The part that writes, for the row \<open>x\<close> that has been found.\<close>

lemma link_write_cases:
  assumes run: "qmark UserDatabaseError (tx_set_user_tg_handle srv (u_id x) tg) (\<lambda>_.
      qmark UserDatabaseError (tx_get_user_by_id srv (u_id x)) (\<lambda>again.
      qmark id (unwrap again) (\<lambda>user.
      qmark UserDatabaseError (commit_tx srv) (\<lambda>_. return (Some user))))) s = (r, s')"
    and s: "working s = d" "committed s = d" and ok: "db_ok d" and x: "x \<in> set (users_t d)"
  obtains (failed) e where "committed s' = d" "r = Err e"
    | (linked) "committed s' = set_tg_handle (u_id x) tg d"
        "r = Err (UserDatabaseError Io) \<or> r = Ok (Some (x\<lparr>u_tg_handle := Some tg\<rparr>))"
proof -
  let ?d' = "set_tg_handle (u_id x) tg d"
  have again: "find (\<lambda>y. u_id y = u_id x) (users_t ?d') = Some (x\<lparr>u_tg_handle := Some tg\<rparr>)"
    using find_distinct_eq [OF db_okD(1) [OF ok] x] by (simp add: find_set_tg)
  from run show thesis
  proof (cases rule: qmark_elim)
    case (Ok y t2)
    then have t2: "working t2 = ?d'" "committed t2 = d"
      using s by (auto simp: link_tx_defs elim!: execute_OkE)
    from Ok(2) show ?thesis
    proof (cases rule: qmark_elim)
      case (Ok z t3)
      then have t3: "working t3 = ?d'" "committed t3 = d" "z = Some (x\<lparr>u_tg_handle := Some tg\<rparr>)"
        using t2 again by (auto simp: link_tx_defs elim!: query_OkE)
      with Ok(2) have "qmark UserDatabaseError (commit_tx srv)
          (\<lambda>_. return (Some (x\<lparr>u_tg_handle := Some tg\<rparr>))) t3 = (r, s')"
        by (simp add: qmark_def unwrap_def)
      then show ?thesis
      proof (cases rule: qmark_elim)
        case (Ok y t4)
        with t3 show ?thesis by (intro linked) (auto simp: return_def elim!: commit_tx_cases)
      next
        case (Err e)
        from Err(1) show ?thesis
          by (rule commit_tx_cases) (use Err(2) t3 linked failed in auto)
      qed simp
    next
      case (Err e)
      with t2 keeps_link_tx keepsD show ?thesis by (intro failed) fastforce+
    qed (simp add: link_tx_defs users_no_panic)
  next
    case (Err e)
    with s keeps_link_tx keepsD show ?thesis by (intro failed) fastforce+
  qed (simp add: link_tx_defs users_no_panic)
qed

lemma link_user_cases:
  assumes "users_link_user srv link tg s = (r, s')" and ok: "db_ok (committed s)"
  obtains (failed) e where "committed s' = committed s" "r = Err e"
    | (unknown) "committed s' = committed s" "r = Ok None"
        "\<forall>x \<in> set (users_t (committed s)). u_link x \<noteq> link"
    | (linked) x where "x \<in> set (users_t (committed s))" "u_link x = link"
        "committed s' = set_tg_handle (u_id x) tg (committed s)"
        "r = Err (UserDatabaseError Io) \<or> r = Ok (Some (x\<lparr>u_tg_handle := Some tg\<rparr>))"
proof -
  let ?d = "committed s"
  show thesis
    using assms(1) unfolding users_link_user_def
  proof (cases rule: qmark_elim)
    case (Ok x t0)
    then have t0: "working t0 = ?d" "committed t0 = ?d" by (auto elim!: begin_tx_OkE)
    from Ok(2) show ?thesis
    proof (cases rule: qmark_elim)
      case (Ok found t1)
      then have t1: "working t1 = ?d" "committed t1 = ?d"
          "found = find (\<lambda>x. u_link x = link) (users_t ?d)"
        using t0 by (auto simp: link_tx_defs elim!: query_OkE)
      show ?thesis
      proof (cases found)
        case None
        with t1(3) have "\<forall>x \<in> set (users_t ?d). u_link x \<noteq> link"
          by (auto simp: find_None_iff dest!: sym [of None])
        with Ok(2) None t1 show ?thesis by (intro unknown) (auto simp: return_def)
      next
        case (Some x)
        with t1(3) have x: "x \<in> set (users_t ?d)" "u_link x = link"
          using find_SomeD [of "\<lambda>x. u_link x = link" "users_t ?d" x] by auto
        from Ok(2) [unfolded Some option.case] t1(1,2) ok x(1) show ?thesis
          by (cases rule: link_write_cases) (use x failed linked in blast)+
      qed
    next
      case (Err e)
      with t0 keeps_link_tx keepsD show ?thesis by (intro failed) fastforce+
    qed (simp add: link_tx_defs users_no_panic)
  next
    case (Err e)
    with keeps_begin_tx keepsD show ?thesis by (intro failed) fastforce+
  qed simp
qed

section \<open>Properties\<close>

text \<open>
  Linking changes at most the Telegram handle of the one user the link code belongs to. A
  successful call answers that user with the new handle and has stored it; without such a user
  nothing changes and the answer says so; the call never panics.
\<close>

theorem link_user_only_owner:
  assumes "users_link_user srv link tg s = (r, s')" and "db_ok (committed s)"
  shows "r \<noteq> Panic \<and> db_ok (committed s') \<and>
    (committed s' = committed s \<or>
     (\<exists>x \<in> set (users_t (committed s)). u_link x = link \<and>
        committed s' = set_tg_handle (u_id x) tg (committed s))) \<and>
    (\<forall>y. r = Ok (Some y) \<longrightarrow> y \<in> set (users_t (committed s')) \<and> u_link y = link \<and>
        u_tg_handle y = Some tg) \<and>
    (r = Ok None \<longrightarrow> (\<forall>x \<in> set (users_t (committed s)). u_link x \<noteq> link) \<and>
        committed s' = committed s)"
  using assms
proof (rule link_user_cases)
  fix x
  assume x: "x \<in> set (users_t (committed s))" "u_link x = link"
    and s': "committed s' = set_tg_handle (u_id x) tg (committed s)"
    and r: "r = Err (UserDatabaseError Io) \<or> r = Ok (Some (x\<lparr>u_tg_handle := Some tg\<rparr>))"
  have "x\<lparr>u_tg_handle := Some tg\<rparr> \<in> set (users_t (committed s'))"
    using x(1) unfolding s' set_tg_handle_def by (auto simp: image_iff)
  with x s' r assms(2) show ?thesis by (auto intro: db_ok_set_tg)
qed (use assms(2) in auto)

theorem link_user_only_owner_witness:
  "\<exists>y s'. users_link_user sample_server ''link-b'' ''77'' sample_pg = (Ok (Some y), s') \<and>
     u_link y = ''link-b'' \<and> u_tg_handle y = Some ''77'' \<and> db_ok (committed s')"
proof -
  have "case fst (users_link_user sample_server ''link-b'' ''77'' sample_pg) of
      Ok x \<Rightarrow> x \<noteq> None | _ \<Rightarrow> False" by code_simp
  then obtain x s' where run:
      "users_link_user sample_server ''link-b'' ''77'' sample_pg = (Ok x, s')" "x \<noteq> None"
    by (rule outcome_run_Ok)
  then obtain y where "x = Some y" by blast
  with link_user_only_owner [OF run(1) db_ok_sample_pg] run show ?thesis by auto
qed

end
