(* ===== verification/World.thy ===== *)
theory World
  imports Sample
begin

text \<open>
  The surroundings of the parts that talk to more than the database: the Telegram Bot API and
  the clock. The state is the connection to the server together with what Telegram was asked to
  do; the parameter \<open>env\<close> says what the server, the clock and Telegram answer. Errors of the
  \<open>anyhow\<close> crate are values with their chain of contexts.
\<close>

section \<open>State and surroundings\<close>

text \<open>The calls of the Bot API that the program makes; a button is a label with its data.\<close>

type_synonym button = "string \<times> string"

datatype tg_request =
    SendMessage (chat_of: i64) (text_of: string) (buttons_of: "button list list")
  | DeleteMessage i64 i32
  | AnswerCallbackQuery string
  | EditMessageText i64 i32 string

datatype delivery = Delivered | Rejected | Unconfirmed

record world =
  db :: pg
  outbox :: "tg_request list"
  tg_calls :: nat
  clock_reads :: nat

datatype anyhow_error = Sqlx sqlx_error | Telegram | Message string
  | Context string anyhow_error

record env =
  postgres :: server
  clock :: "nat \<Rightarrow> time"
  bot :: "nat \<Rightarrow> delivery"
  shown :: "anyhow_error \<Rightarrow> string"

text \<open>
  \<open>{err}\<close> on an \<open>anyhow::Error\<close> writes the outermost message; what the errors of other crates
  write is a parameter.
\<close>

definition anyhow_to_string :: "env \<Rightarrow> anyhow_error \<Rightarrow> string" where
  "anyhow_to_string env e =
     (case e of Message m \<Rightarrow> m | Context m _ \<Rightarrow> m | _ \<Rightarrow> shown env e)"

type_synonym ('z, 'a) call = "('z world_scheme, 'a, anyhow_error) io"

definition in_db :: "(pg, 'a, 'e) io \<Rightarrow> ('z world_scheme, 'a, 'e) io" where
  "in_db m w = (case m (db w) of (r, t) \<Rightarrow> (r, w\<lparr>db := t\<rparr>))"

definition utc_now :: "env \<Rightarrow> ('z world_scheme, time, 'e) io" where
  "utc_now env w = (Ok (clock env (clock_reads w)), w\<lparr>clock_reads := Suc (clock_reads w)\<rparr>)"

definition telegram :: "env \<Rightarrow> tg_request \<Rightarrow> ('z, unit) call" where
  "telegram env req w =
     (let v = w\<lparr>tg_calls := Suc (tg_calls w)\<rparr>
      in case bot env (tg_calls w) of
           Delivered \<Rightarrow> (Ok (), v\<lparr>outbox := outbox w @ [req]\<rparr>)
         | Rejected \<Rightarrow> (Err Telegram, v)
         | Unconfirmed \<Rightarrow> (Err Telegram, v\<lparr>outbox := outbox w @ [req]\<rparr>))"

section \<open>Rules\<close>

abbreviation stored :: "'z world_scheme \<Rightarrow> database" where
  "stored w \<equiv> committed (db w)"

lemma in_db_run: "m (db w) = (r, t) \<Longrightarrow> in_db m w = (r, w\<lparr>db := t\<rparr>)"
  by (simp add: in_db_def)

lemma in_dbE:
  assumes "in_db m w = (r, w')"
  obtains t where "m (db w) = (r, t)" "w' = w\<lparr>db := t\<rparr>"
  using assms by (auto simp: in_db_def split: prod.splits)

lemma keeps_in_db [keeps_intros]: "keeps committed m \<Longrightarrow> keeps stored (in_db m)"
  by (intro keepsI) (auto elim!: in_dbE dest: keepsD)

lemma keeps_utc_now [keeps_intros]: "keeps stored (utc_now env)" "keeps db (utc_now env)"
  by (auto intro!: keepsI simp: utc_now_def)

lemma keeps_telegram [keeps_intros]: "keeps stored (telegram env req)" "keeps db (telegram env req)"
  by (auto intro!: keepsI simp: telegram_def Let_def split: delivery.splits)

lemma keeps_in_db_outbox [keeps_intros]: "keeps outbox (in_db m)" "keeps tg_calls (in_db m)"
  by (auto intro!: keepsI elim!: in_dbE)

lemma keeps_utc_now_outbox [keeps_intros]: "keeps outbox (utc_now env)" "keeps tg_calls (utc_now env)"
  by (auto intro!: keepsI simp: utc_now_def)

lemma keeps_db_stored: "keeps db m \<Longrightarrow> keeps stored m"
  by (auto simp: keeps_def)

text \<open>Telegram always delivers.\<close>

definition delivers :: "env \<Rightarrow> bool" where
  "delivers env \<longleftrightarrow> (\<forall>n. bot env n = Delivered)"

lemma telegram_delivers [fine_simps]:
  "delivers env \<Longrightarrow> telegram env req w =
     (Ok (), w\<lparr>tg_calls := Suc (tg_calls w), outbox := outbox w @ [req]\<rparr>)"
  by (simp add: telegram_def delivers_def Let_def)

lemma telegram_cases:
  assumes "telegram env req w = (r, w')"
  obtains "r = Ok ()" "outbox w' = outbox w @ [req]" "db w' = db w"
    | "r = Err Telegram" "outbox w' = outbox w \<or> outbox w' = outbox w @ [req]" "db w' = db w"
  using assms by (auto simp: telegram_def Let_def split: delivery.splits)

section \<open>Inputs of the witnesses\<close>

definition sample_env :: env where
  "sample_env = \<lparr>postgres = sample_server, clock = (\<lambda>n. 0), bot = (\<lambda>n. Delivered), shown = (\<lambda>e. ''error'')\<rparr>"

definition sample_world :: "pg \<Rightarrow> world" where
  "sample_world s = \<lparr>db = s, outbox = [], tg_calls = 0, clock_reads = 0\<rparr>"

lemma sample_env_simps [simp]:
  "postgres sample_env = sample_server" "clock sample_env n = 0" "delivers sample_env"
  "db (sample_world s) = s" "outbox (sample_world s) = []"
  by (simp_all add: sample_env_def sample_world_def delivers_def)

end
