(* ===== verification/Notifications.thy ===== *)
theory Notifications
  imports World
begin

text \<open>
  \<open>src/src/logic/notifications.rs\<close> and \<open>src/src/logic/message_senders.rs\<close>: the notifier and the
  two senders of messages. A sender is a record of its two methods; the trait
  \<open>GetMessageSender\<close> is a function from users to senders, and what the notifier needs of it is
  the locale \<open>message_gateway\<close>.
\<close>

section \<open>Senders\<close>

definition EXTEND_CALLBACK_PREFIX :: string where
  "EXTEND_CALLBACK_PREFIX = ''extend:''"

datatype Notification = HostsReleased "HostId list" | ExpirationSoon "HostId list"

record 'w send_message =
  send_text :: "string \<Rightarrow> ('w, unit, anyhow_error) io"
  send_buttons :: "string \<Rightarrow> button list list \<Rightarrow> ('w, unit, anyhow_error) io"

type_synonym 'z get_message_sender = "User \<Rightarrow> anyhow_error + 'z world_scheme send_message"

text \<open>The default method of the trait drops the buttons.\<close>

definition default_send_buttons ::
  "(string \<Rightarrow> ('w, unit, anyhow_error) io) \<Rightarrow> string \<Rightarrow> button list list \<Rightarrow>
   ('w, unit, anyhow_error) io" where
  "default_send_buttons send msg buttons = send msg"

definition DisabledMessageSender :: "'w send_message" where
  "DisabledMessageSender =
     \<lparr>send_text = (\<lambda>_. panic), send_buttons = default_send_buttons (\<lambda>_. panic)\<rparr>"

definition disabled_get_message_sender :: "'z get_message_sender" where
  "disabled_get_message_sender user = Inl (Message ''Message sending disabled'')"

definition TgUser :: "env \<Rightarrow> i64 \<Rightarrow> 'z world_scheme send_message" where
  "TgUser env chat_id =
     \<lparr>send_text = (\<lambda>msg. telegram env (SendMessage chat_id msg [])),
      send_buttons = (\<lambda>msg buttons. telegram env (SendMessage chat_id msg buttons))\<rparr>"

definition debug_UserId :: "UserId \<Rightarrow> string" where
  "debug_UserId u = ''UserId('' @ show_i32 (user_raw u) @ '')''"

definition tg_get_message_sender :: "env \<Rightarrow> 'z get_message_sender" where
  "tg_get_message_sender env user =
     (case u_tg_handle user of
        None \<Rightarrow> Inl (Message (''User ('' @ debug_UserId (u_id user) @ '') tg_handle is None''))
      | Some tg_handle \<Rightarrow>
          (case parse_i64 tg_handle of
             None \<Rightarrow> Inl (Message (''Failed parse chat_id from '' @ tg_handle))
           | Some chat_id \<Rightarrow> Inr (TgUser env chat_id)))"

section \<open>The notifier\<close>

definition host_line :: "nat \<Rightarrow> Host \<Rightarrow> string" where
  "host_line idx host = [CHR 0x0A] @ show_nat (Suc idx) @ ''. '' @ h_hostname host @ '' ('' @
     show_ip (net_ip (h_ip_address host)) @ '')''"

definition released_message :: "Host list \<Rightarrow> string" where
  "released_message hosts =
     ''Hosts released:'' @ concat (map (\<lambda>(idx, host). host_line idx host) (enumerate 0 hosts))"

text \<open>The lines of the warning; each reads the clock, after the \<open>unwrap\<close> of the lease end.\<close>

definition minutes_left :: "timestamptz \<Rightarrow> time \<Rightarrow> string" where
  "minutes_left until now =
     '' - '' @ show_int (num_minutes (of_timestamptz until - now)) @ '' minutes left''"

fun expiring_lines :: "env \<Rightarrow> nat \<Rightarrow> Host list \<Rightarrow> ('z, string) call" where
  "expiring_lines env idx [] = return []"
| "expiring_lines env idx (host # hosts) =
     qmark id (unwrap (h_leased_until host)) (\<lambda>until.
     qmark id (utc_now env) (\<lambda>now.
     qmark id (expiring_lines env (Suc idx) hosts) (\<lambda>rest.
     return (host_line idx host @ minutes_left until now @ rest))))"

definition extend_buttons :: "button list list" where
  "extend_buttons = [[(''+1h'', EXTEND_CALLBACK_PREFIX @ ''1''),
     (''+8h'', EXTEND_CALLBACK_PREFIX @ ''8''), (''+1d'', EXTEND_CALLBACK_PREFIX @ ''24'')]]"

definition notify ::
  "env \<Rightarrow> 'z get_message_sender \<Rightarrow> UserId \<Rightarrow> Notification \<Rightarrow> ('z, unit) call" where
  "notify env get_message_sender user_id notification =
     qmark (\<lambda>e. Context ''Failed to begin transaction'' (Sqlx e)) (in_db (begin_tx (postgres env))) (\<lambda>_.
     qmark (\<lambda>e. Context (''Failed to read user '' @ debug_UserId user_id) (Sqlx e))
       (in_db (tx_get_user_by_id (postgres env) user_id)) (\<lambda>found.
     case found of
       None \<Rightarrow> throw (Message (''User ('' @ debug_UserId user_id @ '') doesn't exist''))
     | Some user \<Rightarrow>
         (case get_message_sender user of
            Inl e \<Rightarrow> throw e
          | Inr msg_sender \<Rightarrow>
              (case notification of
                 HostsReleased hosts_ids \<Rightarrow>
                   if hosts_ids = [] then return ()
                   else
                     qmark Sqlx (in_db (tx_get_hosts (postgres env) hosts_ids)) (\<lambda>hosts.
                     qmark id (send_text msg_sender (released_message hosts)) (\<lambda>_. return ()))
               | ExpirationSoon hosts_ids \<Rightarrow>
                   if hosts_ids = [] then return ()
                   else
                     qmark Sqlx (in_db (tx_get_hosts (postgres env) hosts_ids)) (\<lambda>hosts.
                     qmark id (expiring_lines env 0 hosts) (\<lambda>lines.
                     qmark id (send_buttons msg_sender (''Hosts expiring soon:'' @ lines)
                       extend_buttons) (\<lambda>_. return ())))))))"

section \<open>The interface of a gateway\<close>

text \<open>
  What the notifier relies on: a sender it gets leaves the database alone and does not panic.
\<close>

locale message_gateway =
  fixes get_sender :: "'z get_message_sender"
  assumes text_keeps_db: "get_sender u = Inr s \<Longrightarrow> keeps db (send_text s m)"
    and buttons_keep_db: "get_sender u = Inr s \<Longrightarrow> keeps db (send_buttons s m bs)"
    and text_no_panic: "get_sender u = Inr s \<Longrightarrow> send_text s m w \<noteq> (Panic, w')"
    and buttons_no_panic: "get_sender u = Inr s \<Longrightarrow> send_buttons s m bs w \<noteq> (Panic, w')"
begin

lemma keeps_expiring_lines: "keeps stored (expiring_lines env i hs)"
  by (induction hs arbitrary: i) (auto intro!: keeps_intros)

lemma notify_keeps_stored: "keeps stored (notify env get_sender u notif)"
  unfolding notify_def tx_get_user_by_id_def tx_get_hosts_def
  by (intro keeps_intros)
    (auto split: option.split sum.split Notification.split
      intro!: keeps_intros keeps_expiring_lines keeps_db_stored [OF text_keeps_db]
        keeps_db_stored [OF buttons_keep_db])

end

interpretation tg: message_gateway "tg_get_message_sender env"
  by unfold_locales
    (auto simp: tg_get_message_sender_def TgUser_def split: option.splits
      intro!: keeps_intros elim: telegram_cases)

interpretation disabled: message_gateway disabled_get_message_sender
  by unfold_locales (simp_all add: disabled_get_message_sender_def)

section \<open>What a notification does\<close>

lemma expiring_lines_panic:
  "\<exists>h \<in> set hs. h_leased_until h = None \<Longrightarrow> \<exists>w'. expiring_lines env i hs w = (Panic, w') \<and> outbox w' = outbox w"
proof (induction hs arbitrary: i w)
  case (Cons h hs)
  show ?case
  proof (cases "h_leased_until h")
    case (Some t)
    let ?w = "w\<lparr>clock_reads := Suc (clock_reads w)\<rparr>"
    from Some Cons.prems have "\<exists>h \<in> set hs. h_leased_until h = None" by auto
    from Cons.IH [OF this, of "Suc i" ?w] Some show ?thesis
      by (auto simp: qmark_def unwrap_def utc_now_def)
  qed (simp add: qmark_def unwrap_def)
qed simp

lemma expiring_lines_Ok:
  "\<forall>h \<in> set hs. h_leased_until h \<noteq> None \<Longrightarrow>
   \<exists>text w'. expiring_lines env i hs w = (Ok text, w') \<and> outbox w' = outbox w \<and>
     tg_calls w' = tg_calls w"
proof (induction hs arbitrary: i w)
  case (Cons h hs)
  then obtain t where t: "h_leased_until h = Some t" by auto
  let ?w = "w\<lparr>clock_reads := Suc (clock_reads w)\<rparr>"
  from Cons.prems have "\<forall>h \<in> set hs. h_leased_until h \<noteq> None" by simp
  from Cons.IH [OF this, of "Suc i" ?w] t show ?case
    by (auto simp: qmark_def unwrap_def utc_now_def return_def)
qed (simp add: return_def)

lemma keeps_outbox_lines [keeps_intros]: "keeps outbox (expiring_lines env i hs)"
  by (induction hs arbitrary: i) (auto intro!: keeps_intros)

definition chat_of_user :: "User \<Rightarrow> i64 option" where
  "chat_of_user x = Option.bind (u_tg_handle x) parse_i64"

lemma tg_sender_Inr:
  "tg_get_message_sender env x = Inr s \<longleftrightarrow> (\<exists>c. chat_of_user x = Some c \<and> s = TgUser env c)"
  by (auto simp: tg_get_message_sender_def chat_of_user_def split: option.splits)

lemma tg_sender: "chat_of_user x = Some c \<Longrightarrow> tg_get_message_sender env x = Inr (TgUser env c)"
  by (simp add: tg_sender_Inr)

lemma send_outbox:
  assumes "send_text (TgUser env c) m w = (r, w') \<or> send_buttons (TgUser env c) m bs w = (r, w')"
  shows "outbox w' = outbox w \<or> (\<exists>text bs. outbox w' = outbox w @ [SendMessage c text bs])"
  using assms by (auto simp: TgUser_def elim!: telegram_cases)

text \<open>One query and one message: the outbox grows by at most that message.\<close>

lemma send_tail:
  assumes "qmark from m (\<lambda>a. qmark id (send a) (\<lambda>_. return ())) w = (r, w')"
    and "keeps outbox m"
    and "\<And>a t r' t'. send a t = (r', t') \<Longrightarrow>
      outbox t' = outbox t \<or> (\<exists>text bs. outbox t' = outbox t @ [SendMessage c text bs])"
  shows "outbox w' = outbox w \<or> (\<exists>text bs. outbox w' = outbox w @ [SendMessage c text bs])"
  using assms(1,2)
proof (cases rule: qmark_keeps [where P = outbox, consumes 1, case_names _ go stop])
  case (go a t)
  from go(3) show ?thesis
    by (rule qmark_elim) (use go(2) assms(3) in \<open>fastforce simp: return_def\<close>)+
qed auto

end
