(* ===== verification/Release.thy ===== *)
theory Release
  imports Notifications
begin

text \<open>
  \<open>src/src/logic/release.rs\<close>: the timer that frees expired hosts, tells their former holders
  and warns the holders of hosts that expire soon, with its memory of the warnings already sent.
  A \<open>HashMap\<close> is an association list with distinct keys and a \<open>HashSet\<close> a list without
  duplicates; the order in which either is iterated is a parameter.
\<close>

section \<open>State\<close>

definition EXPIRATION_NOTIFY_WINDOW :: duration where
  "EXPIRATION_NOTIFY_WINDOW = 30 * minute"

type_synonym hosts_by_user = "(UserId \<times> HostId list) list"

record timer = world +
  sent_hosts_notification :: hosts_by_user

record hash_order =
  user_order :: "UserId \<Rightarrow> nat"
  host_order :: "HostId \<Rightarrow> nat"

text \<open>\<open>map.entry(user).or_default().insert(host)\<close>, and the same with a vector and \<open>push\<close>.\<close>

definition group_insert :: "hosts_by_user \<Rightarrow> LeasedHost \<Rightarrow> hosts_by_user" where
  "group_insert m host =
     map_default (u_id (lh_user host)) [lh_id host] (List.insert (lh_id host)) m"

definition group_push :: "hosts_by_user \<Rightarrow> LeasedHost \<Rightarrow> hosts_by_user" where
  "group_push m host = map_default (u_id (lh_user host)) [lh_id host] (\<lambda>v. v @ [lh_id host]) m"

definition forget_released :: "hosts_by_user \<Rightarrow> UserId \<times> HostId list \<Rightarrow> hosts_by_user" where
  "forget_released m p = AList.map_entry (fst p) (filter (\<lambda>i. i \<notin> set (snd p))) m"

definition update_sent ::
  "(hosts_by_user \<Rightarrow> hosts_by_user) \<Rightarrow> ('z timer_scheme, unit, 'e) io" where
  "update_sent f w =
     (Ok (), w\<lparr>sent_hosts_notification := f (sent_hosts_notification w)\<rparr>)"

section \<open>The timer\<close>

definition release_expired :: "env \<Rightarrow> ('z timer_scheme, LeasedHost list, anyhow_error) io" where
  "release_expired env =
     qmark Sqlx (in_db (begin_tx (postgres env))) (\<lambda>_.
     qmark id (utc_now env) (\<lambda>now.
     qmark Sqlx (in_db (tx_get_leased_until_hosts (postgres env) now)) (\<lambda>expired_hosts.
     let users_hosts = foldl group_insert [] expired_hosts
     in qmark id
          (if expired_hosts \<noteq> []
           then qmark Sqlx (in_db (tx_free_hosts (postgres env) (map lh_id expired_hosts))) (\<lambda>_.
                qmark Sqlx (in_db (commit_tx (postgres env))) (\<lambda>_. return ()))
           else return ()) (\<lambda>_.
        qmark id (update_sent (\<lambda>sent. foldl forget_released sent users_hosts)) (\<lambda>_.
        return expired_hosts)))))"

fun notify_each_released ::
  "env \<Rightarrow> 'z get_message_sender \<Rightarrow> hosts_by_user \<Rightarrow> ('z, unit) call" where
  "notify_each_released env gw [] = return ()"
| "notify_each_released env gw ((user_id, hosts_ids) # rest) =
     handle (notify env gw user_id (HostsReleased hosts_ids))
       (\<lambda>_. notify_each_released env gw rest)"

definition notify_released_hosts ::
  "env \<Rightarrow> 'z get_message_sender \<Rightarrow> hash_order \<Rightarrow> LeasedHost list \<Rightarrow> ('z, unit) call" where
  "notify_released_hosts env gw ord released_hosts =
     notify_each_released env gw
       (sort_key (\<lambda>p. user_order ord (fst p)) (foldl group_push [] released_hosts))"

text \<open>
  The memory of warnings: entries of hosts that no longer expire soon are dropped, and users
  without entries with them.
\<close>

definition retain_expiring :: "HostId set \<Rightarrow> hosts_by_user \<Rightarrow> hosts_by_user" where
  "retain_expiring all_expiring_ids m =
     filter (\<lambda>p. snd p \<noteq> [])
       (map (\<lambda>p. (fst p, filter (\<lambda>i. i \<in> all_expiring_ids) (snd p))) m)"

definition sent_for :: "hosts_by_user \<Rightarrow> UserId \<Rightarrow> HostId list" where
  "sent_for m u = (case map_of m u of None \<Rightarrow> [] | Some is \<Rightarrow> is)"

definition record_sent :: "UserId \<Rightarrow> HostId list \<Rightarrow> hosts_by_user \<Rightarrow> hosts_by_user" where
  "record_sent u is m = AList.map_entry u (\<lambda>v. fold List.insert is v) m"

fun warn_each ::
  "env \<Rightarrow> ('z timer_ext) get_message_sender \<Rightarrow> hash_order \<Rightarrow> hosts_by_user \<Rightarrow>
   ('z timer_scheme, unit, anyhow_error) io" where
  "warn_each env gw ord [] = return ()"
| "warn_each env gw ord ((user_id, hosts_ids) # rest) =
     qmark id (update_sent (map_default user_id [] id)) (\<lambda>_.
     (\<lambda>w. let sent = sent_for (sent_hosts_notification w) user_id;
              hosts_ids = sort_key (host_order ord) (filter (\<lambda>i. i \<notin> set sent) hosts_ids)
          in if hosts_ids = [] then warn_each env gw ord rest w
             else handle (notify env gw user_id (ExpirationSoon hosts_ids))
               (\<lambda>res. case res of
                  Inl err \<Rightarrow> warn_each env gw ord rest
                | Inr _ \<Rightarrow> qmark id (update_sent (record_sent user_id hosts_ids))
                    (\<lambda>_. warn_each env gw ord rest)) w))"

definition notify_soon_release ::
  "env \<Rightarrow> ('z timer_ext) get_message_sender \<Rightarrow> hash_order \<Rightarrow>
   ('z timer_scheme, unit, anyhow_error) io" where
  "notify_soon_release env gw ord =
     qmark Sqlx (in_db (begin_tx (postgres env))) (\<lambda>_.
     qmark id (utc_now env) (\<lambda>now.
     qmark id (unwrap (date_add now EXPIRATION_NOTIFY_WINDOW)) (\<lambda>next_expiration_date.
     qmark Sqlx (in_db (tx_get_leased_until_hosts (postgres env) next_expiration_date)) (\<lambda>expire_soon.
     let notifications = foldl group_insert [] expire_soon;
         all_expiring_ids = set (concat (map snd notifications))
     in qmark id (update_sent (retain_expiring all_expiring_ids)) (\<lambda>_.
        warn_each env gw ord (sort_key (\<lambda>p. user_order ord (fst p)) notifications))))))"

text \<open>One round of the loop, and \<open>n\<close> rounds; the loop itself ends only in a panic.\<close>

definition timer_round ::
  "env \<Rightarrow> ('z timer_ext) get_message_sender option \<Rightarrow> hash_order \<Rightarrow>
   ('z timer_scheme, unit, anyhow_error) io" where
  "timer_round env notifier ord =
     handle (release_expired env) (\<lambda>released.
     handle (case released of
         Inl err \<Rightarrow> return ()
       | Inr released_hosts \<Rightarrow>
           (case notifier of
              Some gw \<Rightarrow> if released_hosts \<noteq> [] then notify_released_hosts env gw ord released_hosts
                         else return ()
            | None \<Rightarrow> return ())) (\<lambda>_.
     case notifier of
       Some gw \<Rightarrow> handle (notify_soon_release env gw ord) (\<lambda>_. return ())
     | None \<Rightarrow> return ()))"

fun hosts_release_timer ::
  "nat \<Rightarrow> env \<Rightarrow> ('z timer_ext) get_message_sender option \<Rightarrow> hash_order \<Rightarrow>
   ('z timer_scheme, unit, anyhow_error) io" where
  "hosts_release_timer 0 env notifier ord = return ()"
| "hosts_release_timer (Suc n) env notifier ord =
     qmark id (timer_round env notifier ord) (\<lambda>_. hosts_release_timer n env notifier ord)"

end
