(* ===== verification/Notifications_Props.thy ===== *)
theory Notifications_Props
  imports Notifications
begin

text \<open>
  The properties of the notifier with the Telegram gateway: whom it writes to, what it writes,
  and when it panics.
\<close>

text \<open>What is sent for a notification, once the sender of the user is known.\<close>

lemma message_outbox:
  assumes "(case notif of
      HostsReleased ids \<Rightarrow>
        if ids = [] then return ()
        else qmark Sqlx (in_db (tx_get_hosts (postgres env) ids)) (\<lambda>hosts.
          qmark id (send_text (TgUser env c) (released_message hosts)) (\<lambda>_. return ()))
    | ExpirationSoon ids \<Rightarrow>
        if ids = [] then return ()
        else qmark Sqlx (in_db (tx_get_hosts (postgres env) ids)) (\<lambda>hosts.
          qmark id (expiring_lines env 0 hosts) (\<lambda>lines.
          qmark id (send_buttons (TgUser env c) (''Hosts expiring soon:'' @ lines) extend_buttons)
            (\<lambda>_. return ())))) t = (r, w')"
  shows "outbox w' = outbox t \<or> (\<exists>text bs. outbox w' = outbox t @ [SendMessage c text bs])"
proof (cases notif)
  case (HostsReleased ids)
  show ?thesis
  proof (cases "ids = []")
    case False
    from assms have "qmark Sqlx (in_db (tx_get_hosts (postgres env) ids)) (\<lambda>hosts.
        qmark id (send_text (TgUser env c) (released_message hosts)) (\<lambda>_. return ())) t = (r, w')"
      by (simp add: HostsReleased False)
    then show ?thesis by (rule send_tail) (auto intro: keeps_intros dest: send_outbox [OF disjI1])
  qed (use assms HostsReleased in \<open>simp add: return_def\<close>)
next
  case (ExpirationSoon ids)
  show ?thesis
  proof (cases "ids = []")
    case False
    from assms have "qmark Sqlx (in_db (tx_get_hosts (postgres env) ids)) (\<lambda>hosts.
        qmark id (expiring_lines env 0 hosts) (\<lambda>lines.
        qmark id (send_buttons (TgUser env c) (''Hosts expiring soon:'' @ lines) extend_buttons)
          (\<lambda>_. return ()))) t = (r, w')"
      by (simp add: ExpirationSoon False)
    then show ?thesis
    proof (cases rule: qmark_keeps [where P = outbox, consumes 1, case_names _ go stop])
      case (go hosts t2)
      from go(3) have "outbox w' = outbox t2 \<or>
          (\<exists>text bs. outbox w' = outbox t2 @ [SendMessage c text bs])"
        by (rule send_tail) (auto intro: keeps_intros dest: send_outbox [OF disjI2])
      with go(2) show ?thesis by simp
    qed (auto intro: keeps_intros)
  qed (use assms ExpirationSoon in \<open>simp add: return_def\<close>)
qed

text \<open>
  C22: a notification never changes the database, and whatever the server and Telegram answer it
  writes at most one message, to the chat of the user it is for: no other chat hears of it.
\<close>

theorem notify_only_addressee:
  assumes "notify env (tg_get_message_sender env) u notif w = (r, w')"
  shows "stored w' = stored w \<and>
    (outbox w' = outbox w \<or>
     (\<exists>x c text bs. x \<in> set (users_t (stored w)) \<and> u_id x = u \<and> chat_of_user x = Some c \<and>
        outbox w' = outbox w @ [SendMessage c text bs]))"
proof
  show "stored w' = stored w" using tg.notify_keeps_stored assms by (rule keepsD)
next
  let ?goal = "outbox w' = outbox w \<or> (\<exists>x c text bs. x \<in> set (users_t (stored w)) \<and> u_id x = u \<and>
      chat_of_user x = Some c \<and> outbox w' = outbox w @ [SendMessage c text bs])"
  note step = qmark_keeps [where P = outbox, consumes 1, case_names _ go stop]
  show ?goal
    using assms unfolding notify_def
  proof (cases rule: step)
    case (go a t0)
    from go(1) have d0: "working (db t0) = stored w" by (auto elim!: in_dbE begin_tx_OkE)
    from go(3) show ?thesis
    proof (cases rule: step)
      case (go found t1)
      from go(1) d0 have found: "found = find (\<lambda>x. u_id x = u) (users_t (stored w))"
        by (auto simp: tx_get_user_by_id_def elim!: in_dbE query_OkE)
      show ?thesis
      proof (cases "\<exists>x c. found = Some x \<and> chat_of_user x = Some c")
        case False
        with go \<open>outbox t0 = outbox w\<close> show ?thesis
          by (cases found) (auto simp: throw_def tg_get_message_sender_def chat_of_user_def
              split: option.splits sum.splits)
      next
        case True
        then obtain x c where x: "found = Some x" "chat_of_user x = Some c" by blast
        have user: "x \<in> set (users_t (stored w))" "u_id x = u"
          using find_SomeD [of "\<lambda>x. u_id x = u" "users_t (stored w)" x] found x(1) by auto
        have "outbox w' = outbox t1 \<or> (\<exists>text bs. outbox w' = outbox t1 @ [SendMessage c text bs])"
          by (rule message_outbox [where notif = notif and env = env and c = c and t = t1])
            (use go(3) in \<open>simp only: x(1) option.case tg_sender [OF x(2)] sum.case\<close>)
        with go(2) \<open>outbox t0 = outbox w\<close> user x(2) show ?thesis by auto
      qed
    qed (use go(2) in \<open>auto intro: keeps_intros\<close>)
  qed (auto intro: keeps_intros)
qed

theorem notify_only_addressee_witness:
  "\<exists>w'. notify sample_env (tg_get_message_sender sample_env) (UserId 1) (HostsReleased [HostId 3])
       (sample_world sample_pg) = (Ok (), w') \<and> stored w' = sample_db \<and>
     (\<exists>x c text bs. x \<in> set (users_t sample_db) \<and> u_id x = UserId 1 \<and> chat_of_user x = Some c \<and>
        outbox w' = [SendMessage c text bs])"
proof -
  let ?run = "notify sample_env (tg_get_message_sender sample_env) (UserId 1)
      (HostsReleased [HostId 3]) (sample_world sample_pg)"
  have "case fst ?run of Ok x \<Rightarrow> outbox (snd ?run) \<noteq> [] | _ \<Rightarrow> False" by code_simp
  then obtain x w' where "?run = (Ok x, w')" "outbox (snd ?run) \<noteq> []" by (rule outcome_run_Ok)
  with notify_only_addressee [OF \<open>?run = (Ok x, w')\<close>] show ?thesis by simp
qed

text \<open>
  On a server that answers and with Telegram delivering, a known user with a numeric handle
  gets the message about released hosts: it numbers exactly the existing ones among them.
\<close>

theorem notify_released_delivers:
  assumes "fine (postgres env)" "delivers env" and ok: "db_ok (stored w)"
    and x: "x \<in> set (users_t (stored w))" "u_id x = u" "chat_of_user x = Some c" and "ids \<noteq> []"
  shows "\<exists>hosts w'. notify env (tg_get_message_sender env) u (HostsReleased ids) w = (Ok (), w') \<and>
    outbox w' = outbox w @ [SendMessage c (released_message hosts) []] \<and>
    set hosts = {h \<in> set (hosts_t (stored w)). h_id h \<in> set ids} \<and> distinct (map h_id hosts)"
proof -
  have "find (\<lambda>y. u_id y = u) (users_t (stored w)) = Some x"
    using find_distinct_eq [OF db_okD(1) [OF ok] x(1)] x(2) by simp
  moreover have "distinct (map h_id (filter (\<lambda>h. h_id h \<in> set ids) (hosts_t (stored w))))"
    using db_okD(2) [OF ok] by (simp add: distinct_map_filter)
  ultimately show ?thesis
    using assms by (auto simp: notify_def qmark_def in_db_def tx_get_user_by_id_def tx_get_hosts_def
        fine_simps return_def tg_sender [OF x(3)] TgUser_def scan_hosts_def)
qed

theorem notify_released_delivers_witness:
  "\<exists>hosts w'. notify sample_env (tg_get_message_sender sample_env) (UserId 1)
      (HostsReleased [HostId 3]) (sample_world sample_pg) = (Ok (), w') \<and>
    outbox w' = [SendMessage 42 (released_message hosts) []] \<and>
    set hosts = {h \<in> set (hosts_t sample_db). h_id h \<in> set [HostId 3]} \<and> distinct (map h_id hosts)"
proof -
  have "alice \<in> set (users_t (stored (sample_world sample_pg)))" "u_id alice = UserId 1"
    by (simp_all add: sample_db_def alice_def)
  moreover have "chat_of_user alice = Some 42" by code_simp
  ultimately show ?thesis
    using notify_released_delivers [of sample_env "sample_world sample_pg" alice "UserId 1" 42
        "[HostId 3]"] by simp
qed

text \<open>The warning, on a server that answers and with Telegram delivering.\<close>

lemma notify_expiring_run:
  assumes "fine (postgres env)" "delivers env" and ok: "db_ok (stored w)"
    and x: "x \<in> set (users_t (stored w))" "u_id x = u" "chat_of_user x = Some c" and "ids \<noteq> []"
  shows "\<exists>h \<in> set (hosts_t (stored w)). h_id h \<in> set ids \<and> h_leased_until h = None \<Longrightarrow>
      fst (notify env (tg_get_message_sender env) u (ExpirationSoon ids) w) = Panic"
    and "\<forall>h \<in> set (hosts_t (stored w)). h_id h \<in> set ids \<longrightarrow> h_leased_until h \<noteq> None \<Longrightarrow>
      \<exists>text w'. notify env (tg_get_message_sender env) u (ExpirationSoon ids) w = (Ok (), w') \<and>
        outbox w' = outbox w @ [SendMessage c text extend_buttons]"
proof -
  let ?hosts = "\<lambda>n. scan_hosts (postgres env) n (filter (\<lambda>h. h_id h \<in> set ids) (hosts_t (stored w)))"
  have user: "find (\<lambda>y. u_id y = u) (users_t (stored w)) = Some x"
    using find_distinct_eq [OF db_okD(1) [OF ok] x(1)] x(2) by simp
  obtain s n where run: "notify env (tg_get_message_sender env) u (ExpirationSoon ids) w =
      qmark id (expiring_lines env 0 (?hosts n)) (\<lambda>lines.
        qmark id (send_buttons (TgUser env c) (''Hosts expiring soon:'' @ lines) extend_buttons)
          (\<lambda>_. return ())) (w\<lparr>db := s\<rparr>)"
    using assms(1,7) user by (simp add: notify_def tg_sender [OF x(3)] qmark_def [of Sqlx]
        qmark_def [of "\<lambda>e. Context m (Sqlx e)" for m] in_db_def tx_get_user_by_id_def
        tx_get_hosts_def fine_simps)
  {
    assume "\<exists>h \<in> set (hosts_t (stored w)). h_id h \<in> set ids \<and> h_leased_until h = None"
    then have "\<exists>h \<in> set (?hosts n). h_leased_until h = None" by auto
    from expiring_lines_panic [OF this, of env 0 "w\<lparr>db := s\<rparr>"]
    show "fst (notify env (tg_get_message_sender env) u (ExpirationSoon ids) w) = Panic"
      unfolding run by (auto simp: qmark_def)
  next
    assume "\<forall>h \<in> set (hosts_t (stored w)). h_id h \<in> set ids \<longrightarrow> h_leased_until h \<noteq> None"
    then have "\<forall>h \<in> set (?hosts n). h_leased_until h \<noteq> None" by auto
    from expiring_lines_Ok [OF this, of env 0 "w\<lparr>db := s\<rparr>"]
    show "\<exists>text w'. notify env (tg_get_message_sender env) u (ExpirationSoon ids) w = (Ok (), w') \<and>
        outbox w' = outbox w @ [SendMessage c text extend_buttons]"
      unfolding run using assms(2) by (auto simp: qmark_def TgUser_def fine_simps return_def)
  }
qed

text \<open>
  C23: the warning about hosts that expire soon panics exactly when one of them has been released
  between the query that found it and this call: the \<open>unwrap\<close> of its lease end meets a null. The
  timer runs in the task of the whole program, so the panic ends it.
\<close>

theorem notify_expiring_panics:
  assumes "fine (postgres env)" "delivers env" and "db_ok (stored w)"
    and "x \<in> set (users_t (stored w))" "u_id x = u" "chat_of_user x = Some c" and "ids \<noteq> []"
  shows "fst (notify env (tg_get_message_sender env) u (ExpirationSoon ids) w) =
    (if \<exists>h \<in> set (hosts_t (stored w)). h_id h \<in> set ids \<and> h_leased_until h = None
     then Panic else Ok ())"
proof (cases "\<exists>h \<in> set (hosts_t (stored w)). h_id h \<in> set ids \<and> h_leased_until h = None")
  case True
  with notify_expiring_run(1) [OF assms True] show ?thesis by simp
next
  case False
  then have "\<forall>h \<in> set (hosts_t (stored w)). h_id h \<in> set ids \<longrightarrow> h_leased_until h \<noteq> None" by auto
  from notify_expiring_run(2) [OF assms this] False show ?thesis by auto
qed

theorem notify_expiring_panics_witness:
  "fst (notify sample_env (tg_get_message_sender sample_env) (UserId 1) (ExpirationSoon [HostId 1])
     (sample_world sample_pg)) = Panic"
proof -
  have "alice \<in> set (users_t (stored (sample_world sample_pg)))" "u_id alice = UserId 1"
    by (simp_all add: sample_db_def alice_def)
  moreover have "chat_of_user alice = Some 42" by code_simp
  moreover have "\<exists>h \<in> set (hosts_t sample_db). h_id h \<in> set [HostId 1] \<and> h_leased_until h = None"
    by (simp add: sample_defs)
  ultimately show ?thesis
    using notify_expiring_panics [of sample_env "sample_world sample_pg" alice "UserId 1" 42
        "[HostId 1]"] by simp
qed

end
