(* ===== verification/Release_Props.thy ===== *)
theory Release_Props
  imports Release Notifications_Props
begin

text \<open>
  The properties of the release timer: what a release commits, that its memory of warnings
  follows the database, and that holders are warned once.
\<close>

section \<open>Groups and the memory as maps\<close>

definition ids_of :: "hosts_by_user \<Rightarrow> UserId \<Rightarrow> HostId set" where
  "ids_of m u = set (sent_for m u)"

lemma ids_of_Nil [simp]: "ids_of [] u = {}"
  by (simp add: ids_of_def sent_for_def)

lemma ids_of_group_insert [simp]:
  "ids_of (group_insert m l) u = ids_of m u \<union> (if u_id (lh_user l) = u then {lh_id l} else {})"
  by (auto simp: ids_of_def sent_for_def group_insert_def map_of_map_default split: option.splits)

lemma distinct_group_insert [simp]:
  "distinct (map fst m) \<Longrightarrow> distinct (map fst (group_insert m l))"
  by (simp add: group_insert_def distinct_map_default)

lemma ids_of_groups:
  "ids_of (foldl group_insert m ls) u = ids_of m u \<union> {lh_id l | l. l \<in> set ls \<and> u_id (lh_user l) = u}"
  by (induction ls arbitrary: m) auto

lemma distinct_groups: "distinct (map fst m) \<Longrightarrow> distinct (map fst (foldl group_insert m ls))"
  by (induction ls arbitrary: m) auto

lemma ids_of_pair: "distinct (map fst m) \<Longrightarrow> (u, is) \<in> set m \<Longrightarrow> ids_of m u = set is"
  by (simp add: ids_of_def sent_for_def)

lemma ids_of_in: "i \<in> ids_of m u \<Longrightarrow> \<exists>is. (u, is) \<in> set m \<and> i \<in> set is"
  by (cases "map_of m u") (auto simp: ids_of_def sent_for_def dest: map_of_SomeD)

lemma ids_of_forget [simp]:
  "ids_of (forget_released m p) u = (if u = fst p then ids_of m u - set (snd p) else ids_of m u)"
  by (auto simp: ids_of_def sent_for_def forget_released_def AList.map_of_map_entry
      split: option.splits)

lemma ids_of_forget_all:
  "ids_of (foldl forget_released m ps) u = ids_of m u - {i. \<exists>is. (u, is) \<in> set ps \<and> i \<in> set is}"
proof (induction ps arbitrary: m)
  case (Cons p ps)
  then show ?case by (cases p) auto
qed simp

section \<open>The query for leases that end before a point in time\<close>

definition ending :: "database \<Rightarrow> time \<Rightarrow> UserId \<Rightarrow> HostId set" where
  "ending d now u = {i. \<exists>t. holder d i = Some (u, t) \<and> t < to_timestamptz now}"

lemma row_holder_iff:
  assumes "db_ok d" and "h \<in> set (hosts_t d)"
  shows "holder d (h_id h) = Some (u, t) \<longleftrightarrow> h_user_id h = Some u \<and> h_leased_until h = Some t"
  using host_row_unique [OF db_okD(2) [OF assms(1)] assms(2)]
  by (auto simp: holder_def row_holder_def split: option.splits)

lemma ending_rows:
  assumes ok: "db_ok d"
    and rows: "set rows = {h \<in> set (hosts_t d). case h_leased_until h of
      None \<Rightarrow> False | Some t \<Rightarrow> t < to_timestamptz now}"
  shows "i \<in> ending d now v \<longleftrightarrow> (\<exists>h \<in> set rows. h_id h = i \<and> h_user_id h = Some v)"
proof
  assume "i \<in> ending d now v"
  then obtain t where t: "holder d i = Some (v, t)" "t < to_timestamptz now"
    by (auto simp: ending_def)
  then obtain h where "host_row d i = Some h" by (auto simp: holder_def bind_eq_Some_conv)
  then have h: "h \<in> set (hosts_t d)" "h_id h = i" by (auto dest: host_row_Some)
  with t row_holder_iff [OF ok h(1), of v t]
  have "h_user_id h = Some v" "h_leased_until h = Some t" by auto
  with h t(2) show "\<exists>h \<in> set rows. h_id h = i \<and> h_user_id h = Some v"
    by (auto simp: rows intro!: bexI [of _ h])
next
  assume "\<exists>h \<in> set rows. h_id h = i \<and> h_user_id h = Some v"
  with row_holder_iff [OF ok] show "i \<in> ending d now v"
    by (auto simp: rows ending_def split: option.splits)
qed

lemma leased_until_Ok:
  assumes "tx_get_leased_until_hosts srv now s = (Ok ls, t)" and ok: "db_ok (working s)"
  shows "t = s\<lparr>calls := Suc (calls s)\<rparr>"
    and "{lh_id l | l. l \<in> set ls \<and> u_id (lh_user l) = u} = ending (working s) now u"
    and "lh_id ` set ls = (\<Union>u. ending (working s) now u)"
proof -
  let ?d = "working s"
  define rows where "rows = scan_hosts srv (calls s) (filter (\<lambda>h. case h_leased_until h of
      None \<Rightarrow> False | Some t \<Rightarrow> t < to_timestamptz now) (hosts_t ?d))"
  have sub: "set rows \<subseteq> set (hosts_t ?d)" by (auto simp: rows_def)
  have ls: "ls = map (leased_of ?d) (filter (\<lambda>h. h_user_id h \<noteq> None) rows)"
    and "t = s\<lparr>calls := Suc (calls s)\<rparr>"
    using assms(1) decode_join [OF ok sub] unfolding tx_get_leased_until_hosts_def rows_def
    by (auto elim!: query_OkE)
  then show "t = s\<lparr>calls := Suc (calls s)\<rparr>" by simp
  have one: "i \<in> ending ?d now v \<longleftrightarrow> (\<exists>h \<in> set rows. h_id h = i \<and> h_user_id h = Some v)" for i v
    by (rule ending_rows [OF ok]) (simp add: rows_def)
  have user: "u_id (lh_user (leased_of ?d h)) = v"
    if "h \<in> set rows" "h_user_id h = Some v" for h v
    using leased_of_user [OF ok] sub that by blast
  show *: "{lh_id l | l. l \<in> set ls \<and> u_id (lh_user l) = u} = ending ?d now u" for u
  proof (intro set_eqI iffI)
    fix i
    assume "i \<in> {lh_id l | l. l \<in> set ls \<and> u_id (lh_user l) = u}"
    then obtain h v where h: "h \<in> set rows" "h_user_id h = Some v" "i = h_id h"
        "u_id (lh_user (leased_of ?d h)) = u"
      by (auto simp: ls)
    with user [OF h(1,2)] one show "i \<in> ending ?d now u" by auto
  next
    fix i
    assume "i \<in> ending ?d now u"
    then obtain h where "h \<in> set rows" "h_id h = i" "h_user_id h = Some u" using one by auto
    with user show "i \<in> {lh_id l | l. l \<in> set ls \<and> u_id (lh_user l) = u}"
      by (force simp: ls intro: exI [of _ "leased_of ?d h"])
  qed
  show "lh_id ` set ls = (\<Union>u. ending ?d now u)"
  proof -
    have "lh_id ` set ls = (\<Union>u. {lh_id l | l. l \<in> set ls \<and> u_id (lh_user l) = u})" by auto
    with * show ?thesis by simp
  qed
qed

lemma leased_until_fine:
  assumes "fine srv" and ok: "db_ok (working s)"
  obtains ls where "tx_get_leased_until_hosts srv now s = (Ok ls, s\<lparr>calls := Suc (calls s)\<rparr>)"
proof -
  let ?rows = "scan_hosts srv (calls s) (filter (\<lambda>h. case h_leased_until h of
      None \<Rightarrow> False | Some t \<Rightarrow> t < to_timestamptz now) (hosts_t (working s)))"
  have "set ?rows \<subseteq> set (hosts_t (working s))" by auto
  from decode_join [OF ok this] that assms(1) show thesis
    by (simp add: tx_get_leased_until_hosts_def query_fine)
qed

section \<open>Releasing\<close>

definition release_book :: "database \<Rightarrow> time \<Rightarrow> HostId \<Rightarrow> (UserId \<times> timestamptz) option" where
  "release_book d now i =
     (case holder d i of
        None \<Rightarrow> None
      | Some (u, t) \<Rightarrow> if t < to_timestamptz now then None else Some (u, t))"

lemma holder_release:
  assumes "set is = (\<Union>u. ending d now u)"
  shows "holder (clear_hosts (\<lambda>h. h_id h \<in> set is) d) = release_book d now"
proof
  fix i
  have "i \<in> set is \<longleftrightarrow> (\<exists>u t. holder d i = Some (u, t) \<and> t < to_timestamptz now)"
    unfolding assms by (auto simp: ending_def)
  then show "holder (clear_hosts (\<lambda>h. h_id h \<in> set is) d) i = release_book d now i"
    using book.book_free_any [of "is" d i]
    by (auto simp: release_book_def split: option.split)
qed

text \<open>The part of the release that writes: it frees the hosts and commits, or leaves all as it was.\<close>

abbreviation kept_by_release :: "'z timer_scheme \<Rightarrow> database \<times> hosts_by_user" where
  "kept_by_release w \<equiv> (stored w, sent_hosts_notification w)"

lemma keeps_release_db:
  fixes m :: "(pg, 'a, 'e) io"
  shows "keeps committed m \<Longrightarrow> keeps kept_by_release (in_db m)"
  by (intro keepsI) (auto elim!: in_dbE dest: keepsD)

lemma free_commit_cases:
  assumes "qmark Sqlx (in_db (tx_free_hosts srv ids)) (\<lambda>_.
      qmark Sqlx (in_db (commit_tx srv)) (\<lambda>_. return ())) w = (r, w')"
  obtains (freed) "stored w' = clear_hosts (\<lambda>h. h_id h \<in> set ids) (working (db w))"
      "sent_hosts_notification w' = sent_hosts_notification w"
    | (failed) "kept_by_release w' = kept_by_release w" "r = Panic \<or> (\<exists>e. r = Err e)"
proof -
  note step = qmark_keeps [where P = kept_by_release, consumes 1, case_names _ go stop]
  show thesis
    using assms
  proof (cases rule: step)
    case (go y w1)
    then have w1: "working (db w1) = clear_hosts (\<lambda>h. h_id h \<in> set ids) (working (db w))"
      "kept_by_release w1 = kept_by_release w"
      by (auto simp: tx_free_hosts_def elim!: in_dbE execute_OkE)
    from go(3) obtain q where q: "in_db (commit_tx srv) w1 = (q, w')" "q = Ok () \<or> r = Panic \<or> (\<exists>e. r = Err e)"
      by (elim qmark_elim) (auto simp: return_def)
    from q(1) have "stored w' = working (db w1) \<and> sent_hosts_notification w' = sent_hosts_notification w1 \<or>
        kept_by_release w' = kept_by_release w1 \<and> q \<noteq> Ok ()"
      by (auto elim!: in_dbE commit_tx_cases)
    with q(2) w1 show thesis by (elim disjE) (auto intro: freed failed)
  next
    case stop
    then show thesis by (intro failed) auto
  qed (simp add: keeps_release_db keeps_intros tx_free_hosts_def)
qed

lemma release_write:
  assumes "qmark id (if ls \<noteq> []
      then qmark Sqlx (in_db (tx_free_hosts srv (map lh_id ls))) (\<lambda>_.
           qmark Sqlx (in_db (commit_tx srv)) (\<lambda>_. return ()))
      else return ()) (\<lambda>_.
    qmark id (update_sent (\<lambda>sent. foldl forget_released sent users_hosts)) (\<lambda>_. return ls)) w1 = (r, w')"
    and w1: "working (db w1) = d" "stored w1 = d"
    and ids: "lh_id ` set ls = (\<Union>u. ending d now u)" and ok: "db_ok d"
  shows "holder (stored w') = release_book d now \<and> db_ok (stored w') \<and> (\<exists>P. stored w' = clear_hosts P d) \<and>
      (r = Ok ls \<and> sent_hosts_notification w' = foldl forget_released (sent_hosts_notification w1) users_hosts \<or>
       (\<forall>ls. r \<noteq> Ok ls) \<and> sent_hosts_notification w' = sent_hosts_notification w1) \<or>
    kept_by_release w' = kept_by_release w1 \<and> (r = Panic \<or> (\<exists>e. r = Err e))"
proof -
  let ?freed = "clear_hosts (\<lambda>h. h_id h \<in> set (map lh_id ls)) d"
  have freed: "holder ?freed = release_book d now" "db_ok ?freed" "\<exists>P. ?freed = clear_hosts P d"
    using holder_release [of "map lh_id ls" d now] ids ok by (auto intro: db_ok_clear)
  have none: "?freed = d" if "ls = []" using that by (simp add: clear_hosts_def)
  let ?written = "if ls \<noteq> [] then qmark Sqlx (in_db (tx_free_hosts srv (map lh_id ls))) (\<lambda>_.
           qmark Sqlx (in_db (commit_tx srv)) (\<lambda>_. return ())) else return ()"
  obtain q w2 where q: "?written w1 = (q, w2)" by fastforce
  have w2: "stored w2 = ?freed \<and> sent_hosts_notification w2 = sent_hosts_notification w1 \<or>
      kept_by_release w2 = kept_by_release w1 \<and> (q = Panic \<or> (\<exists>e. q = Err e))"
  proof (cases "ls = []")
    case True
    with q none w1 show ?thesis by (simp add: return_def)
  next
    case False
    with q have "qmark Sqlx (in_db (tx_free_hosts srv (map lh_id ls))) (\<lambda>_.
        qmark Sqlx (in_db (commit_tx srv)) (\<lambda>_. return ())) w1 = (q, w2)" by simp
    then show ?thesis by (cases rule: free_commit_cases) (use w1 in simp_all)
  qed
  from assms(1) q have "r = (case q of Ok _ \<Rightarrow> Ok ls | Err e \<Rightarrow> Err e | Panic \<Rightarrow> Panic)" "stored w' = stored w2"
    "sent_hosts_notification w' = (case q of
       Ok _ \<Rightarrow> foldl forget_released (sent_hosts_notification w2) users_hosts | _ \<Rightarrow> sent_hosts_notification w2)"
    by (auto simp: qmark_def update_sent_def return_def split: outcome.splits)
  with w2 freed show ?thesis by (cases q) auto
qed

lemma release_cases:
  assumes "release_expired env w = (r, w')" and ok: "db_ok (stored w)"
  obtains (failed) "stored w' = stored w" "\<And>ls. r \<noteq> Ok ls"
      "sent_hosts_notification w' = sent_hosts_notification w"
    | (lost) "holder (stored w') = release_book (stored w) (clock env (clock_reads w))"
      "db_ok (stored w')" "\<exists>P. stored w' = clear_hosts P (stored w)"
      "\<And>ls. r \<noteq> Ok ls" "sent_hosts_notification w' = sent_hosts_notification w"
    | (released) ls where "r = Ok ls"
      "holder (stored w') = release_book (stored w) (clock env (clock_reads w))"
      "db_ok (stored w')" "\<exists>P. stored w' = clear_hosts P (stored w)" "\<And>u. {lh_id l | l. l \<in> set ls \<and> u_id (lh_user l) = u} =
         ending (stored w) (clock env (clock_reads w)) u"
      "sent_hosts_notification w' =
         foldl forget_released (sent_hosts_notification w) (foldl group_insert [] ls)"
proof -
  let ?d = "stored w" and ?now = "clock env (clock_reads w)"
  have failed: thesis if "kept_by_release w' = kept_by_release w" "r = Panic \<or> (\<exists>e. r = Err e)"
    using that by (intro failed) auto
  note step = qmark_keeps [where P = kept_by_release, consumes 1, case_names _ go stop]
  show thesis
    using assms(1) unfolding release_expired_def
  proof (cases rule: step)
    case (go x w0)
    then have w0: "working (db w0) = ?d" "kept_by_release w0 = kept_by_release w" "clock_reads w0 = clock_reads w"
      by (auto elim!: in_dbE begin_tx_OkE)
    from go(3) have "qmark Sqlx (in_db (tx_get_leased_until_hosts (postgres env) ?now)) (\<lambda>expired_hosts.
       let users_hosts = foldl group_insert [] expired_hosts
       in qmark id
            (if expired_hosts \<noteq> []
             then qmark Sqlx (in_db (tx_free_hosts (postgres env) (map lh_id expired_hosts))) (\<lambda>_.
                  qmark Sqlx (in_db (commit_tx (postgres env))) (\<lambda>_. return ()))
             else return ()) (\<lambda>_.
          qmark id (update_sent (\<lambda>sent. foldl forget_released sent users_hosts)) (\<lambda>_.
          return expired_hosts))) (w0\<lparr>clock_reads := Suc (clock_reads w0)\<rparr>) = (r, w')"
      by (simp add: qmark_def [of id "utc_now env"] utc_now_def w0(3))
    then show ?thesis
    proof (cases rule: step)
      case (go ls w1)
      then obtain t1 where t1: "tx_get_leased_until_hosts (postgres env) ?now (db w0) = (Ok ls, t1)"
          "w1 = w0\<lparr>clock_reads := Suc (clock_reads w0), db := t1\<rparr>"
        by (auto elim!: in_dbE)
      note ls = leased_until_Ok [OF t1(1), unfolded w0(1), OF ok]
      have w1: "working (db w1) = ?d" "stored w1 = ?d" "sent_hosts_notification w1 = sent_hosts_notification w"
        using t1(2) ls(1) w0 by auto
      from ls(3) have ids: "lh_id ` set ls = (\<Union>u. ending ?d ?now u)" by simp
      from release_write [OF go(3) [unfolded Let_def] w1(1,2) ids ok] show ?thesis
        unfolding w1(2,3) using ls(2) released failed lost by blast
    qed (use failed w0 in \<open>auto simp: keeps_release_db keeps_intros tx_get_leased_until_hosts_def\<close>)
  qed (use failed in \<open>auto simp: keeps_release_db keeps_intros\<close>)
qed

section \<open>Warning\<close>

lemma keeps_sent [keeps_intros]:
  "keeps sent_hosts_notification (in_db m)" "keeps sent_hosts_notification (utc_now env)"
  "keeps sent_hosts_notification (telegram env req)"
  by (auto intro!: keepsI elim!: in_dbE simp: utc_now_def telegram_def Let_def split: delivery.splits)

lemma keeps_sent_lines [keeps_intros]: "keeps sent_hosts_notification (expiring_lines env i hs)"
  by (induction hs arbitrary: i) (auto intro!: keeps_intros)

lemma notify_keeps_sent:
  "keeps sent_hosts_notification (notify env (tg_get_message_sender env) u notif)"
  unfolding notify_def
  by (auto split: option.split sum.split Notification.split simp: tg_sender_Inr TgUser_def
      intro!: keeps_intros)

lemma ids_of_default [simp]: "ids_of (map_default v [] id m) u = ids_of m u"
  by (auto simp: ids_of_def sent_for_def map_of_map_default split: option.splits)

lemma set_fold_insert [simp]: "set (fold List.insert is v) = set is \<union> set v"
  by (induction "is" arbitrary: v) auto

lemma ids_of_record:
  assumes "u \<in> fst ` set m"
  shows "ids_of (record_sent u is m) v = ids_of m v \<union> (if v = u then set is else {})"
proof -
  obtain old where "map_of m u = Some old"
    using assms by (cases "map_of m u") (auto simp: map_of_eq_None_iff)
  then show ?thesis
    by (auto simp: ids_of_def sent_for_def record_sent_def AList.map_of_map_entry split: option.splits)
qed

lemma distinct_record [simp]: "distinct (map fst m) \<Longrightarrow> distinct (map fst (record_sent u is m))"
  by (simp add: record_sent_def AList.distinct_map_entry)

lemma ids_of_Cons: "ids_of ((k, is) # m) u = (if k = u then set is else ids_of m u)"
  by (simp add: ids_of_def sent_for_def)

lemma ids_of_absent: "u \<notin> fst ` set m \<Longrightarrow> ids_of m u = {}"
  by (simp add: ids_of_def sent_for_def flip: map_of_eq_None_iff)

lemma retain_Cons:
  "retain_expiring A ((k, is) # m) =
     (if set is \<inter> A = {} then retain_expiring A m
      else (k, filter (\<lambda>i. i \<in> A) is) # retain_expiring A m)"
  by (auto simp: retain_expiring_def filter_empty_conv)

lemma ids_of_retain:
  "distinct (map fst m) \<Longrightarrow> ids_of (retain_expiring A m) u = ids_of m u \<inter> A"
proof (induction m)
  case (Cons p m)
  obtain k "is" where p: "p = (k, is)" by (cases p)
  with Cons have "ids_of m k = {}" by (intro ids_of_absent) simp
  with Cons p show ?case by (auto simp: retain_Cons ids_of_Cons)
qed (simp add: retain_expiring_def)

lemma distinct_retain: "distinct (map fst m) \<Longrightarrow> distinct (map fst (retain_expiring A m))"
  by (simp add: retain_expiring_def filter_map o_def distinct_map_filter)

text \<open>
  The state in which the loop of the timer is looked at: the server answers, Telegram delivers
  and every user the loop meets has a chat.
\<close>

definition reachable :: "database \<Rightarrow> UserId \<Rightarrow> bool" where
  "reachable d u \<longleftrightarrow> (\<exists>x \<in> set (users_t d). u_id x = u \<and> chat_of_user x \<noteq> None)"

definition unsent :: "hosts_by_user \<Rightarrow> UserId \<times> HostId list \<Rightarrow> bool" where
  "unsent sent p \<longleftrightarrow> \<not> set (snd p) \<subseteq> ids_of sent (fst p)"

text \<open>One user of the round: he gets a message unless he has been warned of all these hosts.\<close>

lemma warn_each_unfold:
  fixes w :: "'z timer_scheme" and u :: UserId and "is" :: "HostId list" and ord :: hash_order
  defines "w0 \<equiv> w\<lparr>sent_hosts_notification := map_default u [] id (sent_hosts_notification w)\<rparr>"
  defines "js \<equiv> sort_key (host_order ord) (filter (\<lambda>i. i \<notin> set (sent_for (sent_hosts_notification w0) u)) is)"
  shows "warn_each env gw ord ((u, is) # ps) w =
    (if js = [] then warn_each env gw ord ps w0
     else handle (notify env gw u (ExpirationSoon js))
       (\<lambda>res. case res of
          Inl err \<Rightarrow> warn_each env gw ord ps
        | Inr _ \<Rightarrow> qmark id (update_sent (record_sent u js)) (\<lambda>_. warn_each env gw ord ps)) w0)"
  unfolding js_def w0_def
  by (simp add: qmark_def [of id "update_sent f" for f] update_sent_def Let_def)

lemma warn_step:
  assumes "fine (postgres env)" "delivers env" and ok: "db_ok (stored w)"
    and user: "reachable (stored w) u" and leased: "\<forall>i \<in> set is. holder (stored w) i \<noteq> None"
    and sent: "distinct (map fst (sent_hosts_notification w))"
  shows "\<exists>w'. warn_each env (tg_get_message_sender env) ord ((u, is) # ps) w =
      warn_each env (tg_get_message_sender env) ord ps w' \<and>
    stored w' = stored w \<and> distinct (map fst (sent_hosts_notification w')) \<and>
    (\<forall>v. ids_of (sent_hosts_notification w') v =
       ids_of (sent_hosts_notification w) v \<union> (if v = u then set is else {})) \<and>
    length (outbox w') = length (outbox w) + (if unsent (sent_hosts_notification w) (u, is) then 1 else 0)"
proof -
  define w0 where "w0 = w\<lparr>sent_hosts_notification := map_default u [] id (sent_hosts_notification w)\<rparr>"
  define js where "js = sort_key (host_order ord)
      (filter (\<lambda>i. i \<notin> set (sent_for (sent_hosts_notification w0) u)) is)"
  have w0: "stored w0 = stored w" "outbox w0 = outbox w"
      "ids_of (sent_hosts_notification w0) v = ids_of (sent_hosts_notification w) v"
      "u \<in> fst ` set (sent_hosts_notification w0)"
      "distinct (map fst (sent_hosts_notification w0))" for v
    using sent by (simp_all add: w0_def dom_map_default distinct_map_default)
  have js: "set js = set is - ids_of (sent_hosts_notification w) u"
    using w0(3) [of u] by (auto simp: js_def ids_of_def)
  note step = warn_each_unfold [of env "tg_get_message_sender env" ord u "is" ps w, folded w0_def, folded js_def]
  show ?thesis
  proof (cases "js = []")
    case True
    then have "set is \<subseteq> ids_of (sent_hosts_notification w) u" using js by auto
    with True step w0 show ?thesis by (intro exI [of _ w0]) (auto simp: unsent_def)
  next
    case False
    from user obtain x c where x: "x \<in> set (users_t (stored w0))" "u_id x = u" "chat_of_user x = Some c"
      by (auto simp: reachable_def w0)
    have lent: "\<forall>h \<in> set (hosts_t (stored w0)). h_id h \<in> set js \<longrightarrow> h_leased_until h \<noteq> None"
      using leased js row_holder_iff [OF ok] w0(1) by fastforce
    obtain msg w1 where w1: "notify env (tg_get_message_sender env) u (ExpirationSoon js) w0 = (Ok (), w1)"
        "outbox w1 = outbox w0 @ [SendMessage c msg extend_buttons]"
      using notify_expiring_run(2) [OF assms(1,2) _ x False lent] ok w0(1) by auto
    have keep: "stored w1 = stored w0" "sent_hosts_notification w1 = sent_hosts_notification w0"
      using keepsD [OF tg.notify_keeps_stored w1(1)] keepsD [OF notify_keeps_sent w1(1)] by simp_all
    let ?w2 = "w1\<lparr>sent_hosts_notification := record_sent u js (sent_hosts_notification w1)\<rparr>"
    have "set js \<noteq> {}" using False by simp
    with js have "unsent (sent_hosts_notification w) (u, is)" by (auto simp: unsent_def)
    with False step w1 keep w0 js show ?thesis
      by (intro exI [of _ ?w2]) (auto simp: handle_def qmark_def update_sent_def ids_of_record)
  qed
qed

lemma warn_each_run:
  assumes "fine (postgres env)" "delivers env" and ok: "db_ok (stored w)"
    and "distinct (map fst ps)"
    and "\<forall>p \<in> set ps. reachable (stored w) (fst p) \<and> (\<forall>i \<in> set (snd p). holder (stored w) i \<noteq> None)"
    and "distinct (map fst (sent_hosts_notification w))"
  shows "\<exists>w'. warn_each env (tg_get_message_sender env) ord ps w = (Ok (), w') \<and>
    stored w' = stored w \<and> distinct (map fst (sent_hosts_notification w')) \<and>
    (\<forall>u. ids_of (sent_hosts_notification w') u = ids_of (sent_hosts_notification w) u \<union> ids_of ps u) \<and>
    length (outbox w') = length (outbox w) + length (filter (unsent (sent_hosts_notification w)) ps)"
  using assms(3-6)
proof (induction ps arbitrary: w)
  case Nil
  then show ?case by (simp add: return_def)
next
  case (Cons p ps)
  obtain u "is" where p: "p = (u, is)" by (cases p)
  from warn_step [OF assms(1,2) Cons.prems(1), of u "is" ord ps] Cons.prems(3,4) p obtain w1 where
    w1: "warn_each env (tg_get_message_sender env) ord (p # ps) w =
        warn_each env (tg_get_message_sender env) ord ps w1"
      "stored w1 = stored w" "distinct (map fst (sent_hosts_notification w1))"
      "\<And>v. ids_of (sent_hosts_notification w1) v =
         ids_of (sent_hosts_notification w) v \<union> (if v = u then set is else {})"
      "length (outbox w1) = length (outbox w) + (if unsent (sent_hosts_notification w) p then 1 else 0)"
    by auto
  have head: "ids_of (p # ps) v = (if v = u then set is else ids_of ps v)" for v
    by (simp add: p ids_of_def sent_for_def)
  have tail: "ids_of ps u = {}"
    using Cons.prems(2) p ids_of_in [of _ ps u] by force
  have "filter (unsent (sent_hosts_notification w1)) ps = filter (unsent (sent_hosts_notification w)) ps"
  proof (rule filter_cong)
    fix q
    assume "q \<in> set ps"
    then have "fst q \<noteq> u" using Cons.prems(2) p by force
    then show "unsent (sent_hosts_notification w1) q \<longleftrightarrow> unsent (sent_hosts_notification w) q"
      by (simp add: unsent_def w1(4))
  qed simp
  with Cons.IH [of w1] Cons.prems w1 head tail show ?case by auto
qed

text \<open>A whole check: who is warned, and what the memory is afterwards.\<close>

definition expiring :: "database \<Rightarrow> time \<Rightarrow> UserId \<Rightarrow> HostId set" where
  "expiring d now = ending d (now + EXPIRATION_NOTIFY_WINDOW)"

lemma holder_ending: "i \<in> ending d now u \<Longrightarrow> holder d i \<noteq> None"
  by (auto simp: ending_def)

lemma ending_user:
  assumes "db_ok d" "i \<in> ending d now u"
  shows "u \<in> user_ids d"
proof -
  from assms(2) obtain t where t: "holder d i = Some (u, t)" by (auto simp: ending_def)
  then obtain h where "host_row d i = Some h" by (auto simp: holder_def bind_eq_Some_conv)
  then have h: "h \<in> set (hosts_t d)" "h_id h = i" by (auto dest: host_row_Some)
  with t row_holder_iff [OF assms(1) h(1), of u t] have "h_user_id h = Some u" by simp
  with h(1) db_okD(3) [OF assms(1)] show ?thesis by blast
qed

text \<open>The hosts of a list by user: \<open>E u\<close> are those of user \<open>u\<close>.\<close>

lemma groups_users:
  "fst ` set (foldl group_insert m ls) = fst ` set m \<union> (\<lambda>l. u_id (lh_user l)) ` set ls"
  by (induction ls arbitrary: m) (auto simp: group_insert_def dom_map_default)

lemma grouped:
  assumes E: "\<And>u. {lh_id l | l. l \<in> set ls \<and> u_id (lh_user l) = u} = E u"
    and ps: "distinct (map fst ps)" "set ps = set (foldl group_insert [] ls)"
  shows "(u, is) \<in> set ps \<Longrightarrow> set is = E u" and "ids_of ps u = E u" and "u \<in> fst ` set ps \<longleftrightarrow> E u \<noteq> {}"
proof -
  have groups: "distinct (map fst (foldl group_insert [] ls))" by (rule distinct_groups) simp
  have all: "ids_of (foldl group_insert [] ls) u = E u" for u
    using ids_of_groups [of "[]" ls u] E by simp
  then show pair: "set is = E u" if "(u, is) \<in> set ps" for u "is"
    using ids_of_pair [OF groups] that by (simp add: ps(2))
  have users: "u \<in> fst ` set ps \<longleftrightarrow> E u \<noteq> {}" for u
    unfolding ps(2) groups_users E [of u, symmetric] by auto
  then show "u \<in> fst ` set ps \<longleftrightarrow> E u \<noteq> {}" .
  show "ids_of ps u = E u"
  proof (cases "u \<in> fst ` set ps")
    case True
    then obtain "is" where "(u, is) \<in> set ps" by force
    with ids_of_pair [OF ps(1)] pair show ?thesis by simp
  next
    case False
    with users show ?thesis by (simp add: ids_of_absent)
  qed
qed

lemma ids_of_all:
  assumes "distinct (map fst ps)"
  shows "set (concat (map snd ps)) = (\<Union>u. ids_of ps u)"
proof (intro equalityI subsetI)
  fix i
  assume "i \<in> set (concat (map snd ps))"
  then obtain u "is" where "(u, is) \<in> set ps" "i \<in> set is" by auto
  with ids_of_pair [OF assms] show "i \<in> (\<Union>u. ids_of ps u)" by blast
next
  fix i
  assume "i \<in> (\<Union>u. ids_of ps u)"
  then obtain u where "i \<in> ids_of ps u" by blast
  from ids_of_in [OF this] show "i \<in> set (concat (map snd ps))" by force
qed

lemma count_unsent:
  assumes ps: "distinct (map fst ps)"
    and pairs: "\<And>u is. (u, is) \<in> set ps \<Longrightarrow> set is = E u" "\<And>u. u \<in> fst ` set ps \<longleftrightarrow> E u \<noteq> {}"
    and sent: "\<And>u. u \<in> fst ` set ps \<Longrightarrow> E u \<subseteq> ids_of m u \<longleftrightarrow> E u \<subseteq> ids_of sent u"
  shows "length (filter (unsent m) ps) = card {u. \<not> E u \<subseteq> ids_of sent u}"
proof -
  have unsent: "unsent m p \<longleftrightarrow> \<not> E (fst p) \<subseteq> ids_of sent (fst p)" if "p \<in> set ps" for p
    using pairs(1) [of "fst p" "snd p"] sent [of "fst p"] that by (auto simp: unsent_def)
  have "length (filter (unsent m) ps) = card (fst ` set (filter (unsent m) ps))"
    using distinct_map_filter [OF ps] by (metis distinct_card length_map list.set_map)
  also have "fst ` set (filter (unsent m) ps) = {u. \<not> E u \<subseteq> ids_of sent u}"
  proof (intro set_eqI iffI)
    fix u
    assume u: "u \<in> {u. \<not> E u \<subseteq> ids_of sent u}"
    then obtain p where p: "p \<in> set ps" "fst p = u" using pairs(2) [of u] by auto
    with unsent [OF p(1)] u have "p \<in> set (filter (unsent m) ps)" by simp
    then show "u \<in> fst ` set (filter (unsent m) ps)" unfolding p(2) [symmetric] by (rule imageI)
  qed (use unsent in auto)
  finally show ?thesis .
qed

lemma soon_run:
  assumes "fine (postgres env)" "delivers env" and ok: "db_ok (stored w)"
    and "\<forall>u \<in> user_ids (stored w). reachable (stored w) u"
    and sent: "distinct (map fst (sent_hosts_notification w))"
    and now: "clock env (clock_reads w) = now" "date_add now EXPIRATION_NOTIFY_WINDOW \<noteq> None"
  shows "\<exists>w'. notify_soon_release env (tg_get_message_sender env) ord w = (Ok (), w') \<and>
    stored w' = stored w \<and> distinct (map fst (sent_hosts_notification w')) \<and>
    (\<forall>u. ids_of (sent_hosts_notification w') u =
       ids_of (sent_hosts_notification w) u \<inter> (\<Union>v. expiring (stored w) now v) \<union>
       expiring (stored w) now u) \<and>
    length (outbox w') = length (outbox w) +
      card {u. \<not> expiring (stored w) now u \<subseteq> ids_of (sent_hosts_notification w) u}"
proof -
  let ?d = "stored w" and ?W = EXPIRATION_NOTIFY_WINDOW and ?sent = "sent_hosts_notification w"
  let ?E = "expiring ?d now" and ?all = "\<Union>v. expiring (stored w) now v"
  have next_date: "date_add now ?W = Some (now + ?W)"
    using now(2) by (auto simp: date_add_def split: if_splits)
  define s where "s = db w\<lparr>calls := Suc (calls (db w)), working := ?d\<rparr>"
  have s: "working s = ?d" "committed s = ?d" by (simp_all add: s_def)
  obtain ls where ls: "tx_get_leased_until_hosts (postgres env) (now + ?W) s =
      (Ok ls, s\<lparr>calls := Suc (calls s)\<rparr>)"
    using leased_until_fine [OF assms(1), of s] s ok by auto
  define ps where "ps = sort_key (\<lambda>p. user_order ord (fst p)) (foldl group_insert [] ls)"
  have groups: "distinct (map fst (foldl group_insert [] ls))" by (rule distinct_groups) simp
  then have ps: "distinct (map fst ps)" "set ps = set (foldl group_insert [] ls)"
    by (simp_all add: ps_def)
  note by_user = grouped [OF leased_until_Ok(2) [OF ls, unfolded s(1), OF ok, folded expiring_def]]
  note hosts = by_user [OF ps]
  have all: "set (concat (map snd (foldl group_insert [] ls))) = ?all"
    unfolding ids_of_all [OF groups] by (simp add: by_user(2) [OF groups])
  define w1 where "w1 = w\<lparr>clock_reads := Suc (clock_reads w), db := s\<lparr>calls := Suc (calls s)\<rparr>,
      sent_hosts_notification := retain_expiring ?all ?sent\<rparr>"
  have w1: "stored w1 = ?d" "outbox w1 = outbox w"
      "sent_hosts_notification w1 = retain_expiring ?all ?sent"
    by (simp_all add: w1_def s_def)
  have run: "notify_soon_release env (tg_get_message_sender env) ord w =
      warn_each env (tg_get_message_sender env) ord ps w1"
    using assms(1) ls next_date
    by (simp add: notify_soon_release_def qmark_def in_db_def begin_tx_fine utc_now_def unwrap_def
        now(1) s_def [symmetric] Let_def update_sent_def ps_def [symmetric] all [simplified] w1_def)
  have dist: "distinct (map fst (sent_hosts_notification w1))"
    using distinct_retain [OF sent] by (simp add: w1(3))
  have good: "\<forall>p \<in> set ps. reachable (stored w1) (fst p) \<and>
      (\<forall>i \<in> set (snd p). holder (stored w1) i \<noteq> None)"
  proof (clarify, goal_cases)
    case (1 u "is")
    then have "?E u \<noteq> {}" using hosts(3) by force
    then have "u \<in> user_ids ?d" using ending_user [OF ok] by (auto simp: expiring_def)
    with 1 hosts(1) assms(4) holder_ending show ?case by (auto simp: w1(1) expiring_def)
  qed
  have "length (filter (unsent (sent_hosts_notification w1)) ps) = card {u. \<not> ?E u \<subseteq> ids_of ?sent u}"
    by (rule count_unsent [OF ps(1) hosts(1,3)]) (auto simp: w1(3) ids_of_retain [OF sent])
  moreover have "db_ok (stored w1)" using ok by (simp add: w1(1))
  ultimately show ?thesis
    using warn_each_run [OF assms(1,2) _ ps(1) good dist]
    unfolding run by (simp add: w1 ids_of_retain [OF sent] hosts(2))
qed

section \<open>Properties\<close>

text \<open>
  C20: a run of the release frees exactly the hosts whose lease has ended. If it reports success,
  each host that was held until before the time it read is free afterwards, every other host is
  held as before, and the report lists for each user the hosts he lost; if it reports an error,
  the database is as before or as after such a release (a commit whose answer was lost). The
  invariant is kept.
\<close>

theorem release_frees_expired:
  assumes "release_expired env w = (r, w')" and "db_ok (stored w)"
    and "clock env (clock_reads w) = now"
  shows "db_ok (stored w') \<and>
    (stored w' = stored w \<or> (\<forall>i. holder (stored w') i = release_book (stored w) now i)) \<and>
    (\<forall>ls. r = Ok ls \<longrightarrow> (\<forall>i. holder (stored w') i = release_book (stored w) now i) \<and>
       (\<forall>u. {lh_id l | l. l \<in> set ls \<and> u_id (lh_user l) = u} = ending (stored w) now u))"
  using assms(1,2) by (rule release_cases) (use assms in simp_all)

definition later_env :: env where
  "later_env = sample_env\<lparr>clock := (\<lambda>n. 1000000)\<rparr>"

definition sample_timer :: "pg \<Rightarrow> timer" where
  "sample_timer s = \<lparr>db = s, outbox = [], tg_calls = 0, clock_reads = 0,
     sent_hosts_notification = [(UserId 2, [HostId 3])]\<rparr>"

lemma sample_timer_simps [simp]:
  "db (sample_timer s) = s" "outbox (sample_timer s) = []"
  "sent_hosts_notification (sample_timer s) = [(UserId 2, [HostId 3])]"
  "postgres later_env = sample_server" "clock later_env n = 1000000" "delivers later_env"
  by (simp_all add: sample_timer_def later_env_def delivers_def sample_env_def)

theorem release_frees_expired_witness:
  "\<exists>ls w'. release_expired later_env (sample_timer sample_pg) = (Ok ls, w') \<and>
     (\<forall>i. holder (stored w') i = release_book sample_db 1000000 i) \<and>
     {lh_id l | l. l \<in> set ls \<and> u_id (lh_user l) = UserId 2} = ending sample_db 1000000 (UserId 2)"
proof -
  let ?run = "release_expired later_env (sample_timer sample_pg)"
  have "case fst ?run of Ok x \<Rightarrow> True | _ \<Rightarrow> False" by code_simp
  then obtain ls w' where run: "?run = (Ok ls, w')" by (rule outcome_run_Ok)
  from release_frees_expired [OF run] run show ?thesis by simp
qed

text \<open>
  A successful release also forgets the warnings for what it freed, user by user, and for
  nothing else; a failed one leaves the memory alone.
\<close>

theorem release_forgets_warnings:
  assumes "release_expired env w = (r, w')" and "db_ok (stored w)"
    and "clock env (clock_reads w) = now"
  shows "ids_of (sent_hosts_notification w') u =
    (case r of Ok ls \<Rightarrow> ids_of (sent_hosts_notification w) u - ending (stored w) now u
     | _ \<Rightarrow> ids_of (sent_hosts_notification w) u)"
  using assms(1,2)
proof (rule release_cases)
  fix ls
  assume r: "r = Ok ls"
    and ids: "\<And>u. {lh_id l | l. l \<in> set ls \<and> u_id (lh_user l) = u} =
      ending (stored w) (clock env (clock_reads w)) u"
    and sent: "sent_hosts_notification w' =
      foldl forget_released (sent_hosts_notification w) (foldl group_insert [] ls)"
  let ?groups = "foldl group_insert [] ls"
  have groups: "distinct (map fst ?groups)" by (rule distinct_groups) simp
  have "{i. \<exists>is. (u, is) \<in> set ?groups \<and> i \<in> set is} = ids_of ?groups u"
    using ids_of_pair [OF groups] ids_of_in by blast
  then show ?thesis
    using ids [of u] assms(3) by (simp add: r sent ids_of_forget_all ids_of_groups)
qed (auto split: outcome.split)

theorem release_forgets_warnings_witness:
  "ids_of (sent_hosts_notification (snd (release_expired later_env (sample_timer sample_pg))))
     (UserId 2) = {HostId 3} - ending sample_db 1000000 (UserId 2)"
proof -
  let ?run = "release_expired later_env (sample_timer sample_pg)"
  have "case fst ?run of Ok x \<Rightarrow> True | _ \<Rightarrow> False" by code_simp
  then obtain ls w' where run: "?run = (Ok ls, w')" by (rule outcome_run_Ok)
  from release_forgets_warnings [OF run, of 1000000 "UserId 2"] show ?thesis
    by (simp add: run ids_of_Cons)
qed

text \<open>
  C21: every holder is warned once. On a server that answers and with Telegram delivering to all
  users, two checks with the leases unchanged in between succeed, and the second sends as many
  messages as there are users with a host that expires soon and did not at the first check: a
  check at which nothing new expires is silent.
\<close>

theorem warned_once:
  assumes "fine (postgres env)" "delivers env" and "db_ok (stored w)"
    and "\<forall>u \<in> user_ids (stored w). reachable (stored w) u"
    and "distinct (map fst (sent_hosts_notification w))"
    and "clock env (clock_reads w) = now" "date_add now EXPIRATION_NOTIFY_WINDOW \<noteq> None"
    and first: "notify_soon_release env (tg_get_message_sender env) ord w = (r1, w1)"
    and between: "stored w2 = stored w1"
      "sent_hosts_notification w2 = sent_hosts_notification w1"
    and "clock env (clock_reads w2) = now2" "date_add now2 EXPIRATION_NOTIFY_WINDOW \<noteq> None"
    and second: "notify_soon_release env (tg_get_message_sender env) ord w2 = (r2, w3)"
  shows "r1 = Ok () \<and> r2 = Ok () \<and> length (outbox w3) = length (outbox w2) +
    card {u. \<not> expiring (stored w) now2 u \<subseteq> expiring (stored w) now u}"
proof -
  from soon_run [OF assms(1-7), of ord] first
  have w1: "r1 = Ok ()" "stored w1 = stored w" "distinct (map fst (sent_hosts_notification w1))"
      "ids_of (sent_hosts_notification w1) u =
         ids_of (sent_hosts_notification w) u \<inter> (\<Union>v. expiring (stored w) now v) \<union>
         expiring (stored w) now u" for u
    by auto
  from soon_run [of env w2 now2 ord] assms(1-4,11,12) second w1(2,3) between
  have w3: "r2 = Ok ()" "length (outbox w3) = length (outbox w2) +
      card {u. \<not> expiring (stored w) now2 u \<subseteq> ids_of (sent_hosts_notification w1) u}"
    by auto
  have "expiring (stored w) now2 u \<subseteq> ids_of (sent_hosts_notification w1) u \<longleftrightarrow>
      expiring (stored w) now2 u \<subseteq> expiring (stored w) now u" for u
  proof -
    have "i \<in> expiring (stored w) now u"
      if "i \<in> expiring (stored w) now2 u" "i \<in> expiring (stored w) now v" for i v
      using that by (auto simp: expiring_def ending_def)
    then show ?thesis unfolding w1(4) by blast
  qed
  with w1(1) w3 show ?thesis by simp
qed

theorem warned_once_witness:
  "\<exists>w1 w3. notify_soon_release later_env (tg_get_message_sender later_env)
      \<lparr>user_order = (\<lambda>u. 0), host_order = (\<lambda>h. 0)\<rparr>
      (sample_timer (sample_pg\<lparr>committed := set_tg_handle (UserId 2) ''43'' sample_db\<rparr>)) = (Ok (), w1) \<and>
    notify_soon_release later_env (tg_get_message_sender later_env)
      \<lparr>user_order = (\<lambda>u. 0), host_order = (\<lambda>h. 0)\<rparr> w1 = (Ok (), w3) \<and>
    length (outbox w3) = length (outbox w1)"
proof -
  let ?d = "set_tg_handle (UserId 2) ''43'' sample_db"
  let ?w = "sample_timer (sample_pg\<lparr>committed := ?d\<rparr>)"
  let ?check = "notify_soon_release later_env (tg_get_message_sender later_env)
      \<lparr>user_order = (\<lambda>u. 0), host_order = (\<lambda>h. 0)\<rparr>"
  obtain r1 w1 where first: "?check ?w = (r1, w1)" by (cases "?check ?w")
  obtain r2 w3 where second: "?check w1 = (r2, w3)" by (cases "?check w1")
  have ok: "db_ok (stored ?w)" by (simp add: db_ok_set_tg)
  have "parse_i64 ''42'' \<noteq> None" "parse_i64 ''43'' \<noteq> None" by code_simp+
  then have chats: "\<forall>u \<in> user_ids (stored ?w). reachable (stored ?w) u"
    by (simp add: reachable_def chat_of_user_def user_ids_def set_tg_handle_def sample_defs)
  have "date_add 1000000 EXPIRATION_NOTIFY_WINDOW \<noteq> None" by code_simp
  with warned_once [OF _ _ ok chats _ _ _ first _ _ _ _ second, of 1000000 1000000]
  have "r1 = Ok () \<and> r2 = Ok () \<and> length (outbox w3) = length (outbox w1)" by simp
  with first second show ?thesis by blast
qed

end
