(* ===== verification/Bot.thy ===== *)
theory Bot
  imports Users_Service Release
begin

text \<open>
  The Telegram bot: \<open>src/src/bot/mod.rs\<close> and \<open>src/src/bot/handlers.rs\<close>. Messages and callback
  queries are records of the fields the handlers read; whether a text is the command \<open>/start\<close>
  is decided by the command parser of the bot framework, a parameter.
\<close>

section \<open>Updates\<close>

type_synonym tg_user_id = "64 word"

record tg_message =
  msg_chat :: i64
  msg_id :: i32
  msg_from :: "tg_user_id option"
  msg_text :: "string option"

datatype callback_message = Regular i64 i32 | Inaccessible

record callback_query =
  cq_id :: string
  cq_from :: tg_user_id
  cq_message :: "callback_message option"
  cq_data :: "string option"

datatype tg_update = MessageUpdate tg_message | CallbackUpdate callback_query | OtherUpdate

definition show_tg_user_id :: "tg_user_id \<Rightarrow> string" where
  "show_tg_user_id i = show_nat (unat i)"

section \<open>Handlers\<close>

definition main_state_handler :: "env \<Rightarrow> tg_message \<Rightarrow> ('z, unit) call" where
  "main_state_handler env msg =
     (case msg_from msg of
        None \<Rightarrow> throw (Message ''Message without user_id'')
      | Some user_id \<Rightarrow>
          (let text = (case msg_text msg of None \<Rightarrow> '''' | Some t \<Rightarrow> t);
               link = trim_matches (\<lambda>c. c = CHR '' '' \<or> c = CHR 0x22) text
           in qmark (\<lambda>e. Context ''Failed user link'' (Message (UserError_to_string e)))
                (in_db (users_link_user (postgres env) link (show_tg_user_id user_id))) (\<lambda>linked.
              qmark id
                (case linked of
                   Some user \<Rightarrow> telegram env (SendMessage (msg_chat msg)
                     (''Telegram successfully linked for user '' @ [CHR 0x27] @ u_email user @
                      [CHR 0x27]) [])
                 | None \<Rightarrow> telegram env (SendMessage (msg_chat msg)
                     ''User for this link code not found'' [])) (\<lambda>_.
              qmark id (telegram env (DeleteMessage (msg_chat msg) (msg_id msg))) (\<lambda>_.
              return ())))))"

definition handle_start_command :: "env \<Rightarrow> tg_message \<Rightarrow> ('z, unit) call" where
  "handle_start_command env msg =
     qmark id (telegram env (SendMessage (msg_chat msg) ''Hello, send your link code'' []))
       (\<lambda>_. return ())"

fun extended_lines :: "env \<Rightarrow> nat \<Rightarrow> Host list \<Rightarrow> ('z, string) call" where
  "extended_lines env idx [] = return []"
| "extended_lines env idx (host # hosts) =
     qmark id
       (case h_leased_until host of
          None \<Rightarrow> return (0 :: int)
        | Some until \<Rightarrow> qmark id (utc_now env) (\<lambda>now.
            return (num_minutes (of_timestamptz until - now)))) (\<lambda>minutes_left.
     qmark id (extended_lines env (Suc idx) hosts) (\<lambda>rest.
     return (host_line idx host @ '' - '' @ show_int minutes_left @ '' minutes left'' @ rest)))"

definition extend_user_hosts :: "env \<Rightarrow> string \<Rightarrow> i32 \<Rightarrow> ('z, string) call" where
  "extend_user_hosts env tg_handle hours =
     qmark (\<lambda>e. Context ''Failed to begin transaction'' (Sqlx e)) (in_db (begin_tx (postgres env))) (\<lambda>_.
     qmark (\<lambda>e. Context ''Failed to query user'' (Sqlx e))
       (in_db (tx_get_user_by_tg_handle (postgres env) tg_handle)) (\<lambda>found.
     case found of
       None \<Rightarrow> throw (Message ''User not found. Please link your Telegram account first.'')
     | Some user \<Rightarrow>
         qmark id (utc_now env) (\<lambda>now.
         qmark id (unwrap (date_add now EXPIRATION_NOTIFY_WINDOW)) (\<lambda>expiring_before.
         qmark (\<lambda>e. Context ''Failed to query expiring hosts'' (Sqlx e))
           (in_db (tx_get_expiring_hosts_for_user (postgres env) (u_id user) expiring_before))
           (\<lambda>expiring_hosts.
         if expiring_hosts = [] then return ''No expiring hosts to extend.''
         else
           (let host_ids = map lh_id expiring_hosts
            in qmark (\<lambda>e. Context ''Failed to extend lease'' (Sqlx e))
                 (in_db (tx_extend_hosts_lease (postgres env) host_ids hours)) (\<lambda>_.
               qmark (\<lambda>e. Context ''Failed to query updated hosts'' (Sqlx e))
                 (in_db (tx_get_hosts (postgres env) host_ids)) (\<lambda>updated_hosts.
               qmark (\<lambda>e. Context ''Failed to commit transaction'' (Sqlx e))
                 (in_db (commit_tx (postgres env))) (\<lambda>_.
               qmark id (extended_lines env 0 updated_hosts) (\<lambda>lines.
               return (''Lease extended by '' @ show_i32 hours @ '' hour(s).'' @
                 [CHR 0x0A, CHR 0x0A] @ ''Updated hosts:'' @ lines)))))))))))"

definition handle_extend_callback :: "env \<Rightarrow> callback_query \<Rightarrow> ('z, unit) call" where
  "handle_extend_callback env q =
     (let callback_data = (case cq_data q of None \<Rightarrow> '''' | Some d \<Rightarrow> d)
      in case strip_prefix EXTEND_CALLBACK_PREFIX callback_data of
           None \<Rightarrow> return ()
         | Some h \<Rightarrow>
             (let hours = (case parse_i32 h of None \<Rightarrow> 0 | Some n \<Rightarrow> n)
              in if sint hours \<le> 0
                 then qmark id (telegram env (AnswerCallbackQuery (cq_id q))) (\<lambda>_. return ())
                 else
                   handle (extend_user_hosts env (show_tg_user_id (cq_from q)) hours) (\<lambda>res.
                     (let response = (case res of
                            Inr msg \<Rightarrow> msg
                          | Inl err \<Rightarrow> ''Failed to extend lease: '' @ anyhow_to_string env err)
                      in qmark id (telegram env (AnswerCallbackQuery (cq_id q))) (\<lambda>_.
                         case cq_message q of
                           Some (Regular chat mid) \<Rightarrow>
                             handle (telegram env (EditMessageText chat mid response))
                               (\<lambda>_. return ())
                         | _ \<Rightarrow> return ())))))"

text \<open>The dispatch tree of \<open>build_tg_bot\<close>.\<close>

definition bot_dispatch :: "(string \<Rightarrow> bool) \<Rightarrow> env \<Rightarrow> tg_update \<Rightarrow> ('z, unit) call" where
  "bot_dispatch is_start env upd =
     (case upd of
        MessageUpdate msg \<Rightarrow>
          (if (case msg_text msg of None \<Rightarrow> False | Some t \<Rightarrow> is_start t)
           then handle_start_command env msg else main_state_handler env msg)
      | CallbackUpdate q \<Rightarrow> handle_extend_callback env q
      | OtherUpdate \<Rightarrow> return ())"

end
