(* ===== verification/Bot_Props.thy ===== *)
theory Bot_Props
  imports Bot Release_Props
begin

text \<open>
  The properties of the bot: what a press of an extension button commits, that no extension can
  overflow the range of time stamps, and that a linked account is the one that gets notified.
\<close>

section \<open>Which leases are extended\<close>

lemma expiring_for_user_Ok:
  assumes "tx_get_expiring_hosts_for_user srv u before s = (Ok ls, t)" and ok: "db_ok (working s)"
  shows "t = s\<lparr>calls := Suc (calls s)\<rparr>" and "lh_id ` set ls = ending (working s) before u"
proof -
  let ?d = "working s"
  define rows where "rows = by_lease_end srv (scan_hosts srv (calls s)
      (filter (\<lambda>h. h_user_id h = Some u \<and> (case h_leased_until h of
         None \<Rightarrow> False | Some t \<Rightarrow> t < to_timestamptz before)) (hosts_t ?d)))"
  have sub: "set rows \<subseteq> set (hosts_t ?d)" by (auto simp: rows_def)
  have all: "filter (\<lambda>h. h_user_id h \<noteq> None) rows = rows"
    by (auto simp: rows_def filter_id_conv)
  have ls: "ls = map (leased_of ?d) rows" and t: "t = s\<lparr>calls := Suc (calls s)\<rparr>"
    using assms(1) decode_join [OF ok sub] all unfolding tx_get_expiring_hosts_for_user_def rows_def
    by (auto elim!: query_OkE)
  show "t = s\<lparr>calls := Suc (calls s)\<rparr>" by (rule t)
  have "i \<in> h_id ` set rows \<longleftrightarrow> i \<in> ending ?d before u" for i
  proof
    assume "i \<in> h_id ` set rows"
    with row_holder_iff [OF ok] show "i \<in> ending ?d before u"
      by (auto simp: rows_def ending_def split: option.splits)
  next
    assume "i \<in> ending ?d before u"
    then obtain t where t: "holder ?d i = Some (u, t)" "t < to_timestamptz before"
      by (auto simp: ending_def)
    then obtain h where "host_row ?d i = Some h" by (auto simp: holder_def bind_eq_Some_conv)
    then have h: "h \<in> set (hosts_t ?d)" "h_id h = i" by (auto dest: host_row_Some)
    with t row_holder_iff [OF ok h(1), of u t]
    have "h_user_id h = Some u" "h_leased_until h = Some t" by auto
    with h t(2) show "i \<in> h_id ` set rows" by (auto simp: rows_def intro!: image_eqI [of _ _ h])
  qed
  then show "lh_id ` set ls = ending ?d before u" by (auto simp: ls image_image)
qed

lemma keeps_extended_lines [keeps_intros]: "keeps stored (extended_lines env i hs)"
  by (induction hs arbitrary: i) (auto intro!: keeps_intros split: option.split)

lemma extend_hosts_Ok:
  assumes "tx_extend_hosts_lease srv is hours s = (Ok x, t)"
  shows "working t = prolong_hosts is (sint hours) (working s)" "committed t = committed s"
  using assms unfolding tx_extend_hosts_lease_def by (auto elim!: execute_OkE split: if_splits)

lemma date_add_eq: "date_add t d = Some t' \<Longrightarrow> t' = t + d"
  by (auto simp: date_add_def split: if_splits)

lemma extend_tail:
  assumes "qmark f1 (in_db (tx_extend_hosts_lease srv is hours)) (\<lambda>_.
      qmark f2 (in_db (tx_get_hosts srv is)) (\<lambda>updated.
      qmark f3 (in_db (commit_tx srv)) (\<lambda>_. qmark id (extended_lines env 0 updated) (\<lambda>lines.
      return (g lines))))) w = (r, w')"
    and "working (db w) = d" "stored w = d"
  shows "stored w' = d \<or> stored w' = prolong_hosts is (sint hours) d"
proof -
  let ?d' = "prolong_hosts is (sint hours) d"
  note step = qmark_keeps [where P = stored, consumes 1, case_names _ go stop]
  show ?thesis
    using assms(1)
  proof (cases rule: step)
    case (go x w1)
    from go(1) obtain t where "tx_extend_hosts_lease srv is hours (db w) = (Ok x, t)" "w1 = w\<lparr>db := t\<rparr>"
      by (rule in_dbE)
    with extend_hosts_Ok [of srv "is" hours "db w" x t] assms(2,3)
    have w1: "working (db w1) = ?d'" "stored w1 = d" by simp_all
    from go(3) show ?thesis
    proof (cases rule: step)
      case (go hs w2)
      from go(1) obtain t where "tx_get_hosts srv is (db w1) = (Ok hs, t)" "w2 = w1\<lparr>db := t\<rparr>"
        by (rule in_dbE)
      with w1 have w2: "working (db w2) = ?d'" "stored w2 = d"
        unfolding tx_get_hosts_def by (auto elim!: query_OkE)
      from go(3) show ?thesis
      proof (cases rule: qmark_elim)
        case (Ok y w3)
        from Ok(1) obtain t where "commit_tx srv (db w2) = (Ok y, t)" "w3 = w2\<lparr>db := t\<rparr>"
          by (rule in_dbE)
        with w2 have "stored w3 = ?d'" by (auto elim!: commit_tx_cases)
        moreover have k: "keeps stored (qmark id (extended_lines env 0 hs) (\<lambda>lines. return (g lines)))"
          by (intro keeps_intros)
        ultimately show ?thesis using keepsD [OF k Ok(2)] by simp
      next
        case (Err e)
        from Err(1) obtain t where "commit_tx srv (db w2) = (Err e, t)" "w' = w2\<lparr>db := t\<rparr>"
          by (rule in_dbE)
        with w2 show ?thesis by (auto elim!: commit_tx_cases)
      qed (auto elim!: in_dbE)
    qed (use w1 in \<open>auto simp: tx_get_hosts_def intro: keeps_intros\<close>)
  qed (use assms(3) in \<open>auto simp: tx_extend_hosts_lease_def intro: keeps_intros\<close>)
qed

text \<open>What an extension does once the expiring hosts are known.\<close>

definition extend_found :: "env \<Rightarrow> i32 \<Rightarrow> LeasedHost list \<Rightarrow> ('z, string) call" where
  "extend_found env hours ls =
     (if ls = [] then return ''No expiring hosts to extend.''
      else
        (let host_ids = map lh_id ls
         in qmark (\<lambda>e. Context ''Failed to extend lease'' (Sqlx e))
              (in_db (tx_extend_hosts_lease (postgres env) host_ids hours)) (\<lambda>_.
            qmark (\<lambda>e. Context ''Failed to query updated hosts'' (Sqlx e))
              (in_db (tx_get_hosts (postgres env) host_ids)) (\<lambda>updated_hosts.
            qmark (\<lambda>e. Context ''Failed to commit transaction'' (Sqlx e))
              (in_db (commit_tx (postgres env))) (\<lambda>_.
            qmark id (extended_lines env 0 updated_hosts) (\<lambda>lines.
            return (''Lease extended by '' @ show_i32 hours @ '' hour(s).'' @
              [CHR 0x0A, CHR 0x0A] @ ''Updated hosts:'' @ lines)))))))"

lemma extend_user_hosts_found:
  "extend_user_hosts env tg hours =
     qmark (\<lambda>e. Context ''Failed to begin transaction'' (Sqlx e)) (in_db (begin_tx (postgres env))) (\<lambda>_.
     qmark (\<lambda>e. Context ''Failed to query user'' (Sqlx e))
       (in_db (tx_get_user_by_tg_handle (postgres env) tg)) (\<lambda>found.
     case found of
       None \<Rightarrow> throw (Message ''User not found. Please link your Telegram account first.'')
     | Some user \<Rightarrow>
         qmark id (utc_now env) (\<lambda>now.
         qmark id (unwrap (date_add now EXPIRATION_NOTIFY_WINDOW)) (\<lambda>before.
         qmark (\<lambda>e. Context ''Failed to query expiring hosts'' (Sqlx e))
           (in_db (tx_get_expiring_hosts_for_user (postgres env) (u_id user) before))
           (extend_found env hours)))))"
  by (simp only: extend_user_hosts_def extend_found_def [abs_def])

lemma extend_found_stored:
  assumes "extend_found env hours ls w = (r, w')" and "working (db w) = d" "stored w = d"
  shows "stored w' = d \<or> stored w' = prolong_hosts (map lh_id ls) (sint hours) d"
proof (cases "ls = []")
  case False
  with assms(1) extend_tail [OF _ assms(2,3)] show ?thesis by (simp add: extend_found_def Let_def)
qed (use assms in \<open>simp add: extend_found_def return_def\<close>)

lemma extend_expiring_stored:
  assumes "qmark f (in_db (tx_get_expiring_hosts_for_user (postgres env) u before))
      (extend_found env hours) w = (r, w')"
    and w: "working (db w) = d" "stored w = d" and ok: "db_ok d"
  shows "stored w' = d \<or>
    (\<exists>is. set is = ending d before u \<and> stored w' = prolong_hosts is (sint hours) d)"
  using assms(1)
proof (cases rule: qmark_keeps [where P = stored, consumes 1, case_names _ go stop])
  case (go ls w1)
  from go(1) obtain t where t: "w1 = w\<lparr>db := t\<rparr>"
      "tx_get_expiring_hosts_for_user (postgres env) u before (db w) = (Ok ls, t)"
    by (auto elim!: in_dbE)
  note ls = expiring_for_user_Ok [OF t(2), unfolded w(1), OF ok]
  have "working (db w1) = d" "stored w1 = d" using t(1) ls(1) w by auto
  from extend_found_stored [OF go(3) this] show ?thesis
    using ls(2) by (metis list.set_map)
qed (use w in \<open>auto simp: tx_get_expiring_hosts_for_user_def intro: keeps_intros\<close>)

lemma extend_user_hosts_stored:
  assumes "extend_user_hosts env tg hours w = (r, w')" and ok: "db_ok (stored w)"
  shows "stored w' = stored w \<or>
    (\<exists>x is. x \<in> set (users_t (stored w)) \<and> u_tg_handle x = Some tg \<and>
       set is = expiring (stored w) (clock env (clock_reads w)) (u_id x) \<and>
       stored w' = prolong_hosts is (sint hours) (stored w))"
proof -
  let ?d = "stored w" and ?now = "clock env (clock_reads w)"
  note step = qmark_keeps [where P = stored, consumes 1, case_names _ go stop]
  show ?thesis
    using assms(1) unfolding extend_user_hosts_found
  proof (cases rule: step)
    case (go a w0)
    from go(1) have w0: "working (db w0) = ?d" "stored w0 = ?d" "clock_reads w0 = clock_reads w"
      by (auto elim!: in_dbE begin_tx_OkE)
    from go(3) show ?thesis
    proof (cases rule: step)
      case (go found w1)
      from go(1) obtain k where found: "found = first_row (scan_users (postgres env) k
            (filter (\<lambda>u. u_tg_handle u = Some tg) (users_t ?d)))"
          and w1: "working (db w1) = ?d" "stored w1 = ?d" "clock_reads w1 = clock_reads w"
        using w0 by (auto simp: tx_get_user_by_tg_handle_def elim!: in_dbE query_OkE)
      show ?thesis
      proof (cases "found = None \<or> date_add ?now EXPIRATION_NOTIFY_WINDOW = None")
        case True
        with go(3) w1 show ?thesis
          by (auto simp: throw_def qmark_def [of id] utc_now_def unwrap_def split: option.splits)
      next
        case False
        then obtain x before where Some: "found = Some x" "date_add ?now EXPIRATION_NOTIFY_WINDOW = Some before"
          by auto
        from first_row_Some [of _ x] found Some(1)
        have x: "x \<in> set (users_t ?d)" "u_tg_handle x = Some tg" by fastforce+
        from Some go(3) w1(3) obtain f where "qmark f
            (in_db (tx_get_expiring_hosts_for_user (postgres env) (u_id x) before))
            (extend_found env hours) (w1\<lparr>clock_reads := Suc (clock_reads w1)\<rparr>) = (r, w')"
          by (simp add: qmark_def [of id "utc_now env"] qmark_def [of id "unwrap a" for a]
              utc_now_def unwrap_def)
        from extend_expiring_stored [OF this _ _ ok] w1(1,2) show ?thesis
          using x date_add_eq [OF Some(2)] by (auto simp: expiring_def)
      qed
    qed (use w0 in \<open>auto simp: tx_get_user_by_tg_handle_def intro: keeps_intros\<close>)
  qed (auto intro: keeps_intros)
qed

lemma keeps_answer: "keeps stored (qmark id (telegram env req) (\<lambda>_. return ()))"
  by (intro keeps_intros)

lemma keeps_response:
  "keeps stored (qmark id (telegram env (AnswerCallbackQuery i)) (\<lambda>_.
     case m of
       Some (Regular chat mid) \<Rightarrow> handle (telegram env (EditMessageText chat mid response)) (\<lambda>_. return ())
     | _ \<Rightarrow> return ()))"
  by (auto intro!: keeps_intros split: option.split callback_message.split)

lemma handle_extend_stored:
  assumes "handle_extend_callback env q w = (r, w')" and ok: "db_ok (stored w)"
  shows "stored w' = stored w \<or>
    (\<exists>x is h hours. x \<in> set (users_t (stored w)) \<and>
       u_tg_handle x = Some (show_tg_user_id (cq_from q)) \<and>
       cq_data q = Some (EXTEND_CALLBACK_PREFIX @ h) \<and> parse_i32 h = Some hours \<and> 0 < sint hours \<and>
       set is = expiring (stored w) (clock env (clock_reads w)) (u_id x) \<and>
       stored w' = prolong_hosts is (sint hours) (stored w))"
proof -
  let ?data = "case cq_data q of None \<Rightarrow> '''' | Some d \<Rightarrow> d"
  show ?thesis
  proof (cases "strip_prefix EXTEND_CALLBACK_PREFIX ?data")
    case None
    with assms(1) show ?thesis by (simp add: handle_extend_callback_def return_def)
  next
    case (Some h)
    then have "?data = EXTEND_CALLBACK_PREFIX @ h" by (simp add: strip_prefix_Some)
    then have data: "cq_data q = Some (EXTEND_CALLBACK_PREFIX @ h)"
      by (simp add: EXTEND_CALLBACK_PREFIX_def split: option.splits)
    show ?thesis
    proof (cases "\<exists>hours. parse_i32 h = Some hours \<and> 0 < sint hours")
      case False
      then have "sint (case parse_i32 h of None \<Rightarrow> 0 | Some n \<Rightarrow> n) \<le> 0"
        by (auto split: option.split)
      with Some assms(1) have "qmark id (telegram env (AnswerCallbackQuery (cq_id q)))
          (\<lambda>_. return ()) w = (r, w')" by (simp add: handle_extend_callback_def Let_def)
      with keeps_answer show ?thesis by (rule disjI1 [OF keepsD])
    next
      case True
      then obtain hours where hours: "parse_i32 h = Some hours" "0 < sint hours" by blast
      from Some hours assms(1)
      obtain r1 w1 res r2 where w1:
          "extend_user_hosts env (show_tg_user_id (cq_from q)) hours w = (r1, w1)"
          "w' = w1 \<or> qmark id (telegram env (AnswerCallbackQuery (cq_id q))) (\<lambda>_.
             case cq_message q of
               Some (Regular chat mid) \<Rightarrow> handle (telegram env (EditMessageText chat mid res)) (\<lambda>_. return ())
             | _ \<Rightarrow> return ()) w1 = (r2, w')"
        by (auto simp: handle_extend_callback_def Let_def elim!: handle_elim)
      then have "stored w' = stored w1" using keepsD [OF keeps_response] by blast
      with extend_user_hosts_stored [OF w1(1) ok] data hours show ?thesis by auto
    qed
  qed
qed

section \<open>Properties\<close>

text \<open>
  C24: pressing an extension button changes at most leases that expire soon of one user whose
  Telegram account pressed it: they end the stated positive number of hours later, everything
  else stays as it was, whatever the data of the query and the answers of the server.
\<close>

theorem extend_only_own_expiring:
  assumes "handle_extend_callback env q w = (r, w')" and ok: "db_ok (stored w)"
    and "clock env (clock_reads w) = now"
  shows "db_ok (stored w') \<and> (stored w' = stored w \<or>
    (\<exists>x h hours. x \<in> set (users_t (stored w)) \<and>
       u_tg_handle x = Some (show_tg_user_id (cq_from q)) \<and>
       cq_data q = Some (EXTEND_CALLBACK_PREFIX @ h) \<and> parse_i32 h = Some hours \<and> 0 < sint hours \<and>
       (\<forall>i. holder (stored w') i =
         (if i \<in> expiring (stored w) now (u_id x)
          then map_option (map_prod id (\<lambda>t. t + sint hours * hour_us)) (holder (stored w) i)
          else holder (stored w) i))))"
  using handle_extend_stored [OF assms(1,2)]
proof (elim disjE exE conjE)
  fix x "is" h hours
  assume x: "x \<in> set (users_t (stored w))" "u_tg_handle x = Some (show_tg_user_id (cq_from q))"
      "cq_data q = Some (EXTEND_CALLBACK_PREFIX @ h)" "parse_i32 h = Some hours" "0 < sint hours"
    and ids: "set is = expiring (stored w) (clock env (clock_reads w)) (u_id x)"
    and w': "stored w' = prolong_hosts is (sint hours) (stored w)"
  have "\<forall>i. holder (stored w') i =
      (if i \<in> expiring (stored w) now (u_id x)
       then map_option (map_prod id (\<lambda>t. t + sint hours * hour_us)) (holder (stored w) i)
       else holder (stored w) i)"
    using ids assms(3) by (simp add: w' holder_prolong)
  moreover have "db_ok (stored w')" unfolding w' using ok by (rule db_ok_prolong)
  ultimately show ?thesis using x by blast
qed (use ok in simp)

definition bob_linked :: pg where
  "bob_linked = sample_pg\<lparr>committed := set_tg_handle (UserId 2) ''43'' sample_db\<rparr>"

lemma db_ok_bob_linked: "db_ok (committed bob_linked)"
  by (simp add: bob_linked_def db_ok_set_tg)

definition press :: callback_query where
  "press = \<lparr>cq_id = ''q'', cq_from = 43, cq_message = Some (Regular 43 7),
     cq_data = Some ''extend:8''\<rparr>"

theorem extend_only_own_expiring_witness:
  "\<exists>r w' x h hours. handle_extend_callback sample_env press (sample_world bob_linked) = (r, w') \<and>
     stored w' \<noteq> committed bob_linked \<and> x \<in> set (users_t (committed bob_linked)) \<and>
     u_tg_handle x = Some (show_tg_user_id (cq_from press)) \<and>
     cq_data press = Some (EXTEND_CALLBACK_PREFIX @ h) \<and> parse_i32 h = Some hours \<and>
     (\<forall>i. holder (stored w') i =
       (if i \<in> expiring (committed bob_linked) 0 (u_id x)
        then map_option (map_prod id (\<lambda>t. t + sint hours * hour_us)) (holder (committed bob_linked) i)
        else holder (committed bob_linked) i))"
proof -
  let ?w = "sample_world bob_linked"
  obtain r w' where run: "handle_extend_callback sample_env press ?w = (r, w')"
    by (cases "handle_extend_callback sample_env press ?w")
  have w: "stored ?w = committed bob_linked" "clock sample_env (clock_reads ?w) = 0" by simp_all
  have "hosts_t (stored (snd (handle_extend_callback sample_env press ?w))) \<noteq>
      hosts_t (committed bob_linked)" by code_simp
  then have changed: "stored w' \<noteq> committed bob_linked" unfolding run snd_conv by (rule contrapos_nn) simp
  from extend_only_own_expiring [OF run _ w(2), unfolded w(1), OF db_ok_bob_linked] changed run
  show ?thesis by blast
qed

text \<open>
  A query whose data is not the prefix with a positive number of hours (no data, another
  prefix, no number, zero, negative, or out of range) changes nothing in the database and is at
  most acknowledged.
\<close>

theorem extend_rejects_bad_data:
  assumes "\<forall>h hours. cq_data q = Some (EXTEND_CALLBACK_PREFIX @ h) \<longrightarrow> parse_i32 h = Some hours \<longrightarrow>
      sint hours \<le> 0"
    and run: "handle_extend_callback env q w = (r, w')"
  shows "db w' = db w \<and> (outbox w' = outbox w \<or> outbox w' = outbox w @ [AnswerCallbackQuery (cq_id q)])"
proof (cases "strip_prefix EXTEND_CALLBACK_PREFIX (case cq_data q of None \<Rightarrow> '''' | Some d \<Rightarrow> d)")
  case None
  with run show ?thesis by (simp add: handle_extend_callback_def return_def)
next
  case (Some h)
  then have "(case cq_data q of None \<Rightarrow> '''' | Some d \<Rightarrow> d) = EXTEND_CALLBACK_PREFIX @ h"
    by (simp add: strip_prefix_Some)
  then have "cq_data q = Some (EXTEND_CALLBACK_PREFIX @ h)"
    by (simp add: EXTEND_CALLBACK_PREFIX_def split: option.splits)
  with assms(1) have "sint (case parse_i32 h of None \<Rightarrow> 0 | Some n \<Rightarrow> n) \<le> 0"
    by (auto split: option.split)
  with Some run have "qmark id (telegram env (AnswerCallbackQuery (cq_id q)))
      (\<lambda>_. return ()) w = (r, w')" by (simp add: handle_extend_callback_def Let_def)
  then show ?thesis
  proof (cases rule: qmark_elim)
    case (Ok a t)
    from Ok(1) show ?thesis by (rule telegram_cases) (use Ok(2) in \<open>simp_all add: return_def\<close>)
  next
    case (Err e)
    from Err(1) show ?thesis by (rule telegram_cases) simp_all
  next
    case Panic
    from Panic(1) show ?thesis by (rule telegram_cases) simp_all
  qed
qed

theorem extend_rejects_bad_data_witness:
  "db (snd (handle_extend_callback sample_env (press\<lparr>cq_data := Some ''extend:-8''\<rparr>)
     (sample_world bob_linked))) = bob_linked"
proof -
  let ?q = "press\<lparr>cq_data := Some ''extend:-8''\<rparr>"
  have "case parse_i32 ''-8'' of None \<Rightarrow> False | Some n \<Rightarrow> sint n \<le> 0" by code_simp
  moreover have "Some ''extend:-8'' = Some (EXTEND_CALLBACK_PREFIX @ h) \<Longrightarrow> h = ''-8''" for h
    by (simp add: EXTEND_CALLBACK_PREFIX_def)
  ultimately have small: "\<forall>h hours. cq_data ?q = Some (EXTEND_CALLBACK_PREFIX @ h) \<longrightarrow>
      parse_i32 h = Some hours \<longrightarrow> sint hours \<le> 0"
    by (simp add: EXTEND_CALLBACK_PREFIX_def split: option.splits)
  obtain r w' where run: "handle_extend_callback sample_env ?q (sample_world bob_linked) = (r, w')"
    by (cases "handle_extend_callback sample_env ?q (sample_world bob_linked)")
  have "db w' = db (sample_world bob_linked)"
    using extend_rejects_bad_data [of ?q, OF small run] by blast
  then show ?thesis unfolding run by simp
qed

section \<open>Extensions cannot overflow\<close>

lemma extended_lines_Ok:
  "\<exists>text w'. extended_lines env i hs w = (Ok text, w') \<and> db w' = db w \<and> outbox w' = outbox w"
proof (induction hs arbitrary: i w)
  case (Cons h hs)
  show ?case
  proof (cases "h_leased_until h")
    case None
    with Cons [of "Suc i" w] show ?thesis by (auto simp: qmark_def return_def)
  next
    case (Some t)
    with Cons [of "Suc i" "w\<lparr>clock_reads := Suc (clock_reads w)\<rparr>"] show ?thesis
      by (auto simp: qmark_def return_def utc_now_def)
  qed
qed (simp add: return_def)

lemma extension_in_range:
  assumes "t < to_timestamptz (now + EXPIRATION_NOTIFY_WINDOW)" "timestamptz_ok t"
    and "0 \<le> now" "now \<le> 10 ^ 21" and "0 < hours" "hours \<le> 2147483647"
  shows "timestamptz_ok (t + hours * hour_us)"
proof -
  have "to_timestamptz (now + EXPIRATION_NOTIFY_WINDOW) \<le> 10 ^ 18 + 1800000000"
    using assms(3,4) by (simp add: to_timestamptz_def towards_zero_def EXPIRATION_NOTIFY_WINDOW_def
        time_units)
  moreover have "0 \<le> hours * hour_us" "hours * hour_us \<le> 2147483647 * hour_us"
    using assms(5,6) by (simp_all add: hour_us_def)
  ultimately show ?thesis
    using assms(1,2) by (simp add: timestamptz_ok_def hour_us_def)
qed

lemma window_in_range:
  "0 \<le> now \<Longrightarrow> now \<le> 10 ^ 21 \<Longrightarrow>
   date_add now EXPIRATION_NOTIFY_WINDOW = Some (now + EXPIRATION_NOTIFY_WINDOW)"
  by (simp add: date_add_def EXPIRATION_NOTIFY_WINDOW_def MIN_UTC_def MAX_UTC_def time_units)

lemma expiring_for_user_fine:
  assumes "fine srv" and ok: "db_ok (working s)"
  obtains ls where "tx_get_expiring_hosts_for_user srv u before s =
    (Ok ls, s\<lparr>calls := Suc (calls s)\<rparr>)"
proof -
  let ?rows = "by_lease_end srv (scan_hosts srv (calls s)
      (filter (\<lambda>h. h_user_id h = Some u \<and> (case h_leased_until h of
         None \<Rightarrow> False | Some t \<Rightarrow> t < to_timestamptz before)) (hosts_t (working s))))"
  have "set ?rows \<subseteq> set (hosts_t (working s))" by auto
  from decode_join [OF ok this] that assms(1) show thesis
    by (simp add: tx_get_expiring_hosts_for_user_def query_fine)
qed

lemma first_row_unique:
  assumes "\<forall>y \<in> set xs. y = x" "xs \<noteq> []"
  shows "first_row xs = Some x"
  using assms by (cases xs) (auto simp: first_row_def)

lemma extension_fits:
  assumes ok: "db_ok d" and ids: "set is = expiring d now u" and hours: "0 < sint (hours :: i32)"
    and now: "0 \<le> now" "now \<le> 10 ^ 21"
    and leases: "\<forall>i u t. holder d i = Some (u, t) \<longrightarrow> timestamptz_ok t"
  shows "\<not> (\<exists>h \<in> set (hosts_t d). h_id h \<in> set is \<and>
    (case h_leased_until h of None \<Rightarrow> False | Some t \<Rightarrow> \<not> timestamptz_ok (t + sint hours * hour_us)))"
proof
  assume "\<exists>h \<in> set (hosts_t d). h_id h \<in> set is \<and>
    (case h_leased_until h of None \<Rightarrow> False | Some t \<Rightarrow> \<not> timestamptz_ok (t + sint hours * hour_us))"
  then obtain h where h: "h \<in> set (hosts_t d)" "h_id h \<in> expiring d now u" and
    bad: "case h_leased_until h of None \<Rightarrow> False | Some t \<Rightarrow> \<not> timestamptz_ok (t + sint hours * hour_us)"
    unfolding ids by blast
  from h(2) obtain t where t: "holder d (h_id h) = Some (u, t)"
    "t < to_timestamptz (now + EXPIRATION_NOTIFY_WINDOW)"
    by (auto simp: expiring_def ending_def)
  have "h_leased_until h = Some t" using row_holder_iff [OF ok h(1)] t(1) by blast
  moreover have "timestamptz_ok (t + sint hours * hour_us)"
    by (rule extension_in_range [OF t(2)]) (use t(1) leases now hours sint_i32_bounds in auto)
  ultimately show False using bad by simp
qed

lemma extend_found_run:
  fixes w :: "'z world_scheme"
  assumes "fine (postgres env)" and w: "working (db w) = d" "stored w = d"
    and fits: "\<not> (\<exists>h \<in> set (hosts_t d). h_id h \<in> set (map lh_id ls) \<and>
      (case h_leased_until h of None \<Rightarrow> False | Some t \<Rightarrow> \<not> timestamptz_ok (t + sint hours * hour_us)))"
  shows "\<exists>text w'. extend_found env hours ls w = (Ok text, w') \<and> outbox w' = outbox w \<and>
    stored w' = prolong_hosts (map lh_id ls) (sint hours) d"
proof (cases "ls = []")
  case True
  with w show ?thesis by (simp add: extend_found_def return_def prolong_hosts_def)
next
  case False
  let ?srv = "postgres env" and ?is = "map lh_id ls" and ?d' = "prolong_hosts (map lh_id ls) (sint hours) d"
  obtain w4 where w4: "in_db (tx_extend_hosts_lease ?srv ?is hours) w = (Ok (), w4)"
      "working (db w4) = ?d'" "outbox w4 = outbox w"
    using assms(1) w fits by (simp add: in_db_def tx_extend_hosts_lease_def execute_fine)
  obtain hs w5 where w5: "in_db (tx_get_hosts ?srv ?is) w4 = (Ok hs, w5)"
      "working (db w5) = ?d'" "outbox w5 = outbox w"
    using assms(1) w4 by (simp add: in_db_def tx_get_hosts_def query_fine)
  obtain w6 where w6: "in_db (commit_tx ?srv) w5 = (Ok (), w6)" "stored w6 = ?d'" "outbox w6 = outbox w"
    using assms(1) w5 by (simp add: in_db_def commit_tx_fine)
  obtain lines w7 where w7: "extended_lines env 0 hs w6 = (Ok lines, w7)" "db w7 = db w6"
      "outbox w7 = outbox w6"
    using extended_lines_Ok by blast
  with False w4 w5 w6 show ?thesis by (simp add: extend_found_def Let_def return_def)
qed

lemma extend_user_hosts_run:
  fixes w :: "'z world_scheme"
  assumes "fine (postgres env)" and ok: "db_ok (stored w)"
    and x: "x \<in> set (users_t (stored w))" "u_tg_handle x = Some tg"
      "\<forall>y \<in> set (users_t (stored w)). u_tg_handle y = Some tg \<longrightarrow> y = x"
    and hours: "0 < sint hours"
    and now: "clock env (clock_reads w) = now" "0 \<le> now" "now \<le> 10 ^ 21"
    and leases: "\<forall>i u t. holder (stored w) i = Some (u, t) \<longrightarrow> timestamptz_ok t"
  shows "\<exists>text w' is. extend_user_hosts env tg hours w = (Ok text, w') \<and>
    outbox w' = outbox w \<and> set is = expiring (stored w) now (u_id x) \<and>
    stored w' = prolong_hosts is (sint hours) (stored w)"
proof -
  let ?d = "stored w" and ?before = "now + EXPIRATION_NOTIFY_WINDOW" and ?srv = "postgres env"
  obtain w0 where w0: "in_db (begin_tx ?srv) w = (Ok (), w0)" "working (db w0) = ?d"
      "stored w0 = ?d" "outbox w0 = outbox w" "clock_reads w0 = clock_reads w"
    using assms(1) by (simp add: in_db_def begin_tx_fine)
  have user: "first_row (scan_users ?srv k
      (filter (\<lambda>u. u_tg_handle u = Some tg) (users_t ?d))) = Some x" for k
  proof (rule first_row_unique)
    show "\<forall>y \<in> set (scan_users ?srv k (filter (\<lambda>u. u_tg_handle u = Some tg) (users_t ?d))). y = x"
      using x(3) by simp
    have "x \<in> set (filter (\<lambda>u. u_tg_handle u = Some tg) (users_t ?d))" using x(1,2) by simp
    then show "scan_users ?srv k (filter (\<lambda>u. u_tg_handle u = Some tg) (users_t ?d)) \<noteq> []"
      by (metis empty_iff empty_set row_order_Nil(4))
  qed
  obtain w1 where w1: "in_db (tx_get_user_by_tg_handle ?srv tg) w0 = (Ok (Some x), w1)"
      "working (db w1) = ?d" "stored w1 = ?d" "outbox w1 = outbox w" "clock_reads w1 = clock_reads w"
    using assms(1) w0 user by (simp add: in_db_def tx_get_user_by_tg_handle_def query_fine)
  obtain w2 where w2: "(utc_now env :: ('z, time) call) w1 = (Ok now, w2)"
      "(unwrap (date_add now EXPIRATION_NOTIFY_WINDOW) :: ('z, time) call) w2 = (Ok ?before, w2)"
      "working (db w2) = ?d" "stored w2 = ?d" "outbox w2 = outbox w"
    using w1 now window_in_range by (simp add: utc_now_def unwrap_def)
  have "db_ok (working (db w2))" using ok w2(3) by simp
  from expiring_for_user_fine [OF assms(1) this] obtain ls where
    q: "tx_get_expiring_hosts_for_user ?srv (u_id x) ?before (db w2) =
      (Ok ls, (db w2)\<lparr>calls := Suc (calls (db w2))\<rparr>)" by blast
  then obtain w3 where w3: "in_db (tx_get_expiring_hosts_for_user ?srv (u_id x) ?before) w2 = (Ok ls, w3)"
      "working (db w3) = ?d" "stored w3 = ?d" "outbox w3 = outbox w"
    using w2 by (simp add: in_db_def)
  have "set (map lh_id ls) = expiring ?d now (u_id x)"
    using expiring_for_user_Ok(2) [OF q] w2(3) ok by (simp add: expiring_def)
  moreover from extend_found_run [OF assms(1) w3(2,3)] extension_fits [OF ok this hours now(2,3) leases]
  obtain msg w4 where "extend_found env hours ls w3 = (Ok msg, w4)" "outbox w4 = outbox w3"
    "stored w4 = prolong_hosts (map lh_id ls) (sint hours) ?d" by blast
  moreover from this have "extend_user_hosts env tg hours w = (Ok msg, w4)"
    by (simp add: extend_user_hosts_found w0 w1 w2 w3)
  ultimately show ?thesis using w3(4) by metis
qed

text \<open>
  C25: an extension always goes through: with a server that answers and Telegram delivering, when
  the handle belongs to one user and the stored lease ends are valid, any positive number of
  hours up to the maximum of an \<open>i32\<close> extends all his leases that expire soon; adding the hours
  cannot leave the range of time stamps, since only leases about to end are extended.
\<close>

theorem extend_cannot_overflow:
  assumes "fine (postgres env)" "delivers env" and ok: "db_ok (stored w)"
    and "x \<in> set (users_t (stored w))" "u_tg_handle x = Some (show_tg_user_id (cq_from q))"
      "\<forall>y \<in> set (users_t (stored w)). u_tg_handle y = Some (show_tg_user_id (cq_from q)) \<longrightarrow> y = x"
    and data: "cq_data q = Some (EXTEND_CALLBACK_PREFIX @ h)" "parse_i32 h = Some hours" "0 < sint hours"
    and "clock env (clock_reads w) = now" "0 \<le> now" "now \<le> 10 ^ 21"
    and "\<forall>i u t. holder (stored w) i = Some (u, t) \<longrightarrow> timestamptz_ok t"
  shows "\<exists>w'. handle_extend_callback env q w = (Ok (), w') \<and>
    (\<forall>i. holder (stored w') i =
      (if i \<in> expiring (stored w) now (u_id x)
       then map_option (map_prod id (\<lambda>t. t + sint hours * hour_us)) (holder (stored w) i)
       else holder (stored w) i))"
proof -
  obtain msg w1 "is" where w1: "extend_user_hosts env (show_tg_user_id (cq_from q)) hours w = (Ok msg, w1)"
      "set is = expiring (stored w) now (u_id x)"
      "stored w1 = prolong_hosts is (sint hours) (stored w)"
    using extend_user_hosts_run [OF assms(1,3-6,9-13)] by blast
  let ?answer = "qmark id (telegram env (AnswerCallbackQuery (cq_id q))) (\<lambda>_.
      case cq_message q of
        Some (Regular chat mid) \<Rightarrow> handle (telegram env (EditMessageText chat mid msg)) (\<lambda>_. return ())
      | _ \<Rightarrow> return ())"
  have "\<exists>w'. ?answer w1 = (Ok (), w') \<and> db w' = db w1"
    using assms(2) by (auto simp: qmark_def handle_def fine_simps return_def
        split: option.split callback_message.split)
  moreover have "handle_extend_callback env q w = ?answer w1"
    using data w1(1)
    by (simp add: handle_extend_callback_def handle_def Let_def
        cong: option.case_cong callback_message.case_cong)
  ultimately show ?thesis using w1(2,3) by (auto simp: holder_prolong)
qed

theorem extend_cannot_overflow_witness:
  "\<exists>w'. handle_extend_callback sample_env press (sample_world bob_linked) = (Ok (), w') \<and>
    holder (stored w') (HostId 3) = Some (UserId 2, 500 + 8 * hour_us)"
proof -
  let ?w = "sample_world bob_linked" and ?bob = "bob\<lparr>u_tg_handle := Some ''43''\<rparr>"
  have shown: "show_tg_user_id (cq_from press) = ''43''" by code_simp
  have "case parse_i32 ''8'' of None \<Rightarrow> False | Some n \<Rightarrow> sint n = 8" by code_simp
  then obtain hours where hours: "parse_i32 ''8'' = Some hours" "sint hours = 8"
    by (cases "parse_i32 ''8''") auto
  have users: "users_t (committed bob_linked) = [alice, ?bob]"
    by (simp add: bob_linked_def set_tg_handle_def sample_db_def alice_def bob_def)
  have hosts: "hosts_t (committed bob_linked) = hosts_t sample_db"
    by (simp add: bob_linked_def set_tg_handle_def)
  have books: "holder (stored ?w) i = (if i = HostId 3 then Some (UserId 2, 500) else None)" for i
    by (simp add: holder_def host_row_def hosts) (simp add: sample_db_def sample_host_def row_holder_def)
  have three: "HostId 3 \<in> expiring (stored ?w) 0 (u_id ?bob)"
    using books by (simp add: expiring_def ending_def bob_def EXPIRATION_NOTIFY_WINDOW_def
        to_timestamptz_def towards_zero_def time_units)
  have "\<exists>w'. handle_extend_callback sample_env press ?w = (Ok (), w') \<and>
    (\<forall>i. holder (stored w') i =
      (if i \<in> expiring (stored ?w) 0 (u_id ?bob)
       then map_option (map_prod id (\<lambda>t. t + sint hours * hour_us)) (holder (stored ?w) i)
       else holder (stored ?w) i))"
  proof (rule extend_cannot_overflow)
    show "cq_data press = Some (EXTEND_CALLBACK_PREFIX @ ''8'')"
      by (simp add: press_def EXTEND_CALLBACK_PREFIX_def)
    show "\<forall>i u t. holder (stored ?w) i = Some (u, t) \<longrightarrow> timestamptz_ok t"
      unfolding books by (simp add: timestamptz_ok_def)
  qed (simp_all add: db_ok_bob_linked users shown hours alice_def bob_def)
  then obtain w' where w': "handle_extend_callback sample_env press ?w = (Ok (), w')"
    "holder (stored w') (HostId 3) =
      map_option (map_prod id (\<lambda>t. t + sint hours * hour_us)) (holder (stored ?w) (HostId 3))"
    using three by auto
  then show ?thesis unfolding books hours(2) by simp
qed

section \<open>Linking\<close>

lemma parse_show_tg:
  assumes "unat i < 9223372036854775808"
  shows "parse_i64 (show_tg_user_id i) = Some (word_of_int (uint i))"
proof -
  have "uint i = int (unat i)" by simp
  then have show_i: "show_tg_user_id i = show_int (uint i)"
    by (simp add: show_int_def show_tg_user_id_def del: uint_nat)
  have le: "uint i \<le> 9223372036854775807" "0 \<le> uint i"
    using assms \<open>uint i = int (unat i)\<close> by linarith+
  have "parse_int (-9223372036854775808) 9223372036854775807 (show_int (uint i)) = Some (uint i)"
    by (rule parse_int_show_int) (use le in linarith)+
  then show ?thesis by (simp only: parse_i64_def show_i option.map)
qed

lemma set_tg_handle_user:
  assumes "y \<in> set (users_t (set_tg_handle u tg d))" and "u_id y = u"
  shows "u_tg_handle y = Some tg"
proof -
  from assms(1) have "y \<in> (\<lambda>x. if u_id x = u then x\<lparr>u_tg_handle := Some tg\<rparr> else x) ` set (users_t d)"
    by (simp add: set_tg_handle_def)
  then obtain x where "y = (if u_id x = u then x\<lparr>u_tg_handle := Some tg\<rparr> else x)" by blast
  with assms(2) show ?thesis by (simp split: if_splits)
qed

lemma two_requests_no_panic:
  "qmark id (telegram env a) (\<lambda>_. qmark id (telegram env b) (\<lambda>_. return ())) v \<noteq> (Panic, v')"
  by (simp add: qmark_def telegram_def return_def Let_def split: delivery.split)

text \<open>The answer to a message with a link code touches no table and does not panic.\<close>

definition link_answer :: "env \<Rightarrow> tg_message \<Rightarrow> User option \<Rightarrow> ('z, unit) call" where
  "link_answer env msg linked = qmark id
      (case linked of
         Some user \<Rightarrow> telegram env (SendMessage (msg_chat msg)
           (''Telegram successfully linked for user '' @ [CHR 0x27] @ u_email user @ [CHR 0x27]) [])
       | None \<Rightarrow> telegram env (SendMessage (msg_chat msg) ''User for this link code not found'' []))
      (\<lambda>_. qmark id (telegram env (DeleteMessage (msg_chat msg) (msg_id msg))) (\<lambda>_. return ()))"

lemma link_answer_quiet:
  assumes "link_answer env msg linked a = (r, b)"
  shows "stored b = stored a" and "r \<noteq> Panic"
proof -
  have "keeps stored (link_answer env msg linked)"
    unfolding link_answer_def by (auto intro!: keeps_intros split: option.split)
  then show "stored b = stored a" using assms by (rule keepsD)
  show "r \<noteq> Panic"
  proof
    assume "r = Panic"
    with assms show False
      unfolding link_answer_def by (cases linked) (simp_all only: option.case two_requests_no_panic)
  qed
qed

lemma main_state_handler_link:
  assumes "main_state_handler env msg w = (r, w')" and "msg_from msg = Some i"
    and "link = trim_matches (\<lambda>c. c = CHR '' '' \<or> c = CHR 0x22)
      (case msg_text msg of None \<Rightarrow> '''' | Some t \<Rightarrow> t)"
  obtains r1 t where "users_link_user (postgres env) link (show_tg_user_id i) (db w) = (r1, t)"
    "stored w' = committed t" "r = Panic \<longrightarrow> r1 = Panic" "r = Ok () \<longrightarrow> (\<exists>x. r1 = Ok x)"
proof -
  have "qmark (\<lambda>e. Context ''Failed user link'' (Message (UserError_to_string e)))
      (in_db (users_link_user (postgres env) link (show_tg_user_id i))) (link_answer env msg) w = (r, w')"
    using assms by (simp add: main_state_handler_def link_answer_def [abs_def] Let_def)
  then obtain r1 w1 where w1: "in_db (users_link_user (postgres env) link (show_tg_user_id i)) w = (r1, w1)"
      and after: "stored w' = stored w1" "r = Panic \<longrightarrow> r1 = Panic" "r = Ok () \<longrightarrow> (\<exists>x. r1 = Ok x)"
    by (rule qmark_elim) (use link_answer_quiet in fastforce)+
  from w1 obtain t where "users_link_user (postgres env) link (show_tg_user_id i) (db w) = (r1, t)"
    "w1 = w\<lparr>db := t\<rparr>" by (rule in_dbE)
  with after show thesis by (intro that) simp_all
qed

text \<open>
  C26: linking closes the circle with the notifier: a message that carries a user's link code,
  with blanks and quotes around it ignored, stores the sender's account with that user and with
  nobody else, and from then on notifications for the user go to the private chat of the account
  (whose identifier is the account's, when it fits a chat identifier). A text that is nobody's
  code changes nothing. In no case does the handler panic.
\<close>

theorem link_message_links_sender:
  assumes run: "main_state_handler env msg w = (r, w')" and ok: "db_ok (stored w)"
    and sender: "msg_from msg = Some i" "unat i < 9223372036854775808"
    and link: "link = trim_matches (\<lambda>c. c = CHR '' '' \<or> c = CHR 0x22)
      (case msg_text msg of None \<Rightarrow> '''' | Some t \<Rightarrow> t)"
  shows "r \<noteq> Panic \<and> (stored w' = stored w \<or>
    (\<exists>x \<in> set (users_t (stored w)). u_link x = link \<and>
      stored w' = set_tg_handle (u_id x) (show_tg_user_id i) (stored w) \<and>
      (\<forall>y \<in> set (users_t (stored w')). u_id y = u_id x \<longrightarrow>
         chat_of_user y = Some (word_of_int (uint i))))) \<and>
    (r = Ok () \<longrightarrow> (if \<exists>x \<in> set (users_t (stored w)). u_link x = link
       then \<exists>x \<in> set (users_t (stored w)). u_link x = link \<and>
         stored w' = set_tg_handle (u_id x) (show_tg_user_id i) (stored w)
       else stored w' = stored w))"
proof -
  let ?d = "stored w" and ?tg = "show_tg_user_id i"
  have chat: "chat_of_user y = Some (word_of_int (uint i))"
    if "y \<in> set (users_t (set_tg_handle u ?tg d))" "u_id y = u" for y u d
    using set_tg_handle_user [OF that] parse_show_tg [OF sender(2)] by (simp add: chat_of_user_def)
  from run sender(1) link obtain r1 t where t: "users_link_user (postgres env) link ?tg (db w) = (r1, t)"
      and after: "stored w' = committed t" "r = Panic \<longrightarrow> r1 = Panic" "r = Ok () \<longrightarrow> (\<exists>x. r1 = Ok x)"
    by (rule main_state_handler_link)
  from t ok show ?thesis
  proof (rule link_user_cases)
    fix e
    assume "committed t = ?d" "r1 = Err e"
    then show ?thesis using after by auto
  next
    assume "committed t = ?d" "r1 = Ok None" "\<forall>x \<in> set (users_t ?d). u_link x \<noteq> link"
    then show ?thesis using after by auto
  next
    fix x
    assume x: "x \<in> set (users_t ?d)" "u_link x = link"
      "committed t = set_tg_handle (u_id x) ?tg ?d"
      and r1: "r1 = Err (UserDatabaseError Io) \<or> r1 = Ok (Some (x\<lparr>u_tg_handle := Some ?tg\<rparr>))"
    have w': "stored w' = set_tg_handle (u_id x) ?tg ?d" using x(3) after(1) by simp
    with x w' r1 after(2) chat show ?thesis by auto
  qed
qed

theorem link_message_links_sender_witness:
  "\<exists>r w'. main_state_handler sample_env \<lparr>msg_chat = 43, msg_id = 1, msg_from = Some 43,
       msg_text = Some '' link-b ''\<rparr> (sample_world sample_pg) = (r, w') \<and> r = Ok () \<and>
     (\<exists>x \<in> set (users_t sample_db). u_link x = ''link-b'' \<and>
       stored w' = set_tg_handle (u_id x) (show_tg_user_id 43) sample_db)"
proof -
  let ?msg = "\<lparr>msg_chat = 43, msg_id = 1, msg_from = Some 43, msg_text = Some '' link-b ''\<rparr>"
  let ?run = "main_state_handler sample_env ?msg (sample_world sample_pg)"
  obtain r w' where run: "?run = (r, w')" by (cases ?run)
  have "fst ?run = Ok ()" by code_simp
  then have r: "r = Ok ()" using run by simp
  have "trim_matches (\<lambda>c. c = CHR '' '' \<or> c = CHR 0x22) '' link-b '' = ''link-b''" by code_simp
  with link_message_links_sender [OF run, of 43 "''link-b''"]
  have "stored w' = sample_db \<or> (\<exists>x \<in> set (users_t sample_db). u_link x = ''link-b'' \<and>
      stored w' = set_tg_handle (u_id x) (show_tg_user_id 43) sample_db)" by auto
  moreover have "users_t (stored (snd ?run)) \<noteq> users_t sample_db" by code_simp
  then have "stored w' \<noteq> sample_db" unfolding run snd_conv by (rule contrapos_nn) simp
  ultimately show ?thesis using run r by blast
qed

end
