(* ===== verification/Ldap.thy ===== *)
theory Ldap
  imports World
begin

text \<open>
  \<open>src/src/ldap/mod.rs\<close>: users and their groups in the directory. The directory server is a
  parameter: what a search and a bind answer. The state is which of the two connections the
  background tasks have published; their loops are a step relation.
\<close>

section \<open>Directory entries\<close>

record SearchEntry =
  se_dn :: string
  se_attrs :: "(string \<times> string list) list"

record AdUserInfo =
  ad_dn :: string
  ad_email :: string
  ad_groups :: "string list"

text \<open>\<open>find_map\<close> over the components of a distinguished name.\<close>

fun find_map :: "('a \<Rightarrow> 'b option) \<Rightarrow> 'a list \<Rightarrow> 'b option" where
  "find_map f [] = None"
| "find_map f (x # xs) = (case f x of Some y \<Rightarrow> Some y | None \<Rightarrow> find_map f xs)"

definition component_cn :: "string \<Rightarrow> string option" where
  "component_cn item =
     (if prefix ''CN='' item then map_option snd (split_once CHR ''='' item) else None)"

definition group_cn :: "string \<Rightarrow> string option" where
  "group_cn dn = find_map component_cn (split_on CHR '','' dn)"

definition AdUserInfo_try_from :: "SearchEntry \<Rightarrow> anyhow_error + AdUserInfo" where
  "AdUserInfo_try_from value =
     (let mail = (case map_of (se_attrs value) ''mail'' of
            None \<Rightarrow> None
          | Some mails \<Rightarrow> (case mails of [] \<Rightarrow> None | m # _ \<Rightarrow> Some m));
          groups = map_option (List.map_filter group_cn) (map_of (se_attrs value) ''memberOf'')
      in case (mail, groups) of
           (Some mail, Some groups) \<Rightarrow>
             Inr \<lparr>ad_dn = se_dn value, ad_email = mail, ad_groups = groups\<rparr>
         | _ \<Rightarrow> Inl (Message ''Unable to parse SearchEntry''))"

section \<open>Requests\<close>

text \<open>
  Calls of the directory are numbered, so that each may be answered differently: a search with
  the entries found or an error, a bind with success or an error.
\<close>

record directory =
  dir_search :: "nat \<Rightarrow> string \<Rightarrow> string \<Rightarrow> anyhow_error + SearchEntry list"
  dir_bind :: "nat \<Rightarrow> string \<Rightarrow> string \<Rightarrow> anyhow_error + unit"
  users_query :: string

record users_info =
  ldap_open :: bool
  authorized_open :: bool
  dir_calls :: nat

type_synonym 'a ldap_call = "(users_info, 'a, anyhow_error) io"

definition get_authorized_ldap :: "unit ldap_call" where
  "get_authorized_ldap s =
     (if authorized_open s then (Ok (), s)
      else (Err (Message ''Authorized ldap connection is broken''), s))"

definition get_ldap :: "unit ldap_call" where
  "get_ldap s =
     (if ldap_open s then (Ok (), s) else (Err (Message ''Ldap connection is broken''), s))"

definition ask :: "(nat \<Rightarrow> anyhow_error + 'a) \<Rightarrow> 'a ldap_call" where
  "ask f s =
     (case f (dir_calls s) of Inl e \<Rightarrow> Err e | Inr a \<Rightarrow> Ok a, s\<lparr>dir_calls := Suc (dir_calls s)\<rparr>)"

definition do_authorized_ldap_request ::
  "directory \<Rightarrow> string \<Rightarrow> string \<Rightarrow> SearchEntry list ldap_call" where
  "do_authorized_ldap_request dir base filt =
     qmark id get_authorized_ldap (\<lambda>_. ask (\<lambda>n. dir_search dir n base filt))"

definition first_user_info :: "SearchEntry list \<Rightarrow> AdUserInfo option ldap_call" where
  "first_user_info rs =
     (case rs of
        [] \<Rightarrow> return None
      | entry # _ \<Rightarrow> (case AdUserInfo_try_from entry of
          Inl e \<Rightarrow> throw e
        | Inr info \<Rightarrow> return (Some info)))"

definition get_user_info :: "directory \<Rightarrow> string \<Rightarrow> AdUserInfo option ldap_call" where
  "get_user_info dir user_dn =
     qmark id (do_authorized_ldap_request dir user_dn ''(mail=*)'') first_user_info"

definition login_filter :: "string \<Rightarrow> string" where
  "login_filter login_or_mail =
     ''(|(mail='' @ login_or_mail @ '')(sAMAccountName='' @ login_or_mail @ ''))''"

definition find_user_info :: "directory \<Rightarrow> string \<Rightarrow> AdUserInfo option ldap_call" where
  "find_user_info dir login_or_mail =
     qmark id (do_authorized_ldap_request dir (users_query dir) (login_filter login_or_mail))
       first_user_info"

definition check_authentication :: "directory \<Rightarrow> string \<Rightarrow> string \<Rightarrow> unit ldap_call" where
  "check_authentication dir user_dn password =
     (if password = [] then throw (Message ''Empty password'')
      else qmark id get_ldap (\<lambda>_. ask (\<lambda>n. dir_bind dir n user_dn password)))"

section \<open>The connection tasks\<close>

text \<open>
  The loops \<open>keep_ldap_conn\<close> and \<open>keep_authorized_ldap_conn\<close>, by the point a task is at and
  whether its handle is published. What a task waits for: a connection attempt, the bind of the
  service account (the authorized task only), the mutex to publish the handle, the end of the
  connection, the mutex to take the handle back, the end of the pause. A failed bind ends the task.
\<close>

datatype conn_point = Connecting | Binding | Publishing | Driving | Clearing | Sleeping | Ended

datatype conn_event =
    Connected | ConnectFailed | Bound | BindFailed | Published | ConnectionEnded | Cleared | Slept

fun keep_ldap_conn :: "conn_point \<times> bool \<Rightarrow> conn_event \<Rightarrow> (conn_point \<times> bool) option" where
  "keep_ldap_conn (Connecting, b) Connected = Some (Publishing, b)"
| "keep_ldap_conn (Connecting, b) ConnectFailed = Some (Clearing, b)"
| "keep_ldap_conn (Publishing, _) Published = Some (Driving, True)"
| "keep_ldap_conn (Driving, b) ConnectionEnded = Some (Clearing, b)"
| "keep_ldap_conn (Clearing, _) Cleared = Some (Sleeping, False)"
| "keep_ldap_conn (Sleeping, b) Slept = Some (Connecting, b)"
| "keep_ldap_conn _ _ = None"

fun keep_authorized_ldap_conn ::
  "conn_point \<times> bool \<Rightarrow> conn_event \<Rightarrow> (conn_point \<times> bool) option" where
  "keep_authorized_ldap_conn (Connecting, b) Connected = Some (Binding, b)"
| "keep_authorized_ldap_conn (Connecting, b) ConnectFailed = Some (Clearing, b)"
| "keep_authorized_ldap_conn (Binding, b) Bound = Some (Publishing, b)"
| "keep_authorized_ldap_conn (Binding, b) BindFailed = Some (Ended, b)"
| "keep_authorized_ldap_conn (Publishing, _) Published = Some (Driving, True)"
| "keep_authorized_ldap_conn (Driving, b) ConnectionEnded = Some (Clearing, b)"
| "keep_authorized_ldap_conn (Clearing, _) Cleared = Some (Sleeping, False)"
| "keep_authorized_ldap_conn (Sleeping, b) Slept = Some (Connecting, b)"
| "keep_authorized_ldap_conn _ _ = None"

text \<open>
  \<open>work\<close> runs both tasks and ends with the first that ends: what has happened to them, and where
  they and their handles are.
\<close>

datatype task_event = Plain conn_event | Authorized conn_event

inductive ldap_work :: "task_event list \<Rightarrow> (conn_point \<times> bool) \<times> (conn_point \<times> bool) \<Rightarrow> bool" where
  start: "ldap_work [] ((Connecting, False), (Connecting, False))"
| plain: "ldap_work es (a, b) \<Longrightarrow> fst b \<noteq> Ended \<Longrightarrow> keep_ldap_conn a e = Some a' \<Longrightarrow>
    ldap_work (es @ [Plain e]) (a', b)"
| authorized: "ldap_work es (a, b) \<Longrightarrow> fst a \<noteq> Ended \<Longrightarrow> keep_authorized_ldap_conn b e = Some b' \<Longrightarrow>
    ldap_work (es @ [Authorized e]) (a, b')"

inductive_cases ldap_workE: "ldap_work es (a, b)"

section \<open>Lemmas\<close>

lemma ask_OkE:
  assumes "ask f s = (Ok a, t)"
  obtains "f (dir_calls s) = Inr a" "t = s\<lparr>dir_calls := Suc (dir_calls s)\<rparr>"
  using assms by (auto simp: ask_def split: sum.splits)

lemma first_user_info_OkE:
  assumes "first_user_info rs s = (Ok r, t)"
  obtains (nobody) "rs = []" "r = None" "t = s"
    | (found) entry es info where "rs = entry # es" "AdUserInfo_try_from entry = Inr info"
        "r = Some info" "t = s"
  using assms
  by (cases rs) (auto simp: first_user_info_def return_def throw_def split: sum.splits)

lemma request_OkE:
  assumes "do_authorized_ldap_request dir q f s = (Ok rs, t)"
  obtains "authorized_open s" "dir_search dir (dir_calls s) q f = Inr rs"
    "t = s\<lparr>dir_calls := Suc (dir_calls s)\<rparr>"
  using assms unfolding do_authorized_ldap_request_def
  by (elim qmark_OkE) (auto simp: get_authorized_ldap_def elim!: ask_OkE split: if_splits)

lemma find_user_info_OkE:
  assumes "find_user_info dir login s = (Ok r, t)"
  obtains rs where "dir_search dir (dir_calls s) (users_query dir) (login_filter login) = Inr rs"
    "r = None \<longleftrightarrow> rs = []"
    "\<And>info. r = Some info \<Longrightarrow> \<exists>entry es. rs = entry # es \<and> AdUserInfo_try_from entry = Inr info"
    "t = s\<lparr>dir_calls := Suc (dir_calls s)\<rparr>"
  using assms unfolding find_user_info_def
  by (elim qmark_OkE request_OkE first_user_info_OkE) auto

lemma get_user_info_OkE:
  assumes "get_user_info dir dn s = (Ok r, t)"
  obtains rs where "dir_search dir (dir_calls s) dn ''(mail=*)'' = Inr rs" "r = None \<longleftrightarrow> rs = []"
    "\<And>info. r = Some info \<Longrightarrow> \<exists>entry es. rs = entry # es \<and> AdUserInfo_try_from entry = Inr info"
  using assms unfolding get_user_info_def
  by (elim qmark_OkE request_OkE first_user_info_OkE) auto

lemma check_authentication_OkE:
  assumes "check_authentication dir dn password s = (Ok x, t)"
  obtains "password \<noteq> []" "ldap_open s" "dir_bind dir (dir_calls s) dn password = Inr ()"
  using assms unfolding check_authentication_def
  by (auto simp: throw_def get_ldap_def elim!: qmark_OkE ask_OkE split: if_splits)

section \<open>Properties\<close>

definition disjunction :: "string list \<Rightarrow> string" where
  "disjunction clauses = ''(|'' @ concat (map (\<lambda>c. ''('' @ c @ '')'') clauses) @ '')''"

text \<open>
  The text typed into the login form reaches the directory unescaped, so whoever logs in
  writes clauses of the search filter: a login with a closing and an opening parenthesis adds a
  clause of its own choice to the disjunction, twice.
\<close>

theorem login_filter_injection:
  "login_filter login = disjunction [''mail='' @ login, ''sAMAccountName='' @ login] \<and>
   login_filter (name @ '')('' @ clause) =
     disjunction [''mail='' @ name, clause, ''sAMAccountName='' @ name, clause]"
  by (simp add: login_filter_def disjunction_def)

text \<open>
  The groups of a user are the common names of his memberships: for a membership whose
  first component is \<open>CN=\<close> with a name without a comma, that name; a membership without such a
  component is left out, and an entry without mail or memberships is an error.
\<close>

lemma component_cn_prefix: "component_cn (''CN='' @ cn) = Some cn"
  by (simp add: component_cn_def split_once_def)

theorem groups_of_entry:
  "(CHR '','' \<notin> set cn \<longrightarrow> group_cn (''CN='' @ cn) = Some cn \<and>
      group_cn (''CN='' @ cn @ CHR '','' # rest) = Some cn) \<and>
   ((\<forall>item \<in> set (split_on CHR '','' dn). \<not> prefix ''CN='' item) \<longrightarrow> group_cn dn = None) \<and>
   (\<forall>info. AdUserInfo_try_from e = Inr info \<longrightarrow>
      ad_dn info = se_dn e \<and> (\<exists>ms. map_of (se_attrs e) ''memberOf'' = Some ms \<and>
        ad_groups info = List.map_filter group_cn ms) \<and>
      (\<exists>m mails. map_of (se_attrs e) ''mail'' = Some (m # mails) \<and> ad_email info = m))"
proof (intro conjI impI allI)
  assume cn: "CHR '','' \<notin> set cn"
  then have "CHR '','' \<notin> set (''CN='' @ cn)" by simp
  from split_on_no_sep [OF this] split_on_append [OF this, of rest]
  show "group_cn (''CN='' @ cn) = Some cn" "group_cn (''CN='' @ cn @ CHR '','' # rest) = Some cn"
    by (simp_all only: group_cn_def append_assoc find_map.simps component_cn_prefix option.case)
next
  have "find_map component_cn items = None" if "\<forall>item \<in> set items. \<not> prefix ''CN='' item" for items
    using that by (induction items) (auto simp: component_cn_def)
  moreover assume "\<forall>item \<in> set (split_on CHR '','' dn). \<not> prefix ''CN='' item"
  ultimately show "group_cn dn = None" by (simp add: group_cn_def)
qed (auto simp: AdUserInfo_try_from_def Let_def split: option.splits list.splits)

theorem groups_of_entry_witness:
  "group_cn (''CN='' @ ''devs'' @ CHR '','' # ''OU=x'') = Some ''devs''"
  using groups_of_entry [of "''devs''" "''OU=x''"] by simp

section \<open>The life of the handles\<close>

text \<open>The events of one task, and whether its handle was published after it was taken back last.\<close>

definition plain_events :: "task_event list \<Rightarrow> conn_event list" where
  "plain_events es = List.map_filter (\<lambda>e. case e of Plain x \<Rightarrow> Some x | Authorized x \<Rightarrow> None) es"

definition authorized_events :: "task_event list \<Rightarrow> conn_event list" where
  "authorized_events es = List.map_filter (\<lambda>e. case e of Plain x \<Rightarrow> None | Authorized x \<Rightarrow> Some x) es"

definition last_published :: "conn_event list \<Rightarrow> bool" where
  "last_published es \<longleftrightarrow>
     (let hs = filter (\<lambda>e. e = Published \<or> e = Cleared) es in hs \<noteq> [] \<and> last hs = Published)"

text \<open>
  What the service account owes: since the task connected last, its bind has succeeded.
\<close>

definition last_bound :: "conn_event list \<Rightarrow> bool" where
  "last_bound es \<longleftrightarrow>
     (let bs = filter (\<lambda>e. e = Bound \<or> e = Connected) es in bs \<noteq> [] \<and> last bs = Bound)"

lemma task_events_simps [simp]:
  "plain_events [] = []" "authorized_events [] = []"
  "plain_events (es @ [Plain e]) = plain_events es @ [e]"
  "plain_events (es @ [Authorized e]) = plain_events es"
  "authorized_events (es @ [Authorized e]) = authorized_events es @ [e]"
  "authorized_events (es @ [Plain e]) = authorized_events es"
  by (simp_all add: plain_events_def authorized_events_def List.map_filter_def)

lemma last_snoc [simp]:
  "\<not> last_published []" "\<not> last_bound []"
  "last_published (es @ [e]) \<longleftrightarrow> e = Published \<or> e \<noteq> Cleared \<and> last_published es"
  "last_bound (es @ [e]) \<longleftrightarrow> e = Bound \<or> e \<noteq> Connected \<and> last_bound es"
  unfolding last_published_def last_bound_def
  by (auto simp: Let_def)

text \<open>Where a task is and whether its handle is published, after what has happened to it.\<close>

definition plain_ok :: "conn_event list \<Rightarrow> conn_point \<times> bool \<Rightarrow> bool" where
  "plain_ok es a \<longleftrightarrow> (snd a \<longleftrightarrow> last_published es) \<and> fst a \<noteq> Ended \<and>
     (fst a = Driving \<longrightarrow> snd a) \<and> (snd a \<longrightarrow> fst a = Driving \<or> fst a = Clearing)"

definition authorized_ok :: "conn_event list \<Rightarrow> conn_point \<times> bool \<Rightarrow> bool" where
  "authorized_ok es b \<longleftrightarrow> (snd b \<longleftrightarrow> last_published es) \<and>
     (fst b = Driving \<longrightarrow> snd b) \<and> (snd b \<longrightarrow> fst b = Driving \<or> fst b = Clearing) \<and>
     (snd b \<or> fst b = Publishing \<longrightarrow> last_bound es) \<and>
     (fst b = Ended \<longleftrightarrow> BindFailed \<in> set es) \<and> (fst b = Ended \<longrightarrow> last es = BindFailed)"

lemma plain_step: "keep_ldap_conn a e = Some a' \<Longrightarrow> plain_ok es a \<Longrightarrow> plain_ok (es @ [e]) a'"
  by (cases "(a, e)" rule: keep_ldap_conn.cases) (auto simp: plain_ok_def)

lemma authorized_step:
  "keep_authorized_ldap_conn b e = Some b' \<Longrightarrow> authorized_ok es b \<Longrightarrow> authorized_ok (es @ [e]) b'"
  by (cases "(b, e)" rule: keep_authorized_ldap_conn.cases) (auto simp: authorized_ok_def)

text \<open>
  C40: at every moment, after whatever has happened to the two tasks, a handle is published exactly
  if it was published after it was taken back last, and then its task drives the connection or is
  about to take it back; the authorized one is published only if the bind of the service account has
  succeeded on this connection. The plain task never ends; the authorized one, and with it the
  program, has ended exactly if a bind has failed, and that was the last that happened to it: a failed
  attempt to connect or a connection that ends never ends a task.
\<close>

theorem handles_are_live:
  assumes "ldap_work es (a, b)"
  shows "(snd a \<longleftrightarrow> last_published (plain_events es)) \<and> (fst a = Driving \<longrightarrow> snd a) \<and>
    (snd a \<longrightarrow> fst a = Driving \<or> fst a = Clearing) \<and> fst a \<noteq> Ended \<and>
    (snd b \<longleftrightarrow> last_published (authorized_events es)) \<and> (fst b = Driving \<longrightarrow> snd b) \<and>
    (snd b \<longrightarrow> (fst b = Driving \<or> fst b = Clearing) \<and> last_bound (authorized_events es)) \<and>
    (fst b = Ended \<longleftrightarrow> BindFailed \<in> set (authorized_events es)) \<and>
    (fst b = Ended \<longrightarrow> last es = Authorized BindFailed)"
proof -
  from assms have "plain_ok (plain_events es) a \<and> authorized_ok (authorized_events es) b \<and>
      (fst b = Ended \<longrightarrow> last es = Authorized BindFailed)"
  proof (induction es "(a, b)" arbitrary: a b rule: ldap_work.induct)
    case start
    show ?case by (simp add: plain_ok_def authorized_ok_def)
  next
    case (plain es a b e a')
    then show ?case using plain_step by simp
  next
    case (authorized es a b e b')
    then have step: "authorized_ok (authorized_events es @ [e]) b'" using authorized_step by blast
    moreover have "e = BindFailed" if "fst b' = Ended" using step that by (simp add: authorized_ok_def)
    ultimately show ?case using authorized by simp
  qed
  then show ?thesis unfolding plain_ok_def authorized_ok_def by blast
qed

theorem handles_are_live_witness:
  "\<exists>a b. ldap_work [Authorized Connected, Plain Connected, Plain Published, Authorized BindFailed] (a, b) \<and>
     snd a \<and> fst b = Ended \<and> \<not> snd b"
proof -
  have "ldap_work [Authorized Connected] ((Connecting, False), (Binding, False))"
    using ldap_work.authorized [OF ldap_work.start, of Connected] by simp
  then have "ldap_work [Authorized Connected, Plain Connected] ((Publishing, False), (Binding, False))"
    using ldap_work.plain [of "[Authorized Connected]" _ _ Connected] by simp
  then have "ldap_work [Authorized Connected, Plain Connected, Plain Published] ((Driving, True), (Binding, False))"
    using ldap_work.plain [of "[Authorized Connected, Plain Connected]" _ _ Published] by simp
  then have "ldap_work [Authorized Connected, Plain Connected, Plain Published, Authorized BindFailed]
      ((Driving, True), (Ended, False))"
    using ldap_work.authorized [of "[Authorized Connected, Plain Connected, Plain Published]" _ _ BindFailed] by simp
  with handles_are_live [OF this] show ?thesis by (metis fst_conv snd_conv)
qed

end
