(* ===== verification/Auth.thy ===== *)
theory Auth
  imports Ldap Tokens_Service Release
begin

text \<open>
  Authentication: \<open>src/src/web/auth/middleware.rs\<close> (the session backend), \<open>bearer.rs\<close> (API
  tokens) and \<open>login.rs\<close>. The state is that of the whole process: the world and the memory of
  the timer, together with the handles of the directory connections. What the session store holds
  comes with the request; the conversion of a header to text, done by the HTTP library, is a
  parameter.
\<close>

section \<open>State and users of the web layer\<close>

record site = timer +
  users_info :: users_info

definition in_ldap :: "(users_info, 'a, 'e) io \<Rightarrow> ('z site_scheme, 'a, 'e) io" where
  "in_ldap m w = (case m (users_info w) of (r, t) \<Rightarrow> (r, w\<lparr>users_info := t\<rparr>))"

record WebUser =
  wu_id :: i32
  wu_username :: string
  wu_groups :: "string list"
  wu_tg_handle :: "string option"
  wu_link :: string
  wu_session_token :: "u8 list"

definition WebUser_from :: "User \<times> string list \<Rightarrow> WebUser" where
  "WebUser_from value =
     (case value of (user, groups) \<Rightarrow>
       \<lparr>wu_id = user_raw (u_id user), wu_username = u_email user, wu_groups = groups,
        wu_tg_handle = u_tg_handle user, wu_link = u_link user,
        wu_session_token = as_bytes (u_link user)\<rparr>)"

definition session_auth_hash :: "WebUser \<Rightarrow> u8 list" where
  "session_auth_hash user = wu_session_token user"

datatype AuthError = DbError sqlx_error | AnyhowErr anyhow_error

type_synonym ('z, 'a) auth_call = "('z site_scheme, 'a, AuthError) io"

section \<open>The session backend\<close>

definition create_user :: "server \<Rightarrow> AdUserInfo \<Rightarrow> ('z, User) auth_call" where
  "create_user srv u_info =
     qmark DbError (in_db (begin_tx srv)) (\<lambda>_.
     qmark DbError (in_db (tx_add_user srv (ad_dn u_info) None (ad_email u_info))) (\<lambda>_.
     qmark DbError (in_db (tx_get_user_by_dn srv (ad_dn u_info))) (\<lambda>user.
     qmark DbError (in_db (commit_tx srv)) (\<lambda>_. unwrap user))))"

definition authenticate ::
  "server \<Rightarrow> directory \<Rightarrow> string \<Rightarrow> string \<Rightarrow> ('z, WebUser option) auth_call" where
  "authenticate srv dir username password =
     qmark AnyhowErr (in_ldap (find_user_info dir username)) (\<lambda>found.
     case found of
       None \<Rightarrow> return None
     | Some u_info \<Rightarrow>
         handle (in_ldap (check_authentication dir (ad_dn u_info) password)) (\<lambda>resp.
         case resp of
           Inl err \<Rightarrow> return None
         | Inr _ \<Rightarrow>
             qmark DbError (in_db (begin_tx srv)) (\<lambda>_.
             qmark DbError (in_db (tx_get_user_by_dn srv (ad_dn u_info))) (\<lambda>user.
             qmark id (case user of Some u \<Rightarrow> return u | None \<Rightarrow> create_user srv u_info) (\<lambda>user.
             return (Some (WebUser_from (user, ad_groups u_info))))))))"

definition get_user :: "server \<Rightarrow> directory \<Rightarrow> i32 \<Rightarrow> ('z, WebUser option) auth_call" where
  "get_user srv dir user_id =
     qmark DbError (in_db (begin_tx srv)) (\<lambda>_.
     qmark DbError (in_db (tx_get_user_by_id srv (UserId user_id))) (\<lambda>user.
     case user of
       None \<Rightarrow> return None
     | Some user \<Rightarrow>
         handle (in_ldap (get_user_info dir (u_dn user))) (\<lambda>info.
         case info of
           Inr (Some u_info) \<Rightarrow> return (Some (WebUser_from (user, ad_groups u_info)))
         | Inr None \<Rightarrow> return None
         | Inl err \<Rightarrow> return None)))"

text \<open>
  Before a request is routed the layer of the session library resumes its session: for the user
  identifier and the hash that the store holds it asks the backend for the user and compares the
  hash (\<open>AuthnBackend::get_user\<close>, \<open>AuthUser::session_auth_hash\<close>); when the backend fails the request
  does.
\<close>

type_synonym session_data = "(i32 \<times> u8 list) option"

definition resume_session ::
  "server \<Rightarrow> directory \<Rightarrow> session_data \<Rightarrow> ('z, WebUser option) auth_call" where
  "resume_session srv dir data =
     (case data of
        None \<Rightarrow> return None
      | Some (user_id, auth_hash) \<Rightarrow>
          qmark id (get_user srv dir user_id) (\<lambda>found. return
            (case found of
               None \<Rightarrow> None
             | Some user \<Rightarrow> if session_auth_hash user = auth_hash then Some user else None)))"

section \<open>Bearer tokens\<close>

definition authenticate_bearer ::
  "server \<Rightarrow> directory \<Rightarrow> digest \<Rightarrow> ('h \<Rightarrow> string option) \<Rightarrow> 'h option \<Rightarrow>
   ('z, WebUser option) auth_call" where
  "authenticate_bearer srv dir sha256 to_str auth_header =
     (case auth_header of
        None \<Rightarrow> return None
      | Some header_value \<Rightarrow>
          (case to_str header_value of
             None \<Rightarrow> return None
           | Some header \<Rightarrow>
               (case strip_prefix ''Bearer '' header of
                  None \<Rightarrow> return None
                | Some token \<Rightarrow>
                    (let token = trim token
                     in if token = [] then return None
                        else
                          qmark (\<lambda>e. AnyhowErr (Message (ApiTokenError_to_string e)))
                            (in_db (tokens_find_user_id_by_plaintext srv sha256 token)) (\<lambda>found.
                          case found of
                            None \<Rightarrow> return None
                          | Some user_id \<Rightarrow>
                              qmark DbError (in_db (begin_tx srv)) (\<lambda>_.
                              qmark DbError (in_db (tx_get_user_by_id srv user_id)) (\<lambda>user.
                              case user of
                                None \<Rightarrow> return None
                              | Some user \<Rightarrow>
                                  handle (in_ldap (get_user_info dir (u_dn user))) (\<lambda>info.
                                  case info of
                                    Inr (Some u_info) \<Rightarrow>
                                      return (Some (WebUser_from (user, ad_groups u_info)))
                                  | Inr None \<Rightarrow> return None
                                  | Inl err \<Rightarrow> throw (AnyhowErr err)))))))))"

section \<open>Responses and guards\<close>

text \<open>
  What a handler answers: a redirect with the flash messages it leaves, a page with the cookies
  it sets, a JSON body with its status, a bare status, text, a file with its type and tag, or the answer of the HTTP library to
  a request it could not decode.
\<close>

datatype flash = FlashError string | FlashSuccess string

datatype 'b response =
    Redirect (location: string) (flashes: "flash list")
  | HtmlPage (set_cookies: "(string \<times> string) list") (page_of: 'b)
  | JsonBody (status_of: nat) (body_of: 'b)
  | JsonError (error_status: nat) (error_text: string)
  | StatusOnly nat
  | PlainText nat string
  | FileBody string string
  | Rejected string

definition auth_layer ::
  "server \<Rightarrow> directory \<Rightarrow> session_data \<Rightarrow>
   (WebUser option \<Rightarrow> ('z site_scheme, 'b response, unit) io) \<Rightarrow>
   ('z site_scheme, 'b response, unit) io" where
  "auth_layer srv dir data app =
     handle (resume_session srv dir data) (\<lambda>res.
       case res of
         Inr session_user \<Rightarrow> app session_user
       | Inl err \<Rightarrow> return (StatusOnly 500))"

text \<open>The two middlewares: the rest of the route runs only with a user.\<close>

definition bearer_auth_middleware ::
  "server \<Rightarrow> directory \<Rightarrow> digest \<Rightarrow> ('h \<Rightarrow> string option) \<Rightarrow> 'h option \<Rightarrow>
   (WebUser \<Rightarrow> ('z site_scheme, 'b response, unit) io) \<Rightarrow> ('z site_scheme, 'b response, unit) io" where
  "bearer_auth_middleware srv dir sha256 to_str auth_header next_route =
     handle (authenticate_bearer srv dir sha256 to_str auth_header) (\<lambda>res.
       case res of
         Inr (Some user) \<Rightarrow> next_route user
       | Inr None \<Rightarrow> return (JsonError 401 ''Unauthorized'')
       | Inl err \<Rightarrow> return (JsonError 401 ''Unauthorized''))"

definition auth_middleware ::
  "WebUser option \<Rightarrow> (WebUser \<Rightarrow> ('z site_scheme, 'b response, unit) io) \<Rightarrow>
   ('z site_scheme, 'b response, unit) io" where
  "auth_middleware session_user next_route =
     (case session_user of
        Some user \<Rightarrow> next_route user
      | None \<Rightarrow> return (Redirect ''/login'' []))"

text \<open>The login form; \<open>session_login\<close> is the session store's answer.\<close>

definition login ::
  "server \<Rightarrow> directory \<Rightarrow> (WebUser \<Rightarrow> bool) \<Rightarrow> string \<Rightarrow> string \<Rightarrow>
   ('z site_scheme, 'b response, unit) io" where
  "login srv dir session_login username password =
     handle (authenticate srv dir username password) (\<lambda>res.
       case res of
         Inr (Some user) \<Rightarrow>
           (if session_login user then return (Redirect ''/hosts'' [])
            else return (PlainText 500 ''Unexpected error''))
       | Inr None \<Rightarrow> return (Redirect ''/login'' [FlashError ''Wrong credentials''])
       | Inl e \<Rightarrow> return (Redirect ''/login'' [FlashError ''Something went wrong'']))"

definition flash_text :: "flash \<Rightarrow> string" where
  "flash_text f = (case f of FlashError t \<Rightarrow> t | FlashSuccess t \<Rightarrow> t)"

definition logout :: "bool \<Rightarrow> 'b response" where
  "logout session_logout =
     (if session_logout then Redirect ''/login'' [] else PlainText 500 ''Unexpected error'')"

end
