(* ===== verification/Auth_Props.thy ===== *)
theory Auth_Props
  imports Auth Tokens_Props
begin

text \<open>
  The properties of authentication: a session needs an accepted, non-empty password of the
  directory entry found, a bearer token needs its row, its user and the directory; logging in
  creates at most the user's own row.
\<close>

section \<open>Rules\<close>

lemma in_ldapE:
  assumes "in_ldap m w = (r, w')"
  obtains t where "m (users_info w) = (r, t)" "w' = w\<lparr>users_info := t\<rparr>"
  using assms by (auto simp: in_ldap_def split: prod.splits)

lemma keeps_in_ldap [keeps_intros]: "keeps stored (in_ldap m)" "keeps db (in_ldap m)"
  by (auto intro!: keepsI elim!: in_ldapE)

definition insert_user :: "User \<Rightarrow> database \<Rightarrow> database" where
  "insert_user u d = d\<lparr>users_t := users_t d @ [u]\<rparr>"

lemma add_user_Ok:
  assumes "tx_add_user srv dn tg mail s = (Ok i, t)"
  obtains u where "working t = insert_user u (working s)" "committed t = committed s"
    "u_id u = i" "u_dn u = dn" "u_tg_handle u = tg" "u_email u = mail"
    "u_id u \<notin> user_ids (working s)" "u_dn u \<notin> u_dn ` set (users_t (working s))"
    "u_link u \<notin> u_link ` set (users_t (working s))"
  using assms unfolding tx_add_user_def insert_user_def
  by (auto simp: Let_def elim!: stmt_OkE split: if_splits)

lemma find_inserted:
  "u_dn u \<notin> u_dn ` set (users_t d) \<Longrightarrow> find (\<lambda>x. u_dn x = u_dn u) (users_t (insert_user u d)) = Some u"
proof -
  have "u_dn u \<notin> u_dn ` set us \<Longrightarrow> find (\<lambda>x. u_dn x = u_dn u) (us @ [u]) = Some u" for us
    by (induction us) auto
  then show "u_dn u \<notin> u_dn ` set (users_t d) \<Longrightarrow>
      find (\<lambda>x. u_dn x = u_dn u) (users_t (insert_user u d)) = Some u"
    by (simp add: insert_user_def)
qed

definition fresh_user :: "AdUserInfo \<Rightarrow> database \<Rightarrow> User \<Rightarrow> bool" where
  "fresh_user info d u \<longleftrightarrow> u_dn u = ad_dn info \<and> u_email u = ad_email info \<and>
     u_tg_handle u = None \<and> u_id u \<notin> user_ids d \<and> ad_dn info \<notin> u_dn ` set (users_t d) \<and>
     u_link u \<notin> u_link ` set (users_t d)"

lemma db_ok_insert_user: "db_ok d \<Longrightarrow> fresh_user info d u \<Longrightarrow> db_ok (insert_user u d)"
  unfolding insert_user_def fresh_user_def by (rule db_ok_add_user) simp_all

lemma unwrap_Some: "unwrap (Some x) = return x"
  by (simp add: fun_eq_iff io_defs)

text \<open>The steps of a transaction, seen from the web layer.\<close>

lemma begin_stored:
  fixes w :: "'z site_scheme"
  assumes "in_db (begin_tx srv) w = (Ok x, w')"
  shows "working (db w') = stored w" "stored w' = stored w" "users_info w' = users_info w"
proof -
  from assms obtain t where "begin_tx srv (db w) = (Ok x, t)" "w' = w\<lparr>db := t\<rparr>" by (rule in_dbE)
  then show "working (db w') = stored w" "stored w' = stored w" "users_info w' = users_info w"
    by (auto elim!: begin_tx_OkE)
qed

lemma user_by_dn_Ok:
  fixes w :: "'z site_scheme"
  assumes "in_db (tx_get_user_by_dn srv dn) w = (Ok x, w')"
  shows "x = find (\<lambda>u. u_dn u = dn) (users_t (working (db w)))" "working (db w') = working (db w)"
    "stored w' = stored w"
proof -
  from assms obtain t where "tx_get_user_by_dn srv dn (db w) = (Ok x, t)" "w' = w\<lparr>db := t\<rparr>" by (rule in_dbE)
  then show "x = find (\<lambda>u. u_dn u = dn) (users_t (working (db w)))" "working (db w') = working (db w)"
    "stored w' = stored w" by (auto simp: tx_get_user_by_dn_def elim!: query_OkE)
qed

lemma add_user_stored:
  fixes w :: "'z site_scheme"
  assumes "in_db (tx_add_user srv (ad_dn info) None (ad_email info)) w = (Ok i, w')"
    and "working (db w) = stored w"
  obtains u where "fresh_user info (stored w) u" "working (db w') = insert_user u (stored w)"
    "stored w' = stored w"
proof -
  obtain t where t: "tx_add_user srv (ad_dn info) None (ad_email info) (db w) = (Ok i, t)" "w' = w\<lparr>db := t\<rparr>"
    using assms(1) by (rule in_dbE)
  from t(1) show thesis
  proof (rule add_user_Ok)
    fix u
    assume "working t = insert_user u (working (db w))" "committed t = stored w" "u_dn u = ad_dn info"
      "u_tg_handle u = None" "u_email u = ad_email info" "u_id u \<notin> user_ids (working (db w))"
      "u_dn u \<notin> u_dn ` set (users_t (working (db w)))" "u_link u \<notin> u_link ` set (users_t (working (db w)))"
    with t(2) assms(2) show thesis by (intro that [of u]) (simp_all add: fresh_user_def)
  qed
qed

lemma commit_stored:
  fixes w :: "'z site_scheme"
  assumes "qmark from (in_db (commit_tx srv)) (\<lambda>_. return x) w = (r, w')"
  obtains (refused) d where "stored w' = stored w" "r = Err d"
    | (taken) "stored w' = working (db w)" "r = Err (from Io) \<or> r = Ok x"
proof -
  obtain q t where t: "qmark from (commit_tx srv) (\<lambda>_. return x) (db w) = (q, t)" by fastforce
  then have "r = q" "db w' = t"
    using assms by (auto simp: qmark_def in_db_def return_def split: prod.splits outcome.splits)
  with t that show thesis by (auto elim!: commit_last)
qed

lemma create_user_cases:
  fixes w :: "'z site_scheme"
  assumes "create_user srv info w = (r, w')"
  obtains (failed) "stored w' = stored w" "\<And>u. r \<noteq> Ok u"
    | (created) u where "fresh_user info (stored w) u" "stored w' = insert_user u (stored w)"
      "r = Ok u \<or> r = Err (DbError Io)"
proof -
  let ?d = "stored w"
  have failed: thesis if "stored w' = ?d" "r = Panic \<or> (\<exists>e. r = Err e)"
    using that by (intro failed) auto
  note step = qmark_keeps [where P = "stored :: 'z site_scheme \<Rightarrow> database", consumes 1, case_names _ go stop]
  show thesis
    using assms unfolding create_user_def
  proof (cases rule: step)
    case (go x w0)
    note w0 = begin_stored [OF go(1)]
    from go(3) show ?thesis
    proof (cases rule: step)
      case (go i w1)
      from go(1) obtain u where u: "fresh_user info ?d u" "working (db w1) = insert_user u ?d" "stored w1 = ?d"
        using w0 by (auto elim: add_user_stored)
      from go(3) show ?thesis
      proof (cases rule: step)
        case (go found w2)
        have "u_dn u = ad_dn info" "ad_dn info \<notin> u_dn ` set (users_t ?d)"
          using u(1) by (simp_all add: fresh_user_def)
        with find_inserted [of u ?d] user_by_dn_Ok [OF go(1)] u(2,3)
        have w2: "found = Some u" "working (db w2) = insert_user u ?d" "stored w2 = ?d" by simp_all
        from go(3) [unfolded w2(1) unwrap_Some] show ?thesis
          by (rule commit_stored) (use w2 u(1) created failed in auto)
      qed (use failed u(3) in \<open>auto simp: tx_get_user_by_dn_def intro: keeps_intros\<close>)
    qed (use failed w0 in \<open>auto intro: keeps_intros\<close>)
  qed (use failed in \<open>auto intro: keeps_intros\<close>)
qed

text \<open>What an authentication with the directory establishes.\<close>

definition accepted :: "directory \<Rightarrow> nat \<Rightarrow> string \<Rightarrow> string \<Rightarrow> AdUserInfo \<Rightarrow> bool" where
  "accepted dir n username password info \<longleftrightarrow> password \<noteq> [] \<and>
     (\<exists>entry es. dir_search dir n (users_query dir) (login_filter username) = Inr (entry # es) \<and>
        AdUserInfo_try_from entry = Inr info) \<and>
     dir_bind dir (Suc n) (ad_dn info) password = Inr ()"

lemma find_or_create_cases:
  fixes w :: "'z site_scheme"
  assumes "qmark DbError (in_db (begin_tx srv)) (\<lambda>_.
      qmark DbError (in_db (tx_get_user_by_dn srv (ad_dn info))) (\<lambda>user.
      qmark id (case user of Some u \<Rightarrow> return u | None \<Rightarrow> create_user srv info) (\<lambda>user.
      return (Some (WebUser_from (user, ad_groups info)))))) w = (r, w')"
  obtains (refused) "stored w' = stored w" "r = Panic \<or> (\<exists>e. r = Err e)"
    | (known) u where "stored w' = stored w" "u \<in> set (users_t (stored w))" "u_dn u = ad_dn info"
      "r = Ok (Some (WebUser_from (u, ad_groups info)))"
    | (added) u where "fresh_user info (stored w) u" "stored w' = insert_user u (stored w)"
      "r = Ok (Some (WebUser_from (u, ad_groups info))) \<or> r = Err (DbError Io)"
proof -
  let ?d = "stored w"
  note step = qmark_keeps [where P = "stored :: 'z site_scheme \<Rightarrow> database", consumes 1, case_names _ go stop]
  from assms show thesis
  proof (cases rule: step)
    case (go y w2)
    note w2 = begin_stored [OF go(1)]
    from go(3) show ?thesis
    proof (cases rule: step)
      case (go user w3)
      have w3: "user = find (\<lambda>u. u_dn u = ad_dn info) (users_t ?d)" "stored w3 = ?d"
        using user_by_dn_Ok [OF go(1)] w2 by simp_all
      show ?thesis
      proof (cases user)
        case (Some u)
        with w3(1) find_SomeD [of "\<lambda>u. u_dn u = ad_dn info" "users_t ?d" u]
        have "u \<in> set (users_t ?d)" "u_dn u = ad_dn info" by auto
        with Some go(3) w3(2) show ?thesis
          by (intro known) (auto simp: qmark_def return_def)
      next
        case None
        with go(3) have "qmark id (create_user srv info) (\<lambda>user.
            return (Some (WebUser_from (user, ad_groups info)))) w3 = (r, w')" by simp
        then obtain r1 w4 where w4: "create_user srv info w3 = (r1, w4)" "stored w' = stored w4"
            "r = (case r1 of Ok u \<Rightarrow> Ok (Some (WebUser_from (u, ad_groups info)))
                  | Err e \<Rightarrow> Err e | Panic \<Rightarrow> Panic)"
          by (rule qmark_elim) (auto simp: return_def)
        from w4(1) show ?thesis
        proof (cases rule: create_user_cases)
          case failed
          with w4(2,3) w3(2) show ?thesis by (intro refused) (auto split: outcome.splits)
        next
          case (created u)
          with w4(2,3) w3(2) show ?thesis by (intro added) auto
        qed
      qed
    qed (use refused w2 in \<open>auto simp: tx_get_user_by_dn_def intro: keeps_intros\<close>)
  qed (use refused in \<open>auto intro: keeps_intros\<close>)
qed

lemma password_checked:
  fixes w :: "'z site_scheme"
  assumes "handle (in_ldap (check_authentication dir dn password)) (\<lambda>resp.
      case resp of Inl err \<Rightarrow> return None | Inr _ \<Rightarrow> m) w = (r, w')"
  obtains (refused) "stored w' = stored w" "r = Panic \<or> r = Ok None"
    | (passed) x t w1 where "check_authentication dir dn password (users_info w) = (Ok x, t)"
      "stored w1 = stored w" "m w1 = (r, w')"
  using assms
proof (cases rule: handle_elim)
  case (Ok x w1)
  from Ok(1) obtain t where "check_authentication dir dn password (users_info w) = (Ok x, t)"
    "w1 = w\<lparr>users_info := t\<rparr>" by (rule in_ldapE)
  with Ok(2) show thesis by (intro that(2) [of x t w1]) simp_all
next
  case (Err e w1)
  with that(1) show thesis by (auto simp: return_def elim!: in_ldapE)
qed (use that(1) in \<open>auto elim!: in_ldapE\<close>)

lemma authenticate_cases:
  fixes w :: "'z site_scheme"
  assumes "authenticate srv dir username password w = (r, w')"
  obtains (refused) "stored w' = stored w" "\<And>u. r \<noteq> Ok (Some u)"
    | (known) info u where "accepted dir (dir_calls (users_info w)) username password info"
      "stored w' = stored w" "u \<in> set (users_t (stored w))" "u_dn u = ad_dn info"
      "r = Ok (Some (WebUser_from (u, ad_groups info)))"
    | (added) info u where "accepted dir (dir_calls (users_info w)) username password info"
      "fresh_user info (stored w) u" "stored w' = insert_user u (stored w)"
      "r = Ok (Some (WebUser_from (u, ad_groups info))) \<or> r = Err (DbError Io)"
proof -
  let ?d = "stored w"
  have refused: thesis if "stored w' = ?d" "r = Panic \<or> r = Ok None \<or> (\<exists>e. r = Err e)"
    using that by (intro refused) auto
  note step = qmark_keeps [where P = "stored :: 'z site_scheme \<Rightarrow> database", consumes 1, case_names _ go stop]
  show thesis
    using assms unfolding authenticate_def
  proof (cases rule: step)
    case (go found w0)
    from go(1) obtain t0 where t0: "find_user_info dir username (users_info w) = (Ok found, t0)"
      "w0 = w\<lparr>users_info := t0\<rparr>" by (rule in_ldapE)
    have n0: "dir_calls t0 = Suc (dir_calls (users_info w))"
      using t0(1) by (rule find_user_info_OkE) simp
    show ?thesis
    proof (cases found)
      case None
      with go(2,3) show ?thesis by (auto simp: return_def intro: refused)
    next
      case (Some info)
      from go(3) [unfolded Some option.case] show ?thesis
      proof (cases rule: password_checked)
        case (passed x t1 w1)
        from t0(1) Some obtain entry es where
          "dir_search dir (dir_calls (users_info w)) (users_query dir) (login_filter username) = Inr (entry # es)"
          "AdUserInfo_try_from entry = Inr info"
          by (auto elim!: find_user_info_OkE)
        with passed(1) t0(2) n0 have acc: "accepted dir (dir_calls (users_info w)) username password info"
          by (auto simp: accepted_def elim!: check_authentication_OkE)
        from passed(3) show ?thesis
          by (cases rule: find_or_create_cases) (use passed(2) t0(2) acc refused known added in auto)
      qed (use t0(2) refused in auto)
    qed
  qed (use refused in \<open>auto intro: keeps_intros\<close>)
qed

lemma user_by_id_Ok:
  fixes w :: "'z site_scheme"
  assumes "in_db (tx_get_user_by_id srv i) w = (Ok x, w')"
  shows "x = find (\<lambda>u. u_id u = i) (users_t (working (db w)))" "stored w' = stored w"
    "users_info w' = users_info w"
proof -
  from assms obtain t where "tx_get_user_by_id srv i (db w) = (Ok x, t)" "w' = w\<lparr>db := t\<rparr>" by (rule in_dbE)
  then show "x = find (\<lambda>u. u_id u = i) (users_t (working (db w)))" "stored w' = stored w"
    "users_info w' = users_info w"
    by (auto simp: tx_get_user_by_id_def elim!: query_OkE)
qed

lemma find_token_Ok:
  fixes w :: "'z site_scheme"
  assumes "in_db (tokens_find_user_id_by_plaintext srv sha p) w = (Ok x, w')"
  shows "x = map_option t_user_id (find_token (stored w) (hash_token sha p))" "stored w' = stored w"
    "users_info w' = users_info w"
proof -
  from assms obtain t where "tokens_find_user_id_by_plaintext srv sha p (db w) = (Ok x, t)"
    "w' = w\<lparr>db := t\<rparr>" by (rule in_dbE)
  with tokens_find_cases [of srv sha p "db w" x t]
  show "x = map_option t_user_id (find_token (stored w) (hash_token sha p))" "stored w' = stored w"
    "users_info w' = users_info w" by simp_all
qed

text \<open>A session that is accepted: its user, and what the directory answered.\<close>

definition session_accepted ::
  "database \<Rightarrow> directory \<Rightarrow> nat \<Rightarrow> session_data \<Rightarrow> WebUser \<Rightarrow> bool" where
  "session_accepted d dir n data wu \<longleftrightarrow>
     (\<exists>u entry es info. data = Some (user_raw (u_id u), session_auth_hash wu) \<and>
        u \<in> set (users_t d) \<and> dir_search dir n (u_dn u) ''(mail=*)'' = Inr (entry # es) \<and>
        AdUserInfo_try_from entry = Inr info \<and> wu = WebUser_from (u, ad_groups info))"

text \<open>A bearer token that is accepted: the row, its user, and what the directory answered.\<close>

definition bearer_accepted ::
  "database \<Rightarrow> directory \<Rightarrow> nat \<Rightarrow> digest \<Rightarrow> string \<Rightarrow> WebUser \<Rightarrow> bool" where
  "bearer_accepted d dir n sha token wu \<longleftrightarrow> token \<noteq> [] \<and>
     (\<exists>k u entry es info. k \<in> set (api_tokens_t d) \<and> t_token_hash k = hash_token sha token \<and>
        u \<in> set (users_t d) \<and> u_id u = t_user_id k \<and>
        dir_search dir n (u_dn u) ''(mail=*)'' = Inr (entry # es) \<and>
        AdUserInfo_try_from entry = Inr info \<and> wu = WebUser_from (u, ad_groups info))"

lemma user_tail:
  fixes w :: "'z site_scheme"
  assumes other: "\<And>err v. fst (other err v) \<noteq> Ok (Some wu)"
    and run: "qmark DbError (in_db (begin_tx srv)) (\<lambda>_.
      qmark DbError (in_db (tx_get_user_by_id srv i)) (\<lambda>user.
      case user of
        None \<Rightarrow> return None
      | Some user \<Rightarrow>
          handle (in_ldap (get_user_info dir (u_dn user))) (\<lambda>info.
          case info of
            Inr (Some u_info) \<Rightarrow> return (Some (WebUser_from (user, ad_groups u_info)))
          | Inr None \<Rightarrow> return None
          | Inl err \<Rightarrow> other err))) w = (Ok (Some wu), w')"
  shows "\<exists>u entry es info. u \<in> set (users_t (stored w)) \<and> u_id u = i \<and>
    dir_search dir (dir_calls (users_info w)) (u_dn u) ''(mail=*)'' = Inr (entry # es) \<and>
    AdUserInfo_try_from entry = Inr info \<and> wu = WebUser_from (u, ad_groups info)"
  using run
proof (rule qmark_OkE)
  fix x w1
  assume w1: "in_db (begin_tx srv) w = (Ok x, w1)"
  assume "qmark DbError (in_db (tx_get_user_by_id srv i)) (\<lambda>user.
      case user of
        None \<Rightarrow> return None
      | Some user \<Rightarrow>
          handle (in_ldap (get_user_info dir (u_dn user))) (\<lambda>info.
          case info of
            Inr (Some u_info) \<Rightarrow> return (Some (WebUser_from (user, ad_groups u_info)))
          | Inr None \<Rightarrow> return None
          | Inl err \<Rightarrow> other err)) w1 = (Ok (Some wu), w')"
  then obtain user w2 where w2: "in_db (tx_get_user_by_id srv i) w1 = (Ok user, w2)" and
    k: "(case user of
        None \<Rightarrow> return None
      | Some user \<Rightarrow>
          handle (in_ldap (get_user_info dir (u_dn user))) (\<lambda>info.
          case info of
            Inr (Some u_info) \<Rightarrow> return (Some (WebUser_from (user, ad_groups u_info)))
          | Inr None \<Rightarrow> return None
          | Inl err \<Rightarrow> other err)) w2 = (Ok (Some wu), w')"
    by (rule qmark_OkE)
  then obtain u where u: "user = Some u" by (cases user) (auto simp: return_def)
  with user_by_id_Ok [OF w2] begin_stored [OF w1] find_SomeD [of "\<lambda>u. u_id u = i" "users_t (stored w)" u]
  have row: "u \<in> set (users_t (stored w))" "u_id u = i" "users_info w2 = users_info w" by auto
  from k u have "handle (in_ldap (get_user_info dir (u_dn u))) (\<lambda>info.
      case info of
        Inr (Some u_info) \<Rightarrow> return (Some (WebUser_from (u, ad_groups u_info)))
      | Inr None \<Rightarrow> return None
      | Inl err \<Rightarrow> other err) w2 = (Ok (Some wu), w')" by simp
  then show ?thesis
  proof (cases rule: handle_elim)
    case (Ok found w3)
    then obtain info where info: "found = Some info" "wu = WebUser_from (u, ad_groups info)"
      by (auto simp: return_def split: option.splits)
    from Ok(1) obtain t where "get_user_info dir (u_dn u) (users_info w2) = (Ok found, t)" by (rule in_ldapE)
    then obtain entry es where
      "dir_search dir (dir_calls (users_info w)) (u_dn u) ''(mail=*)'' = Inr (entry # es)"
      "AdUserInfo_try_from entry = Inr info"
      using info(1) row(3) by (auto elim!: get_user_info_OkE)
    with row info(2) show ?thesis by blast
  qed (use other in \<open>auto dest: arg_cong [where f = fst]\<close>)
qed

lemma bearer_Some:
  fixes w :: "'z site_scheme"
  assumes "authenticate_bearer srv dir sha to_str auth w = (Ok (Some wu), w')"
  shows "\<exists>h token. auth = Some h \<and> to_str h = Some (''Bearer '' @ token) \<and>
    bearer_accepted (stored w) dir (dir_calls (users_info w)) sha (trim token) wu"
proof -
  obtain h where h: "auth = Some h"
    using assms by (cases auth) (auto simp: authenticate_bearer_def return_def)
  obtain header where header: "to_str h = Some header"
    using assms h by (cases "to_str h") (auto simp: authenticate_bearer_def return_def)
  obtain token where token: "strip_prefix ''Bearer '' header = Some token"
    using assms h header
    by (cases "strip_prefix ''Bearer '' header") (auto simp: authenticate_bearer_def return_def)
  have nonempty: "trim token \<noteq> []"
    using assms h header token by (auto simp: authenticate_bearer_def return_def)
  let ?tail = "\<lambda>i. qmark DbError (in_db (begin_tx srv)) (\<lambda>_.
      qmark DbError (in_db (tx_get_user_by_id srv i)) (\<lambda>user.
      case user of
        None \<Rightarrow> return None
      | Some user \<Rightarrow>
          handle (in_ldap (get_user_info dir (u_dn user))) (\<lambda>info.
          case info of
            Inr (Some u_info) \<Rightarrow> return (Some (WebUser_from (user, ad_groups u_info)))
          | Inr None \<Rightarrow> return None
          | Inl err \<Rightarrow> throw (AnyhowErr err))))"
  from assms h header token nonempty
  have "qmark (\<lambda>e. AnyhowErr (Message (ApiTokenError_to_string e)))
      (in_db (tokens_find_user_id_by_plaintext srv sha (trim token))) (\<lambda>found.
        case found of None \<Rightarrow> return None | Some user_id \<Rightarrow> ?tail user_id) w = (Ok (Some wu), w')"
    by (simp add: authenticate_bearer_def Let_def)
  then obtain found w1 where w1:
      "in_db (tokens_find_user_id_by_plaintext srv sha (trim token)) w = (Ok found, w1)"
      "(case found of None \<Rightarrow> return None | Some user_id \<Rightarrow> ?tail user_id) w1 = (Ok (Some wu), w')"
    by (rule qmark_OkE)
  then obtain i where i: "found = Some i" by (cases found) (auto simp: return_def)
  with find_token_Ok(1) [OF w1(1)]
  have "map_option t_user_id (find_token (stored w) (hash_token sha (trim token))) = Some i" by simp
  then obtain k where
      "find_token (stored w) (hash_token sha (trim token)) = Some k" "t_user_id k = i"
    by (auto simp only: map_option_eq_Some)
  then have k: "k \<in> set (api_tokens_t (stored w))" "t_token_hash k = hash_token sha (trim token)"
      "t_user_id k = i"
    using find_SomeD [of "\<lambda>t. t_token_hash t = hash_token sha (trim token)" "api_tokens_t (stored w)" k]
    by (auto simp: find_token_def)
  from w1(2) i have "?tail i w1 = (Ok (Some wu), w')" by simp
  from user_tail [OF _ this] find_token_Ok(2,3) [OF w1(1)] k
  have "bearer_accepted (stored w) dir (dir_calls (users_info w)) sha (trim token) wu"
    unfolding bearer_accepted_def using nonempty by (auto simp: throw_def)
  moreover have "to_str h = Some (''Bearer '' @ token)"
    using header token by (simp add: strip_prefix_Some)
  ultimately show ?thesis using h by blast
qed

section \<open>Logging in\<close>

lemma login_authenticate:
  assumes "login srv dir store username password w = (r, w')"
  obtains r1 where "authenticate srv dir username password w = (r1, w')"
    "\<And>fs. r = Ok (Redirect ''/hosts'' fs) \<Longrightarrow> \<exists>wu. r1 = Ok (Some wu) \<and> store wu"
  using assms unfolding login_def
  by (rule handle_elim) (auto simp: return_def split: option.splits if_splits)

lemma login_cases:
  fixes w :: "'z site_scheme" and r :: "('b response, unit) outcome"
  assumes "login srv dir store username password w = (r, w')" and ok: "db_ok (stored w)"
  obtains (same) "stored w' = stored w" "\<And>fs. r = Ok (Redirect ''/hosts'' fs) \<Longrightarrow>
      \<exists>info u. accepted dir (dir_calls (users_info w)) username password info \<and>
        u \<in> set (users_t (stored w)) \<and> u_dn u = ad_dn info \<and> store (WebUser_from (u, ad_groups info))"
    | (joined) info u where "accepted dir (dir_calls (users_info w)) username password info"
      "fresh_user info (stored w) u" "stored w' = insert_user u (stored w)" "db_ok (stored w')"
      "\<And>fs. r = Ok (Redirect ''/hosts'' fs) \<Longrightarrow> store (WebUser_from (u, ad_groups info))"
  using assms(1)
proof (rule login_authenticate)
  fix r1
  assume run: "authenticate srv dir username password w = (r1, w')"
    and r1: "\<And>fs. r = Ok (Redirect ''/hosts'' fs) \<Longrightarrow> \<exists>wu. r1 = Ok (Some wu) \<and> store wu"
  from run show ?thesis
  proof (cases rule: authenticate_cases)
    case refused
    with r1 show ?thesis by (intro same) auto
  next
    case (known info u)
    with r1 show ?thesis by (intro same) fastforce+
  next
    case (added info u)
    then have "db_ok (stored w')" using ok db_ok_insert_user by simp
    with added r1 show ?thesis by (intro joined [of info u]) fastforce+
  qed
qed

text \<open>
  C37: whoever is let in has proved his identity: the login form answers with the redirect to the
  hosts only if the first directory entry found accepted the non-empty password in a bind, the
  user's row with the name of that entry is in the table, and the session store took the session.
  And whatever happens, the form changes at most one thing in the database: the row of such a
  user, if he had none; so the invariant of the database is kept.
\<close>

theorem login_guarded:
  fixes w :: "'z site_scheme" and r :: "('b response, unit) outcome"
  assumes "login srv dir store username password w = (r, w')" and ok: "db_ok (stored w)"
  shows "(stored w' = stored w \<or> (\<exists>info u.
        accepted dir (dir_calls (users_info w)) username password info \<and>
        fresh_user info (stored w) u \<and> stored w' = insert_user u (stored w))) \<and>
    db_ok (stored w') \<and>
    (\<forall>fs. r = Ok (Redirect ''/hosts'' fs) \<longrightarrow> (\<exists>info u.
        accepted dir (dir_calls (users_info w)) username password info \<and>
        u \<in> set (users_t (stored w')) \<and> u_dn u = ad_dn info \<and>
        store (WebUser_from (u, ad_groups info))))"
  using assms
proof (cases rule: login_cases)
  case same
  with ok show ?thesis by simp
next
  case (joined info u)
  moreover from this have "u \<in> set (users_t (stored w'))" "u_dn u = ad_dn info"
    by (simp_all add: insert_user_def fresh_user_def)
  ultimately show ?thesis by blast
qed

definition sample_entry :: SearchEntry where
  "sample_entry = \<lparr>se_dn = ''cn=carol'',
     se_attrs = [(''mail'', [''carol@x'']), (''memberOf'', [''CN=devs,OU=x''])]\<rparr>"

definition sample_directory :: directory where
  "sample_directory = \<lparr>dir_search = (\<lambda>n q f. Inr [sample_entry]),
     dir_bind = (\<lambda>n dn pw. if pw = ''secret'' then Inr () else Inl (Message ''49'')),
     users_query = ''ou=people''\<rparr>"

definition sample_site :: "pg \<Rightarrow> site" where
  "sample_site s = \<lparr>db = s, outbox = [], tg_calls = 0, clock_reads = 0,
     sent_hosts_notification = [], users_info = \<lparr>ldap_open = True, authorized_open = True, dir_calls = 0\<rparr>\<rparr>"

lemma sample_site_simps [simp]: "db (sample_site s) = s"
  "users_info (sample_site s) = \<lparr>ldap_open = True, authorized_open = True, dir_calls = 0\<rparr>"
  by (simp_all add: sample_site_def)

definition carol_login :: "(unit response, unit) outcome \<times> site" where
  "carol_login = login sample_server sample_directory (\<lambda>wu. wu_groups wu = [''devs'']) ''carol''
     ''secret'' (sample_site sample_pg)"

lemma carol_login_result: "fst carol_login = Ok (Redirect ''/hosts'' [])"
  by code_simp

theorem login_guarded_witness:
  "\<exists>info u. accepted sample_directory 0 ''carol'' ''secret'' info \<and>
     u \<in> set (users_t (stored (snd carol_login))) \<and> u_dn u = ad_dn info \<and>
     wu_groups (WebUser_from (u, ad_groups info)) = [''devs''] \<and> db_ok (stored (snd carol_login))"
  using login_guarded [of sample_server sample_directory "\<lambda>wu. wu_groups wu = [''devs'']"
      "''carol''" "''secret''" "sample_site sample_pg" "fst carol_login" "snd carol_login"]
    carol_login_result
  by (simp add: carol_login_def)

section \<open>Bearer tokens\<close>

lemma keeps_tokens_find: "keeps committed (tokens_find_user_id_by_plaintext srv sha p)"
proof (rule keepsI)
  fix s r s'
  assume "tokens_find_user_id_by_plaintext srv sha p s = (r, s')"
  then have "read_only srv TokenDatabaseError (tx_get_api_token_by_hash srv (hash_token sha p)) s =
      (case r of Ok i \<Rightarrow> fst (read_only srv TokenDatabaseError
          (tx_get_api_token_by_hash srv (hash_token sha p)) s)
        | Err e \<Rightarrow> Err e | Panic \<Rightarrow> Panic, s')"
    unfolding tokens_find_user_id_by_plaintext_def read_only_def Let_def
    by (auto elim!: qmark_elim simp: return_def)
  then show "committed s' = committed s"
    unfolding tx_get_api_token_by_hash_def by (rule read_only_query_committed)
qed

lemma keeps_authenticate_bearer:
  "keeps stored (authenticate_bearer srv dir sha to_str auth :: ('z, WebUser option) auth_call)"
proof -
  have get: "keeps stored (in_db (tokens_find_user_id_by_plaintext srv sha p) :: ('z site_scheme, _, _) io)" for p
    by (intro keeps_in_db keeps_tokens_find)
  have rows: "keeps stored (in_db (begin_tx srv) :: ('z site_scheme, _, _) io)"
    "keeps stored (in_db (tx_get_user_by_id srv i) :: ('z site_scheme, _, _) io)" for i
    unfolding tx_get_user_by_id_def by (intro keeps_intros)+
  show ?thesis
    unfolding authenticate_bearer_def Let_def
    by (auto intro!: keeps_basic keeps_qmark keeps_handle keeps_in_ldap(1) get rows
        split: option.split sum.split)
qed

lemma bearer_middleware_cases:
  fixes w :: "'z site_scheme" and r :: "('b response, unit) outcome"
  assumes "bearer_auth_middleware srv dir sha to_str auth next_route w = (r, w')"
  obtains (run) h token wu v where "auth = Some h" "to_str h = Some (''Bearer '' @ token)"
      "bearer_accepted (stored w) dir (dir_calls (users_info w)) sha (trim token) wu"
      "stored v = stored w" "next_route wu v = (r, w')"
    | (refused) "stored w' = stored w" "r = Ok (JsonError 401 ''Unauthorized'') \<or> r = Panic"
  using assms unfolding bearer_auth_middleware_def
proof (cases rule: handle_elim)
  case (Ok found v)
  then have v: "stored v = stored w" using keepsD [OF keeps_authenticate_bearer] by blast
  show ?thesis
  proof (cases found)
    case None
    with Ok v show ?thesis by (intro refused) (simp_all add: return_def)
  next
    case (Some wu)
    with Ok have "authenticate_bearer srv dir sha to_str auth w = (Ok (Some wu), v)" by simp
    from bearer_Some [OF this] Ok Some v show ?thesis by (auto intro: run)
  qed
next
  case (Err e v)
  then have "stored v = stored w" using keepsD [OF keeps_authenticate_bearer] by blast
  with Err show ?thesis by (intro refused) (simp_all add: return_def)
next
  case Panic
  then have "stored w' = stored w" using keepsD [OF keeps_authenticate_bearer] by blast
  with Panic show ?thesis by (intro refused) simp_all
qed


definition carol_token_site :: site where
  "carol_token_site = sample_site token_pg"


section \<open>Sessions\<close>

lemma keeps_get_user:
  "keeps stored (get_user srv dir i :: ('z, WebUser option) auth_call)"
proof -
  have rows: "keeps stored (in_db (begin_tx srv) :: ('z site_scheme, _, _) io)"
    "keeps stored (in_db (tx_get_user_by_id srv i) :: ('z site_scheme, _, _) io)" for i
    unfolding tx_get_user_by_id_def by (intro keeps_intros)+
  show ?thesis
    unfolding get_user_def
    by (auto intro!: keeps_basic keeps_qmark keeps_handle keeps_in_ldap(1) rows
        split: option.split sum.split)
qed

lemma keeps_resume_session:
  "keeps stored (resume_session srv dir data :: ('z, WebUser option) auth_call)"
  unfolding resume_session_def
  by (auto intro!: keeps_basic keeps_qmark keeps_get_user split: option.split)

lemma resume_session_Some:
  fixes w :: "'z site_scheme"
  assumes "resume_session srv dir data w = (Ok (Some wu), w')"
  shows "session_accepted (stored w) dir (dir_calls (users_info w)) data wu"
proof -
  obtain i hash where data: "data = Some (i, hash)"
    using assms by (cases data) (auto simp: resume_session_def return_def)
  then have get: "get_user srv dir i w = (Ok (Some wu), w')" and hash: "session_auth_hash wu = hash"
    using assms by (auto simp: resume_session_def return_def elim!: qmark_OkE split: option.splits if_splits)
  from user_tail [OF _ get [unfolded get_user_def]] obtain u entry es info where u:
    "u \<in> set (users_t (stored w))" "u_id u = UserId i"
    "dir_search dir (dir_calls (users_info w)) (u_dn u) ''(mail=*)'' = Inr (entry # es)"
    "AdUserInfo_try_from entry = Inr info" "wu = WebUser_from (u, ad_groups info)"
    by (auto simp: return_def)
  have "data = Some (user_raw (u_id u), session_auth_hash wu)" using data hash u(2) by simp
  with u(1,3-5) show ?thesis unfolding session_accepted_def by blast
qed

text \<open>The request goes on with the user of its session, or without one; the database is as it was.\<close>

lemma auth_layer_cases:
  fixes w :: "'z site_scheme" and r :: "('b response, unit) outcome"
  assumes "auth_layer srv dir data app w = (r, w')"
  obtains (run) session_user v where "resume_session srv dir data w = (Ok session_user, v)"
      "stored v = stored w" "app session_user v = (r, w')"
      "\<And>wu. session_user = Some wu \<Longrightarrow>
        session_accepted (stored w) dir (dir_calls (users_info w)) data wu"
    | (refused) "stored w' = stored w" "r = Ok (StatusOnly 500) \<or> r = Panic"
  using assms unfolding auth_layer_def
proof (cases rule: handle_elim)
  case (Ok session_user v)
  with keepsD [OF keeps_resume_session] resume_session_Some show ?thesis
    by (intro run) auto
next
  case (Err e v)
  then have "stored v = stored w" using keepsD [OF keeps_resume_session] by blast
  with Err show ?thesis by (intro refused) (simp_all add: return_def)
next
  case Panic
  then have "stored w' = stored w" using keepsD [OF keeps_resume_session] by blast
  with Panic show ?thesis by (intro refused) simp_all
qed

lemma tokens_find_fine:
  assumes "fine srv"
  obtains t where "tokens_find_user_id_by_plaintext srv sha p s =
      (Ok (map_option t_user_id (find_token (committed s) (hash_token sha p))), t)"
    "committed t = committed s"
  using assms
  by (simp add: tokens_find_user_id_by_plaintext_def tx_get_api_token_by_hash_def qmark_def
      fine_simps return_def Let_def find_token_def)

lemma get_user_info_answers:
  assumes "authorized_open s" and "dir_search dir (dir_calls s) dn ''(mail=*)'' = Inr (entry # es)"
    and "AdUserInfo_try_from entry = Inr info"
  shows "get_user_info dir dn s = (Ok (Some info), s\<lparr>dir_calls := Suc (dir_calls s)\<rparr>)"
  using assms
  by (simp add: get_user_info_def do_authorized_ldap_request_def get_authorized_ldap_def ask_def
      first_user_info_def qmark_def return_def)

text \<open>
  C39: the plaintext shown at the creation of a token opens the API: as long as the row is stored
  and the directory still lists the user, a request that sends it after \<open>Bearer\<close> is authenticated
  as the user who created it, whatever happened to the database in between.
\<close>

theorem token_authenticates:
  fixes v :: "'z site_scheme"
  assumes create: "tokens_create srv svc sha bytes (u_id x) name s = (Ok c, s1)"
    and present: "ct_token c \<in> set (api_tokens_t (stored v))" "x \<in> set (users_t (stored v))"
    and ok: "db_ok (stored v)" and fine: "fine srv'" and "open": "authorized_open (users_info v)"
    and dir: "dir_search dir (dir_calls (users_info v)) (u_dn x) ''(mail=*)'' = Inr (entry # es)"
      "AdUserInfo_try_from entry = Inr info"
    and header: "to_str h = Some (''Bearer '' @ ct_plaintext c)"
  shows "fst (authenticate_bearer srv' dir sha to_str (Some h) v) =
    Ok (Some (WebUser_from (x, ad_groups info)))"
proof -
  obtain k where c: "c = \<lparr>ct_token = k, ct_plaintext = generate_plaintext bytes\<rparr>"
      "t_user_id k = u_id x" "t_token_hash k = hash_token sha (generate_plaintext bytes)"
    using create by (rule tokens_create_cases) auto
  have "strip_prefix ''Bearer '' (''Bearer '' @ ct_plaintext c) = Some (generate_plaintext bytes)"
    unfolding strip_prefix_append c(1) by simp
  then obtain sent where plain: "to_str h = Some sent"
      "strip_prefix ''Bearer '' sent = Some (generate_plaintext bytes)"
    by (rule that [OF header])
  have nonempty: "generate_plaintext bytes \<noteq> []" by (simp add: generate_plaintext_def)
  have "find_token (stored v) (hash_token sha (generate_plaintext bytes)) = Some k"
    using tokens.find_key [OF tokens_distinct [OF ok]] present(1) c by simp
  with fine c(2) obtain t where t:
      "tokens_find_user_id_by_plaintext srv' sha (generate_plaintext bytes) (db v) = (Ok (Some (u_id x)), t)"
      "committed t = stored v"
    by (metis option.map(2) tokens_find_fine)
  have row: "find (\<lambda>u. u_id u = u_id x) (users_t (stored v)) = Some x"
    using find_distinct_eq [OF db_okD(1) [OF ok] present(2)] .
  from get_user_info_answers [OF "open" dir] t row fine
  show ?thesis
    by (simp add: authenticate_bearer_def plain nonempty trim_plaintext qmark_def in_db_def in_ldap_def
        tx_get_user_by_id_def fine_simps handle_def return_def get_user_info_answers [OF "open" dir])
qed

theorem token_authenticates_witness:
  "\<exists>c s1. alice_token = (Ok c, s1) \<and>
     fst (authenticate_bearer sample_server sample_directory sample_sha (\<lambda>h. Some (''Bearer '' @ h))
       (Some (ct_plaintext c)) (sample_site s1)) =
       Ok (Some (WebUser_from (alice, [''devs''])))"
proof -
  obtain c s1 where run: "alice_token = (Ok c, s1)" and ok: "db_ok (committed s1)"
      and present: "ct_token c \<in> set (api_tokens_t (committed s1))"
      and users: "users_t (committed s1) = [alice, bob]"
    by (rule alice_token_stored)
  let ?info = "\<lparr>ad_dn = ''cn=carol'', ad_email = ''carol@x'', ad_groups = [''devs'']\<rparr>"
  have create: "tokens_create sample_server sample_tokens sample_sha [1, 0xab] (u_id alice)
      (Some '' ci '') sample_pg = (Ok c, s1)"
    using run by (simp add: alice_token_def alice_def)
  have info: "AdUserInfo_try_from sample_entry = Inr ?info" by code_simp
  have "fst (authenticate_bearer sample_server sample_directory sample_sha
      (\<lambda>h. Some (''Bearer '' @ h)) (Some (ct_plaintext c)) (sample_site s1)) =
      Ok (Some (WebUser_from (alice, ad_groups ?info)))"
    by (rule token_authenticates [OF create, where entry = sample_entry and es = "[]"])
      (use present users ok info in \<open>simp_all add: sample_directory_def\<close>)
  with run show ?thesis by auto
qed

end
