(* ===== verification/Ledger.thy ===== *)
theory Ledger
  imports Release_Props Bot_Props Auth_Props
begin

text \<open>
  What the whole program promises, without tables, transactions or handlers: a ledger of known
  hosts and users, leases and credentials, the actions on it with their guards, and the
  invariant that every permitted action keeps.
\<close>

section \<open>The ledger and its actions\<close>

record ledger =
  lg_hosts :: "HostId set"
  lg_leases :: "HostId \<Rightarrow> (UserId \<times> timestamptz) option"
  lg_users :: "UserId set"
  lg_credentials :: "(string \<times> UserId) set"
  lg_limits :: "AdGroupLeaseLimit list"

definition leased_by :: "ledger \<Rightarrow> UserId \<Rightarrow> HostId set" where
  "leased_by l u = {i. \<exists>t. lg_leases l i = Some (u, t)}"

text \<open>
  A lease comes with the limit of the user, an extension with the point in time before which a
  lease must end to be extended.
\<close>

datatype action =
    Nothing
  | Lease UserId "HostId set" timestamptz nat
  | GiveBack UserId "HostId set"
  | Expire timestamptz
  | Extend UserId timestamptz int
  | Join UserId
  | Grant UserId string
  | Revoke UserId string

fun allowed :: "action \<Rightarrow> ledger \<Rightarrow> bool" where
  "allowed (Lease u is t n) l \<longleftrightarrow> is \<inter> leased_by l u = {} \<and> finite is \<and>
     card (leased_by l u) + card is \<le> n \<and> (is \<inter> lg_hosts l \<noteq> {} \<longrightarrow> u \<in> lg_users l)"
| "allowed (Extend u before span) l \<longleftrightarrow> 0 < span \<and> u \<in> lg_users l"
| "allowed (Join u) l \<longleftrightarrow> u \<notin> lg_users l"
| "allowed (Grant u h) l \<longleftrightarrow> u \<in> lg_users l \<and> h \<notin> fst ` lg_credentials l"
| "allowed a l \<longleftrightarrow> True"

fun apply_action :: "action \<Rightarrow> ledger \<Rightarrow> ledger" where
  "apply_action Nothing l = l"
| "apply_action (Lease u is t n) l =
     l\<lparr>lg_leases := (\<lambda>i. if i \<in> is \<and> i \<in> lg_hosts l then Some (u, t) else lg_leases l i)\<rparr>"
| "apply_action (GiveBack u is) l =
     l\<lparr>lg_leases := (\<lambda>i. if i \<in> is \<and> i \<in> leased_by l u then None else lg_leases l i)\<rparr>"
| "apply_action (Expire now) l =
     l\<lparr>lg_leases := (\<lambda>i. case lg_leases l i of
          None \<Rightarrow> None | Some (u, t) \<Rightarrow> if t < now then None else Some (u, t))\<rparr>"
| "apply_action (Extend u before span) l =
     l\<lparr>lg_leases := (\<lambda>i. case lg_leases l i of
          None \<Rightarrow> None
        | Some (v, t) \<Rightarrow> if v = u \<and> t < before then Some (v, t + span) else Some (v, t))\<rparr>"
| "apply_action (Join u) l = l\<lparr>lg_users := insert u (lg_users l)\<rparr>"
| "apply_action (Grant u h) l = l\<lparr>lg_credentials := insert (h, u) (lg_credentials l)\<rparr>"
| "apply_action (Revoke u h) l = l\<lparr>lg_credentials := lg_credentials l - {(h, u)}\<rparr>"

section \<open>Its invariant\<close>

definition ledger_ok :: "ledger \<Rightarrow> bool" where
  "ledger_ok l \<longleftrightarrow> finite (lg_hosts l) \<and>
     (\<forall>i u t. lg_leases l i = Some (u, t) \<longrightarrow> i \<in> lg_hosts l \<and> u \<in> lg_users l) \<and>
     (\<forall>h u v. (h, u) \<in> lg_credentials l \<longrightarrow> (h, v) \<in> lg_credentials l \<longrightarrow> u = v) \<and>
     (\<forall>h u. (h, u) \<in> lg_credentials l \<longrightarrow> u \<in> lg_users l)"

lemma ledger_okI:
  assumes "finite (lg_hosts l)"
    and "\<And>i u t. lg_leases l i = Some (u, t) \<Longrightarrow> i \<in> lg_hosts l \<and> u \<in> lg_users l"
    and "\<And>h u v. (h, u) \<in> lg_credentials l \<Longrightarrow> (h, v) \<in> lg_credentials l \<Longrightarrow> u = v"
    and "\<And>h u. (h, u) \<in> lg_credentials l \<Longrightarrow> u \<in> lg_users l"
  shows "ledger_ok l"
  unfolding ledger_ok_def using assms by meson

lemma ledger_okD:
  assumes "ledger_ok l"
  shows "finite (lg_hosts l)"
    and "lg_leases l i = Some (u, t) \<Longrightarrow> i \<in> lg_hosts l \<and> u \<in> lg_users l"
    and "(h, u) \<in> lg_credentials l \<Longrightarrow> (h, v) \<in> lg_credentials l \<Longrightarrow> u = v"
    and "(h, u) \<in> lg_credentials l \<Longrightarrow> u \<in> lg_users l"
  using assms unfolding ledger_ok_def by blast+

text \<open>An action that leaves users and credentials alone and only moves leases of known hosts.\<close>

lemma ledger_ok_leases:
  assumes "ledger_ok l"
    and "\<And>i u t. f i = Some (u, t) \<Longrightarrow> (\<exists>t'. lg_leases l i = Some (u, t')) \<or>
      i \<in> lg_hosts l \<and> u \<in> lg_users l"
  shows "ledger_ok (l\<lparr>lg_leases := f\<rparr>)"
proof (rule ledger_okI)
  fix i u t
  assume "lg_leases (l\<lparr>lg_leases := f\<rparr>) i = Some (u, t)"
  with assms(2) have "(\<exists>t'. lg_leases l i = Some (u, t')) \<or> i \<in> lg_hosts l \<and> u \<in> lg_users l" by simp
  with ledger_okD(2) [OF assms(1)]
  show "i \<in> lg_hosts (l\<lparr>lg_leases := f\<rparr>) \<and> u \<in> lg_users (l\<lparr>lg_leases := f\<rparr>)" by auto
qed (use ledger_okD(1,3,4) [OF assms(1)] in auto)

lemma ledger_ok_action:
  assumes ok: "ledger_ok l" and "allowed a l"
  shows "ledger_ok (apply_action a l)"
proof (cases a)
  case Nothing
  with ok show ?thesis by simp
next
  case (Lease u js t n)
  with assms(2) have "js \<inter> lg_hosts l \<noteq> {} \<longrightarrow> u \<in> lg_users l" by simp
  then show ?thesis
    unfolding Lease apply_action.simps by (intro ledger_ok_leases [OF ok]) (auto split: if_splits)
next
  case (GiveBack u js)
  then show ?thesis by (auto intro!: ledger_ok_leases [OF ok] split: if_splits)
next
  case (Expire now)
  then show ?thesis by (auto intro!: ledger_ok_leases [OF ok] split: if_splits option.splits)
next
  case (Extend u before span)
  then show ?thesis by (auto intro!: ledger_ok_leases [OF ok] split: if_splits option.splits)
next
  case (Join u)
  then show ?thesis using ledger_okD [OF ok] by (auto intro!: ledger_okI)
next
  case (Grant u h)
  with assms(2) have "u \<in> lg_users l" "\<And>v. (h, v) \<notin> lg_credentials l" by force+
  with Grant ledger_okD [OF ok] show ?thesis by (auto intro!: ledger_okI)
next
  case (Revoke u h)
  then show ?thesis using ledger_okD [OF ok] by (auto intro!: ledger_okI)
qed

text \<open>What no action changes.\<close>

lemma apply_action_keeps [simp]:
  "lg_hosts (apply_action a l) = lg_hosts l" "lg_limits (apply_action a l) = lg_limits l"
  by (cases a; simp)+

text \<open>What an action does to the lease of one host.\<close>

lemma lease_changed_by:
  assumes "lg_leases l i = Some (v, t)" and "lg_leases (apply_action a l) i \<noteq> Some (v, t)"
  obtains (given_back) js where "a = GiveBack v js" "i \<in> js" "lg_leases (apply_action a l) i = None"
    | (expired) now where "a = Expire now" "t < now" "lg_leases (apply_action a l) i = None"
    | (extended) before span where "a = Extend v before span" "t < before"
        "lg_leases (apply_action a l) i = Some (v, t + span)"
    | (taken) u js until n where "a = Lease u js until n" "i \<in> js"
        "lg_leases (apply_action a l) i = Some (u, until)"
proof (cases a)
  case (GiveBack u "is")
  with assms show ?thesis by (intro given_back [of "is"]) (auto simp: leased_by_def split: if_splits)
next
  case (Expire now)
  with assms show ?thesis by (intro expired [of now]) (auto split: if_splits)
next
  case (Extend u before span)
  with assms show ?thesis by (intro extended [of before span]) (auto split: if_splits)
next
  case (Lease u "is" until n)
  with assms show ?thesis by (intro taken [of u "is" until n]) (auto split: if_splits)
qed (use assms in auto)

section \<open>The ledger of a database\<close>

definition ledger_of :: "database \<Rightarrow> ledger" where
  "ledger_of d = \<lparr>lg_hosts = host_ids d, lg_leases = holder d, lg_users = user_ids d,
     lg_credentials = (\<lambda>k. (t_token_hash k, t_user_id k)) ` set (api_tokens_t d),
     lg_limits = lease_limits_t d\<rparr>"

lemma ledger_of_simps [simp]:
  "lg_hosts (ledger_of d) = host_ids d" "lg_leases (ledger_of d) = holder d"
  "lg_users (ledger_of d) = user_ids d" "lg_limits (ledger_of d) = lease_limits_t d"
  "leased_by (ledger_of d) u = held d u"
  by (auto simp: ledger_of_def leased_by_def held_iff)

lemma credentials_of: "lg_credentials (ledger_of d) =
    (\<lambda>k. (t_token_hash k, t_user_id k)) ` set (api_tokens_t d)"
  by (simp add: ledger_of_def)

lemma ledger_of_ok:
  assumes ok: "db_ok d"
  shows "ledger_ok (ledger_of d)"
proof (rule ledger_okI)
  show "finite (lg_hosts (ledger_of d))" by (simp add: host_ids_def)
next
  fix i u t
  assume i: "lg_leases (ledger_of d) i = Some (u, t)"
  then obtain h where "host_row d i = Some h" "row_holder h = Some (u, t)"
    by (auto simp: holder_def bind_eq_Some_conv)
  then have "h \<in> set (hosts_t d)" "h_user_id h = Some u"
    by (auto simp: row_holder_def dest: host_row_Some split: option.splits)
  with db_okD(3) [OF ok] have "u \<in> user_ids d" by blast
  with i show "i \<in> lg_hosts (ledger_of d) \<and> u \<in> lg_users (ledger_of d)"
    using holder_known [of d i] by simp
next
  fix h u v
  assume "(h, u) \<in> lg_credentials (ledger_of d)" "(h, v) \<in> lg_credentials (ledger_of d)"
  then show "u = v"
    using distinct_map_unique [OF db_okD(6) [OF ok]] by (auto simp: credentials_of)
next
  fix h u
  assume "(h, u) \<in> lg_credentials (ledger_of d)"
  moreover have "t_user_id k \<in> user_ids d" if "k \<in> set (api_tokens_t d)" for k
    using ok that by (simp add: db_ok_def schema_ok_def tokens_ok_def)
  ultimately show "u \<in> lg_users (ledger_of d)" by (auto simp: credentials_of)
qed

text \<open>The updates of the registry as actions.\<close>

lemma ledger_eqI:
  assumes "host_ids d' = lg_hosts l" "\<And>i. holder d' i = lg_leases l i" "user_ids d' = lg_users l"
    and "(\<lambda>k. (t_token_hash k, t_user_id k)) ` set (api_tokens_t d') = lg_credentials l"
    and "lease_limits_t d' = lg_limits l"
  shows "ledger_of d' = (l :: ledger)"
  using assms by (intro ledger.equality) (simp_all add: fun_eq_iff credentials_of)

lemma ledger_assign:
  "ledger_of (assign_hosts u js t d) = apply_action (Lease u (set js) t n) (ledger_of d)"
  by (rule ledger_eqI) (simp_all add: holder_assign credentials_of)

lemma ledger_clear_for:
  "ledger_of (clear_hosts (\<lambda>h. h_id h \<in> set js \<and> h_user_id h = Some u) d) =
     apply_action (GiveBack u (set js)) (ledger_of d)"
  by (rule ledger_eqI) (simp_all add: book.book_free_for credentials_of)

lemma ledger_clear_user:
  "ledger_of (clear_hosts (\<lambda>h. h_user_id h = Some u) d) =
     apply_action (GiveBack u UNIV) (ledger_of d)"
  by (rule ledger_eqI) (simp_all add: book.book_free_user credentials_of)

lemma ledger_expire:
  assumes "holder d' = release_book d now" and "d' = clear_hosts P d"
  shows "ledger_of d' = apply_action (Expire (to_timestamptz now)) (ledger_of d)"
proof (rule ledger_eqI)
  show "holder d' i = lg_leases (apply_action (Expire (to_timestamptz now)) (ledger_of d)) i" for i
    using assms(1) by (simp add: release_book_def)
qed (simp_all add: assms(2) credentials_of)

lemma other_tables:
  "hosts_t d' = hosts_t d \<Longrightarrow> host_ids d' = host_ids d"
  "hosts_t d' = hosts_t d \<Longrightarrow> holder d' i = holder d i"
  "users_t d' = users_t d \<Longrightarrow> user_ids d' = user_ids d"
  by (simp_all add: host_ids_def holder_def host_row_def user_ids_def)

lemma ledger_insert_user:
  "ledger_of (insert_user u d) = apply_action (Join (u_id u)) (ledger_of d)"
proof -
  have "hosts_t (insert_user u d) = hosts_t d" by (simp add: insert_user_def)
  note same = other_tables(1,2) [OF this]
  show ?thesis
    by (intro ledger_eqI)
      (simp_all only: apply_action.simps ledger.simps ledger_of_simps credentials_of same,
       simp_all add: insert_user_def user_ids_def credentials_of)
qed

lemma ledger_add_token:
  "ledger_of (add_token k d) = apply_action (Grant (t_user_id k) (t_token_hash k)) (ledger_of d)"
proof -
  have "hosts_t (add_token k d) = hosts_t d" "users_t (add_token k d) = users_t d"
    by (simp_all add: add_token_def)
  note same = other_tables(1,2) [OF this(1)] other_tables(3) [OF this(2)]
  show ?thesis
    by (intro ledger_eqI) (simp_all add: same credentials_of, simp_all add: add_token_def)
qed

lemma ledger_drop_token:
  assumes "db_ok d"
  shows "\<exists>h. ledger_of (drop_tokens (\<lambda>k. t_id k = i \<and> t_user_id k = u) d) =
    apply_action (Revoke u h) (ledger_of d) \<or>
    drop_tokens (\<lambda>k. t_id k = i \<and> t_user_id k = u) d = d"
proof (cases "\<exists>k \<in> set (api_tokens_t d). t_id k = i \<and> t_user_id k = u")
  case False
  then show ?thesis by (auto simp: drop_tokens_def intro!: filter_True)
next
  case True
  then obtain k where k: "k \<in> set (api_tokens_t d)" "t_id k = i" "t_user_id k = u" by blast
  let ?f = "\<lambda>k. (t_token_hash k, t_user_id k)"
  have "j = k" if "j \<in> set (api_tokens_t d)" "t_id j = i \<or> t_token_hash j = t_token_hash k" for j
    using that k distinct_map_unique [OF db_okD(5) [OF assms]]
      distinct_map_unique [OF db_okD(6) [OF assms]] by metis
  then have creds: "?f ` {j \<in> set (api_tokens_t d). \<not> (t_id j = i \<and> t_user_id j = u)} =
      ?f ` set (api_tokens_t d) - {(t_token_hash k, u)}"
    using k by auto
  let ?d' = "drop_tokens (\<lambda>k. t_id k = i \<and> t_user_id k = u) d"
  have "hosts_t ?d' = hosts_t d" "users_t ?d' = users_t d" by (simp_all add: drop_tokens_def)
  note same = other_tables(1,2) [OF this(1)] other_tables(3) [OF this(2)]
  have "ledger_of ?d' = apply_action (Revoke u (t_token_hash k)) (ledger_of d)"
    using creds by (intro ledger_eqI) (simp_all add: same credentials_of, simp_all add: drop_tokens_def)
  then show ?thesis by blast
qed

lemma ledger_set_tg: "ledger_of (set_tg_handle u tg d) = ledger_of d"
proof -
  have "hosts_t (set_tg_handle u tg d) = hosts_t d"
    "api_tokens_t (set_tg_handle u tg d) = api_tokens_t d"
    "lease_limits_t (set_tg_handle u tg d) = lease_limits_t d" by (simp_all add: set_tg_handle_def)
  then show ?thesis
    by (intro ledger_eqI)
      (simp_all add: other_tables(1,2) [OF \<open>hosts_t _ = _\<close>] credentials_of)
qed

lemma ledger_prolong:
  assumes "set js = expiring d now u"
  shows "ledger_of (prolong_hosts js hours d) =
    apply_action (Extend u (to_timestamptz (now + EXPIRATION_NOTIFY_WINDOW)) (hours * hour_us))
      (ledger_of d)"
proof (rule ledger_eqI)
  fix i
  have "i \<in> set js \<longleftrightarrow> (\<exists>t. holder d i = Some (u, t) \<and> t < to_timestamptz (now + EXPIRATION_NOTIFY_WINDOW))"
    using assms by (simp add: expiring_def ending_def)
  then show "holder (prolong_hosts js hours d) i = lg_leases (apply_action
      (Extend u (to_timestamptz (now + EXPIRATION_NOTIFY_WINDOW)) (hours * hour_us)) (ledger_of d)) i"
    by (auto simp: holder_prolong split: option.split)
qed (simp_all add: credentials_of)

end
