(* ===== verification/Templates.thy ===== *)
theory Templates
  imports Auth Users_Service
begin

text \<open>
  The data that pages and JSON bodies show: the structures and conversions of
  \<open>src/src/web/templates.rs\<close>, and the state of the web layer, \<open>AppState\<close> of
  \<open>src/src/web/mod.rs\<close>. A conversion that computes the time left reads the clock, so it is a
  call. What askama renders from a page is not modelled: a page is its data.
\<close>

section \<open>Durations as text\<close>

definition format_duration :: "duration \<Rightarrow> string" where
  "format_duration dur =
     (let days = num_days dur;
          hours = num_hours (dur - days * day);
          minutes = num_minutes (dur - days * day - hours * hour)
      in show_int days @ '' days, '' @ show_int hours @ '' hours, '' @ show_int minutes @ '' minutes'')"

section \<open>What is shown\<close>

record UserInfo =
  ui_login :: string
  ui_groups :: "string list"
  ui_tg_linked :: bool
  ui_link :: string

definition UserInfo_from :: "WebUser \<Rightarrow> UserInfo" where
  "UserInfo_from u = \<lparr>ui_login = wu_username u, ui_groups = wu_groups u,
     ui_tg_linked = (wu_tg_handle u \<noteq> None), ui_link = wu_link u\<rparr>"

record GroupInfo =
  gi_id :: GroupId
  gi_name :: string

definition GroupInfo_from :: "Group \<Rightarrow> GroupInfo" where
  "GroupInfo_from g = \<lparr>gi_id = g_id g, gi_name = g_name g\<rparr>"

record LeaseInfo =
  li_leased_until :: time
  li_valid_for :: string
  li_leased_by :: string

record HostInfo =
  hi_id :: HostId
  hi_hostname :: string
  hi_ip_address :: string
  hi_lease_info :: "LeaseInfo option"
  hi_group :: "GroupInfo option"

text \<open>\<open>into_iter().map(f).collect()\<close> where \<open>f\<close> is a call.\<close>

fun map_each :: "('a \<Rightarrow> ('s, 'b, 'e) io) \<Rightarrow> 'a list \<Rightarrow> ('s, 'b list, 'e) io" where
  "map_each f [] = return []"
| "map_each f (x # xs) = qmark id (f x) (\<lambda>y. qmark id (map_each f xs) (\<lambda>ys. return (y # ys)))"

definition LeaseInfo_from :: "env \<Rightarrow> User \<times> timestamptz \<Rightarrow> ('z world_scheme, LeaseInfo, 'e) io" where
  "LeaseInfo_from env value =
     (case value of (user, leased_until) \<Rightarrow>
       qmark id (utc_now env) (\<lambda>now.
       return \<lparr>li_leased_until = of_timestamptz leased_until,
               li_valid_for = format_duration (of_timestamptz leased_until - now),
               li_leased_by = u_email user\<rparr>))"

definition lease_info_of ::
  "env \<Rightarrow> User option \<Rightarrow> timestamptz option \<Rightarrow> ('z world_scheme, LeaseInfo option, 'e) io" where
  "lease_info_of env user leased_until =
     (case (user, leased_until) of
        (Some user, Some leased_until) \<Rightarrow>
          qmark id (LeaseInfo_from env (user, leased_until)) (\<lambda>info. return (Some info))
      | _ \<Rightarrow> return None)"

definition HostInfo_from_pair ::
  "env \<Rightarrow> Host \<times> User option \<Rightarrow> ('z world_scheme, HostInfo, 'e) io" where
  "HostInfo_from_pair env value =
     (case value of (host, user) \<Rightarrow>
       qmark id (lease_info_of env user (h_leased_until host)) (\<lambda>info.
       return \<lparr>hi_id = h_id host, hi_hostname = h_hostname host,
               hi_ip_address = show_ip (net_ip (h_ip_address host)), hi_lease_info = info,
               hi_group = None\<rparr>))"

definition HostInfo_from_host :: "env \<Rightarrow> Host \<Rightarrow> ('z world_scheme, HostInfo, 'e) io" where
  "HostInfo_from_host env value = HostInfo_from_pair env (value, None)"

definition HostInfo_from_leased :: "env \<Rightarrow> LeasedHost \<Rightarrow> ('z world_scheme, HostInfo, 'e) io" where
  "HostInfo_from_leased env value =
     qmark id (LeaseInfo_from env (lh_user value, lh_leased_until value)) (\<lambda>info.
     return \<lparr>hi_id = lh_id value, hi_hostname = lh_hostname value,
             hi_ip_address = show_ip (net_ip (lh_ip_address value)), hi_lease_info = Some info,
             hi_group = map_option GroupInfo_from (lh_group value)\<rparr>)"

definition listing_user :: "HostListing \<Rightarrow> User option" where
  "listing_user value =
     (case (hl_user_id value, hl_dn value, hl_email value, hl_link value) of
        (Some i, Some dn, Some email, Some link) \<Rightarrow>
          Some \<lparr>u_id = i, u_dn = dn, u_tg_handle = hl_tg_handle value, u_email = email,
                u_link = link\<rparr>
      | _ \<Rightarrow> None)"

definition HostInfo_from_listing :: "env \<Rightarrow> HostListing \<Rightarrow> ('z world_scheme, HostInfo, 'e) io" where
  "HostInfo_from_listing env value =
     qmark id (lease_info_of env (listing_user value) (hl_leased_until value)) (\<lambda>info.
     return \<lparr>hi_id = hl_id value, hi_hostname = hl_hostname value,
             hi_ip_address = show_ip (net_ip (hl_ip_address value)), hi_lease_info = info,
             hi_group = map_option GroupInfo_from (hl_group value)\<rparr>)"

section \<open>Pages\<close>

record TokensTokenInfo =
  ti_id :: ApiTokenId
  ti_name :: "string option"
  ti_created_at :: string

record HostsLeasePage =
  hp_groups :: "GroupInfo list"
  hp_selected_group :: GroupInfo
  hp_hosts :: "HostInfo list"
  hp_leased :: "HostInfo list"
  hp_error :: "string option"

record TokensPage =
  tp_tokens :: "TokensTokenInfo list"
  tp_created_token :: "string option"
  tp_error :: "string option"

datatype page =
    LeasePage HostsLeasePage
  | AllHostsPage "HostInfo list"
  | TokensListPage TokensPage

record HostsPage =
  pg_page :: page
  pg_user :: UserInfo
  pg_auth_link :: "string option"
  pg_version :: string

text \<open>The bodies of answers.\<close>

datatype body =
    Page HostsPage
  | LoginPage "string option"
  | Groups "GroupInfo list"
  | Hosts "HostInfo list"
  | OneHost HostInfo

section \<open>The state of the web layer\<close>

record AppState =
  surroundings :: env
  hosts_service :: HostsService
  api_tokens_service :: ApiTokensService
  hash_order :: "HostId \<Rightarrow> nat"
  sha2 :: digest
  to_rfc3339 :: "time \<Rightarrow> string"
  app_auth_link :: "string option"
  app_version :: string
  app_directory :: directory

abbreviation app_server :: "AppState \<Rightarrow> server" where
  "app_server st \<equiv> postgres (surroundings st)"

abbreviation app_user :: "WebUser \<Rightarrow> UserId" where
  "app_user user \<equiv> UserId (wu_id user)"

text \<open>
  The two calls of the hosts service that read the clock, as every front end makes them.
\<close>

definition lease_now ::
  "AppState \<Rightarrow> UserId \<Rightarrow> string list \<Rightarrow> HostId list \<Rightarrow> duration \<Rightarrow>
   ('z world_scheme, LeasedHost list, HostError) io" where
  "lease_now st user_id groups hosts_ids lease_for =
     qmark id (utc_now (surroundings st)) (\<lambda>now.
     in_db (hosts_lease (app_server st) (hosts_service st) (hash_order st) now user_id groups
       hosts_ids lease_for))"

definition lease_random_now ::
  "AppState \<Rightarrow> UserId \<Rightarrow> string list \<Rightarrow> duration \<Rightarrow> GroupId \<Rightarrow>
   ('z world_scheme, LeasedHost, HostError) io" where
  "lease_random_now st user_id groups lease_for group_id =
     qmark id (utc_now (surroundings st)) (\<lambda>now.
     in_db (hosts_lease_random (app_server st) (hosts_service st) now user_id groups lease_for
       group_id))"

text \<open>The users by identifier: a later entry of the listing replaces an earlier one.\<close>

definition users_by_id :: "User list \<Rightarrow> UserId \<Rightarrow> User option" where
  "users_by_id users = map_of (rev (map (\<lambda>u. (u_id u, u)) users))"

definition with_user :: "User list \<Rightarrow> Host \<Rightarrow> Host \<times> User option" where
  "with_user users host = (host, Option.bind (h_user_id host) (users_by_id users))"

section \<open>Rules\<close>

lemma keeps_map_each [keeps_intros]: "(\<And>x. keeps P (f x)) \<Longrightarrow> keeps P (map_each f xs)"
  by (induction xs) (auto intro!: keeps_basic keeps_qmark)

lemma keeps_conversions [keeps_intros]:
  "keeps db (LeaseInfo_from env v)" "keeps db (lease_info_of env user until)"
  "keeps db (HostInfo_from_pair env hu)" "keeps db (HostInfo_from_host env h)"
  "keeps db (HostInfo_from_leased env l)" "keeps db (HostInfo_from_listing env hl)"
proof -
  show lease: "keeps db (LeaseInfo_from env v)" for env v
    unfolding LeaseInfo_from_def by (auto intro: keeps_intros split: prod.split)
  show info: "keeps db (lease_info_of env user until)" for env user until
    unfolding lease_info_of_def by (auto intro!: keeps_basic keeps_qmark lease split: option.split)
  show pair: "keeps db (HostInfo_from_pair env hu)" for env hu
    unfolding HostInfo_from_pair_def by (auto intro!: keeps_basic keeps_qmark info split: prod.split)
  show "keeps db (HostInfo_from_host env h)" unfolding HostInfo_from_host_def by (rule pair)
  show "keeps db (HostInfo_from_leased env l)" "keeps db (HostInfo_from_listing env hl)"
    unfolding HostInfo_from_leased_def HostInfo_from_listing_def
    by (auto intro!: keeps_basic keeps_qmark lease info)
qed

text \<open>The conversions of leased hosts always return.\<close>

definition returns :: "('s, 'a, 'e) io \<Rightarrow> bool" where
  "returns m \<longleftrightarrow> (\<forall>s. \<exists>x. fst (m s) = Ok x)"

lemma returns_return: "returns (return x)"
  by (simp add: returns_def return_def)

lemma returns_qmark:
  assumes "returns m" and "\<And>x. returns (k x)"
  shows "returns (qmark f m k)"
  unfolding returns_def
proof
  fix s
  obtain x t where m: "m s = (Ok x, t)"
    using assms(1) unfolding returns_def by (metis prod.collapse)
  with assms(2) [of x] show "\<exists>y. fst (qmark f m k s) = Ok y" by (simp add: returns_def)
qed

lemma returns_map_each: "(\<And>x. returns (f x)) \<Longrightarrow> returns (map_each f xs)"
  by (induction xs) (auto intro: returns_return returns_qmark)

lemma returns_leased: "returns (HostInfo_from_leased env l)"
proof -
  have "returns (utc_now env)" by (simp add: returns_def utc_now_def)
  then have "returns (LeaseInfo_from env v)" for v
    unfolding LeaseInfo_from_def by (auto intro!: returns_qmark returns_return split: prod.split)
  then show ?thesis
    unfolding HostInfo_from_leased_def by (intro returns_qmark returns_return)
qed

lemma leased_infos_return [simp]:
  "fst (map_each (HostInfo_from_leased env) ls w) \<noteq> Err e"
  "fst (map_each (HostInfo_from_leased env) ls w) \<noteq> Panic"
  "fst (HostInfo_from_leased env l w) \<noteq> Err e" "fst (HostInfo_from_leased env l w) \<noteq> Panic"
proof -
  have ends: "r \<noteq> Err e \<and> r \<noteq> Panic" if "\<exists>x. r = Ok x" for r :: "('y, 'x) outcome" and e
    using that by auto
  have all: "returns (map_each (HostInfo_from_leased env) ls)"
    by (intro returns_map_each returns_leased)
  show "fst (map_each (HostInfo_from_leased env) ls w) \<noteq> Err e"
    "fst (map_each (HostInfo_from_leased env) ls w) \<noteq> Panic"
    using all ends unfolding returns_def by metis+
  show "fst (HostInfo_from_leased env l w) \<noteq> Err e" "fst (HostInfo_from_leased env l w) \<noteq> Panic"
    using returns_leased [of env l] unfolding returns_def by (metis outcome.distinct(1,3))+
qed

end
