(* ===== verification/Api.thy ===== *)
theory Api
  imports Templates
begin

text \<open>
  The JSON API, \<open>src/src/web/api.rs\<close>: its handlers behind the bearer guard, the bounds on the
  length of a lease and the status of every error. The extractors of the HTTP library hand a
  handler the decoded request.
\<close>

section \<open>Requests and errors\<close>

definition host_error_response :: "HostError \<Rightarrow> body response" where
  "host_error_response err =
     (let status = (case err of
            ThereIsNoFreeHosts \<Rightarrow> 409
          | AlreadyLeased _ \<Rightarrow> 409
          | LeaseLimit \<Rightarrow> 409
          | DatabaseError _ \<Rightarrow> 500
          | UnexpectedError _ \<Rightarrow> 500)
      in JsonError status (HostError_to_string err))"

record LeaseRequest =
  lr_hosts_ids :: "HostId list"
  lr_days :: u8
  lr_hours :: u8

record LeaseRandomRequest =
  rr_group_id :: GroupId
  rr_days :: u8
  rr_hours :: u8

definition lease_duration :: "u8 \<Rightarrow> u8 \<Rightarrow> string + duration" where
  "lease_duration days hours =
     (if days > 63 then Inl ''days must be between 0 and 63''
      else if hours > 23 then Inl ''hours must be between 0 and 23''
      else Inr ((uint hours + uint days * 24) * hour))"

section \<open>Handlers\<close>

type_synonym ('z, 'b) handler = "('z site_scheme, 'b response, unit) io"

text \<open>The body of a successful listing.\<close>

definition json_hosts ::
  "('a \<Rightarrow> ('z site_scheme, HostInfo, unit) io) \<Rightarrow> 'a list \<Rightarrow> ('z, body) handler" where
  "json_hosts info hosts =
     qmark id (map_each info hosts) (\<lambda>infos. return (JsonBody 200 (Hosts infos)))"

definition list_groups :: "AppState \<Rightarrow> ('z, body) handler" where
  "list_groups st =
     handle (in_db (groups_get_all_groups (app_server st))) (\<lambda>res.
     case res of
       Inr groups \<Rightarrow> return (JsonBody 200 (Groups (map GroupInfo_from groups)))
     | Inl err \<Rightarrow> return (JsonError 500 (GroupError_to_string err)))"

definition list_available_hosts :: "AppState \<Rightarrow> GroupId \<Rightarrow> ('z, body) handler" where
  "list_available_hosts st group_id =
     handle (in_db (hosts_get_available_group_hosts (app_server st) group_id)) (\<lambda>res.
     case res of
       Inr hosts \<Rightarrow> json_hosts (HostInfo_from_host (surroundings st)) hosts
     | Inl err \<Rightarrow> return (host_error_response err))"

definition list_my_leased_hosts :: "AppState \<Rightarrow> WebUser \<Rightarrow> ('z, body) handler" where
  "list_my_leased_hosts st user =
     handle (in_db (hosts_get_leased_hosts (app_server st) (app_user user))) (\<lambda>res.
     case res of
       Inr hosts \<Rightarrow> json_hosts (HostInfo_from_leased (surroundings st)) hosts
     | Inl err \<Rightarrow> return (host_error_response err))"

definition list_all_hosts :: "AppState \<Rightarrow> ('z, body) handler" where
  "list_all_hosts st =
     handle (in_db (users_get_all_users (app_server st))) (\<lambda>res.
     case res of
       Inl err \<Rightarrow> return (JsonError 500 (UserError_to_string err))
     | Inr users \<Rightarrow>
         handle (in_db (hosts_get_all_hosts (app_server st))) (\<lambda>res.
         case res of
           Inr hosts \<Rightarrow>
             json_hosts (\<lambda>host. HostInfo_from_pair (surroundings st) (with_user users host)) hosts
         | Inl err \<Rightarrow> return (host_error_response err)))"

definition api_lease_hosts :: "AppState \<Rightarrow> WebUser \<Rightarrow> LeaseRequest \<Rightarrow> ('z, body) handler" where
  "api_lease_hosts st user req =
     (case lease_duration (lr_days req) (lr_hours req) of
        Inl msg \<Rightarrow> return (JsonError 400 msg)
      | Inr duration \<Rightarrow>
          handle (lease_now st (app_user user) (wu_groups user) (lr_hosts_ids req) duration) (\<lambda>res.
          case res of
            Inr hosts \<Rightarrow> json_hosts (HostInfo_from_leased (surroundings st)) hosts
          | Inl err \<Rightarrow> return (host_error_response err)))"

definition api_lease_random ::
  "AppState \<Rightarrow> WebUser \<Rightarrow> LeaseRandomRequest \<Rightarrow> ('z, body) handler" where
  "api_lease_random st user req =
     (case lease_duration (rr_days req) (rr_hours req) of
        Inl msg \<Rightarrow> return (JsonError 400 msg)
      | Inr duration \<Rightarrow>
          handle (lease_random_now st (app_user user) (wu_groups user) duration (rr_group_id req))
          (\<lambda>res.
          case res of
            Inr host \<Rightarrow>
              qmark id (HostInfo_from_leased (surroundings st) host) (\<lambda>info.
              return (JsonBody 200 (OneHost info)))
          | Inl err \<Rightarrow> return (host_error_response err)))"

definition api_release_hosts :: "AppState \<Rightarrow> WebUser \<Rightarrow> HostId list \<Rightarrow> ('z, body) handler" where
  "api_release_hosts st user hosts_ids =
     handle (in_db (hosts_free (app_server st) (app_user user) hosts_ids)) (\<lambda>res.
     case res of
       Inr _ \<Rightarrow> return (StatusOnly 204)
     | Inl err \<Rightarrow> return (host_error_response err))"

definition api_release_all :: "AppState \<Rightarrow> WebUser \<Rightarrow> ('z, body) handler" where
  "api_release_all st user =
     handle (in_db (hosts_free_all (app_server st) (app_user user))) (\<lambda>res.
     case res of
       Inr _ \<Rightarrow> return (StatusOnly 204)
     | Inl err \<Rightarrow> return (host_error_response err))"

section \<open>Rules\<close>

lemma lease_duration_Inr:
  "lease_duration days hours = Inr dur \<longleftrightarrow>
     days \<le> 63 \<and> hours \<le> 23 \<and> dur = (uint hours + uint days * 24) * hour"
  by (auto simp: lease_duration_def not_less)

lemma lease_duration_bounds:
  assumes "lease_duration days hours = Inr dur"
  shows "0 \<le> dur" "dur \<le> 63 * day + 23 * hour" "(hour :: duration) dvd dur"
proof -
  from assms have "uint days \<le> 63" "uint hours \<le> 23"
    by (simp_all add: lease_duration_Inr word_le_def)
  moreover have "0 \<le> uint days" "0 \<le> uint hours" by simp_all
  moreover from assms have dur: "dur = (uint hours + uint days * 24) * hour"
    by (simp add: lease_duration_Inr)
  ultimately have "0 \<le> dur \<and> dur \<le> 63 * day + 23 * hour" by (simp add: time_units)
  then show "0 \<le> dur" "dur \<le> 63 * day + 23 * hour" by simp_all
  show "hour dvd dur" unfolding dur by simp
qed

text \<open>The handlers that only read leave the database alone.\<close>

lemma keeps_json_hosts [keeps_intros]:
  "(\<And>x. keeps db (info x)) \<Longrightarrow> keeps db (json_hosts info hosts)"
  unfolding json_hosts_def by (auto intro!: keeps_qmark keeps_map_each keeps_basic)

lemma handle_db:
  assumes "\<And>x. keeps db (k x)"
  shows "db (snd (handle m k w)) = db (snd (m w))"
proof -
  obtain r v where m: "m w = (r, v)" by (cases "m w")
  have "db (snd (k x v)) = db v" for x
    using keepsD [OF assms, of x v "fst (k x v)" "snd (k x v)"] by simp
  with m show ?thesis by (simp add: handle_def split: outcome.split)
qed

lemma keeps_sum [keeps_intros]:
  "(\<And>e. keeps P (f e)) \<Longrightarrow> (\<And>a. keeps P (g a)) \<Longrightarrow>
   keeps P (case x of Inl e \<Rightarrow> f e | Inr a \<Rightarrow> g a)"
  by (simp split: sum.split)

end
