(* ===== verification/Web_Hosts.thy ===== *)
theory Web_Hosts
  imports Api
begin

text \<open>
  The pages and forms of \<open>src/src/web/hosts.rs\<close>: the two listings, the forms that lease and
  release, with the parsing of their fields, and the listing in JSON that needs no session. An
  \<open>unwrap\<close> on a failed call is a panic.
\<close>

section \<open>Fields of the forms\<close>

datatype Days = Days (days_raw: i64)
datatype Hours = Hours (hours_raw: i64)

definition Days_try_from :: "string \<Rightarrow> string + Days" where
  "Days_try_from val =
     (case parse_u8 val of
        Some v \<Rightarrow> (if v \<le> 63 then Inr (Days (ucast v)) else Inl ''Value must be between 0 and 63'')
      | None \<Rightarrow> Inl (''Wrong value '' @ val @ '', can not parse as u8''))"

definition Hours_try_from :: "string \<Rightarrow> string + Hours" where
  "Hours_try_from val =
     (case parse_u8 val of
        Some v \<Rightarrow> (if v \<le> 23 then Inr (Hours (ucast v)) else Inl ''Value must be between 0 and 23'')
      | None \<Rightarrow> Inl (''Wrong value '' @ val @ '', can not parse as u8''))"

record LeaseForm =
  lf_days :: Days
  lf_hours :: Hours
  lf_hosts_ids :: "HostId list"

text \<open>
  The derived deserialiser: every field goes through its \<open>try_from\<close>, an absent \<open>hosts_ids\<close> is the
  empty list. (Which of several errors is reported depends on the order of the fields sent.)
\<close>

fun HostIds_try_from :: "string list \<Rightarrow> string + HostId list" where
  "HostIds_try_from [] = Inr []"
| "HostIds_try_from (s # ss) =
     (case HostId_try_from s of
        Inl e \<Rightarrow> Inl e
      | Inr i \<Rightarrow> (case HostIds_try_from ss of Inl e \<Rightarrow> Inl e | Inr is \<Rightarrow> Inr (i # is)))"

definition LeaseForm_try_from :: "string \<Rightarrow> string \<Rightarrow> string list \<Rightarrow> string + LeaseForm" where
  "LeaseForm_try_from days hours hosts_ids =
     (case Days_try_from days of
        Inl e \<Rightarrow> Inl e
      | Inr d \<Rightarrow> (case Hours_try_from hours of
          Inl e \<Rightarrow> Inl e
        | Inr h \<Rightarrow> (case HostIds_try_from hosts_ids of
            Inl e \<Rightarrow> Inl e
          | Inr is \<Rightarrow> Inr \<lparr>lf_days = d, lf_hours = h, lf_hosts_ids = is\<rparr>)))"

text \<open>\<open>TimeDelta::hours(*data.hours + *data.days * 24)\<close>, on 64-bit integers.\<close>

definition form_duration :: "LeaseForm \<Rightarrow> duration" where
  "form_duration data = sint (hours_raw (lf_hours data) + days_raw (lf_days data) * 24) * hour"

section \<open>Handlers\<close>

text \<open>\<open>call.await.unwrap()\<close>\<close>

definition unwrap_call ::
  "('s, 'a, 'd) io \<Rightarrow> ('a \<Rightarrow> ('s, 'b, 'e) io) \<Rightarrow> ('s, 'b, 'e) io" where
  "unwrap_call m k = handle m (\<lambda>res. case res of Inr x \<Rightarrow> k x | Inl _ \<Rightarrow> panic)"

text \<open>
  The group the page shows. \<open>groups[0]\<close> panics when there is no group, and as an argument of
  \<open>unwrap_or\<close> it is evaluated whether or not it is needed.
\<close>

definition selected_group_id ::
  "Group list \<Rightarrow> GroupId option \<Rightarrow> string option \<Rightarrow> GroupId option" where
  "selected_group_id groups param cookie =
     (case param of
        Some g \<Rightarrow> Some g
      | None \<Rightarrow> (case first_row groups of
          None \<Rightarrow> None
        | Some first \<Rightarrow> (case cookie of
            None \<Rightarrow> Some (g_id first)
          | Some val \<Rightarrow> (case GroupId_from_str val of
              Inr g \<Rightarrow> Some g
            | Inl _ \<Rightarrow> Some (g_id first)))))"

definition selected_group :: "Group list \<Rightarrow> GroupId \<Rightarrow> Group option" where
  "selected_group groups group_id =
     (case first_row groups of
        None \<Rightarrow> None
      | Some first \<Rightarrow> (case find (\<lambda>g. g_id g = group_id) groups of
          Some g \<Rightarrow> Some g
        | None \<Rightarrow> Some first))"

definition hosts_page :: "AppState \<Rightarrow> WebUser \<Rightarrow> page \<Rightarrow> body" where
  "hosts_page st user pg = Page \<lparr>pg_page = pg, pg_user = UserInfo_from user,
     pg_auth_link = app_auth_link st, pg_version = app_version st\<rparr>"

definition get_hosts ::
  "AppState \<Rightarrow> WebUser \<Rightarrow> GroupId option \<Rightarrow> string option \<Rightarrow> flash list \<Rightarrow> ('z, body) handler" where
  "get_hosts st user param cookie incoming =
     unwrap_call (in_db (groups_get_all_groups (app_server st))) (\<lambda>groups.
     qmark id (unwrap (selected_group_id groups param cookie)) (\<lambda>group_id.
     qmark id (unwrap (selected_group groups group_id)) (\<lambda>selected.
     unwrap_call (in_db (hosts_get_available_group_hosts (app_server st) (g_id selected))) (\<lambda>hosts.
     unwrap_call (in_db (hosts_get_leased_hosts (app_server st) (app_user user))) (\<lambda>leased.
     qmark id (map_each (HostInfo_from_host (surroundings st)) hosts) (\<lambda>hosts.
     qmark id (map_each (HostInfo_from_leased (surroundings st)) leased) (\<lambda>leased.
     return (HtmlPage [(''group_id'', show_GroupId group_id)] (hosts_page st user (LeasePage
       \<lparr>hp_groups = map GroupInfo_from groups, hp_selected_group = GroupInfo_from selected,
        hp_hosts = hosts, hp_leased = leased,
        hp_error = map_option flash_text (first_row incoming)\<rparr>))))))))))"

definition get_all_hosts :: "AppState \<Rightarrow> WebUser \<Rightarrow> ('z, body) handler" where
  "get_all_hosts st user =
     unwrap_call (in_db (users_get_all_users (app_server st))) (\<lambda>users.
     unwrap_call (in_db (hosts_get_all_hosts (app_server st))) (\<lambda>hosts.
     qmark id (map_each (\<lambda>h. HostInfo_from_pair (surroundings st) (with_user users h)) hosts)
       (\<lambda>infos. return (HtmlPage [] (hosts_page st user (AllHostsPage infos))))))"

text \<open>A form is handled once it has been read; the extractor answers one that has not.\<close>

definition with_form :: "string + 'f \<Rightarrow> ('f \<Rightarrow> ('z, body) handler) \<Rightarrow> ('z, body) handler" where
  "with_form parsed k = (case parsed of Inl msg \<Rightarrow> return (Rejected msg) | Inr data \<Rightarrow> k data)"

text \<open>Back to the listing, with the error as a flash message.\<close>

definition back_to_hosts :: "HostError + 'a \<Rightarrow> body response" where
  "back_to_hosts res =
     Redirect ''/hosts'' (case res of Inr _ \<Rightarrow> [] | Inl e \<Rightarrow> [FlashError (HostError_to_string e)])"

definition web_lease_hosts :: "AppState \<Rightarrow> WebUser \<Rightarrow> LeaseForm \<Rightarrow> ('z, body) handler" where
  "web_lease_hosts st user data =
     handle (lease_now st (app_user user) (wu_groups user) (lf_hosts_ids data) (form_duration data))
       (\<lambda>res. return (back_to_hosts res))"

definition web_lease_random ::
  "AppState \<Rightarrow> WebUser \<Rightarrow> GroupId \<Rightarrow> LeaseForm \<Rightarrow> ('z, body) handler" where
  "web_lease_random st user group_id data =
     handle (lease_random_now st (app_user user) (wu_groups user) (form_duration data) group_id)
       (\<lambda>res. return (back_to_hosts res))"

definition web_release_hosts :: "AppState \<Rightarrow> WebUser \<Rightarrow> HostId list \<Rightarrow> ('z, body) handler" where
  "web_release_hosts st user hosts_ids =
     unwrap_call (in_db (hosts_free (app_server st) (app_user user) hosts_ids)) (\<lambda>_.
     return (Redirect ''/hosts'' []))"

definition web_release_all :: "AppState \<Rightarrow> WebUser \<Rightarrow> ('z, body) handler" where
  "web_release_all st user =
     unwrap_call (in_db (hosts_free_all (app_server st) (app_user user))) (\<lambda>_.
     return (Redirect ''/hosts'' []))"

text \<open>The listing without a session.\<close>

definition get_hosts_json :: "AppState \<Rightarrow> string option \<Rightarrow> GroupId option \<Rightarrow> ('z, body) handler" where
  "get_hosts_json st mail group_id =
     unwrap_call (in_db (hosts_get_hosts_filtered (app_server st) mail group_id)) (\<lambda>hosts.
     json_hosts (HostInfo_from_listing (surroundings st)) hosts)"

section \<open>Rules\<close>

lemma parse_u8_show [simp]: "parse_u8 (show_int (uint v)) = Some v"
proof -
  have "0 \<le> uint v" "uint v \<le> 255" using uint_range_size [of v] by (simp_all add: word_size)
  then show ?thesis by (simp add: parse_u8_def parse_int_show_int)
qed

lemma form_duration_bytes:
  fixes d h :: u8
  assumes "d \<le> 63" and "h \<le> 23"
  shows "form_duration \<lparr>lf_days = Days (ucast d), lf_hours = Hours (ucast h), lf_hosts_ids = is\<rparr> =
    (uint h + uint d * 24) * hour"
proof -
  have "uint d \<le> 63" "uint h \<le> 23" using assms by (simp_all add: word_le_def)
  then have "uint (ucast h + ucast d * 24 :: i64) = uint h + uint d * 24"
    by (simp add: uint_word_ariths uint_up_ucast is_up)
  moreover have "sint w = uint w" if "uint w < 2 ^ 63" for w :: i64
  proof -
    have "- (2 ^ 63) \<le> uint w" by (rule order_trans [of _ 0]) simp_all
    with that show ?thesis by (simp add: sint_uint signed_take_bit_int_eq_self)
  qed
  ultimately have "sint (ucast h + ucast d * 24 :: i64) = uint h + uint d * 24"
    using \<open>uint d \<le> 63\<close> \<open>uint h \<le> 23\<close> by simp
  then show ?thesis by (simp add: form_duration_def)
qed

lemma HostIds_try_from_show: "HostIds_try_from (map show_HostId is) = Inr is"
  by (induction "is") (simp_all add: host_text.from_str_to_string)

end
