(* ===== verification/Web_Tokens.thy ===== *)
theory Web_Tokens
  imports Web_Hosts
begin

text \<open>
  The pages around API tokens, \<open>src/src/web/tokens.rs\<close>, and the login page of
  \<open>src/src/web/auth/login.rs\<close>. The bytes of a new token are drawn by the service; the parameter
  \<open>bytes\<close> says which.
\<close>

text \<open>The loop over the flash messages: of each kind the last one is shown.\<close>

fun shown_flashes :: "string option \<Rightarrow> string option \<Rightarrow> flash list \<Rightarrow> string option \<times> string option" where
  "shown_flashes created error [] = (created, error)"
| "shown_flashes created error (FlashSuccess m # fs) = shown_flashes (Some m) error fs"
| "shown_flashes created error (FlashError m # fs) = shown_flashes created (Some m) fs"

definition token_info :: "AppState \<Rightarrow> ApiToken \<Rightarrow> TokensTokenInfo" where
  "token_info st t = \<lparr>ti_id = t_id t, ti_name = t_name t,
     ti_created_at = to_rfc3339 st (of_timestamptz (t_created_at t))\<rparr>"

definition tokens_page :: "AppState \<Rightarrow> WebUser \<Rightarrow> flash list \<Rightarrow> ('z, body) handler" where
  "tokens_page st user incoming =
     handle (in_db (tokens_list_for_user (app_server st) (app_user user))) (\<lambda>res.
       let tokens = (case res of Inr ts \<Rightarrow> ts | Inl _ \<Rightarrow> []);
           (created, error) = shown_flashes None None incoming
       in return (HtmlPage [] (hosts_page st user (TokensListPage
            \<lparr>tp_tokens = map (token_info st) tokens, tp_created_token = created,
             tp_error = error\<rparr>))))"

definition create_token :: "AppState \<Rightarrow> WebUser \<Rightarrow> u8 list \<Rightarrow> string \<Rightarrow> ('z, body) handler" where
  "create_token st user bytes name =
     handle (in_db (tokens_create (app_server st) (api_tokens_service st) (sha2 st) bytes
       (app_user user) (Some name))) (\<lambda>res.
     case res of
       Inr created \<Rightarrow> return (Redirect ''/tokens'' [FlashSuccess (ct_plaintext created)])
     | Inl e \<Rightarrow> return (Redirect ''/tokens'' [FlashError (ApiTokenError_to_string e)]))"

definition revoke_token :: "AppState \<Rightarrow> WebUser \<Rightarrow> ApiTokenId \<Rightarrow> ('z, body) handler" where
  "revoke_token st user token_id =
     handle (in_db (tokens_revoke (app_server st) token_id (app_user user))) (\<lambda>res.
     case res of
       Inr _ \<Rightarrow> return (Redirect ''/tokens'' [])
     | Inl e \<Rightarrow> return (Redirect ''/tokens'' [FlashError (ApiTokenError_to_string e)]))"

definition login_page :: "flash list \<Rightarrow> ('z, body) handler" where
  "login_page incoming =
     return (HtmlPage [] (LoginPage (map_option flash_text (first_row incoming))))"

text \<open>The page after a creation shows the new plaintext, and the one after an error the error.\<close>

lemma shown_flashes_last:
  "shown_flashes c e (fs @ [FlashSuccess m]) = (Some m, snd (shown_flashes c e fs))"
  "shown_flashes c e (fs @ [FlashError m]) = (fst (shown_flashes c e fs), Some m)"
  by (induction c e fs rule: shown_flashes.induct) simp_all

end
