(* ===== verification/Mcp.thy ===== *)
theory Mcp
  imports Web_Tokens
begin

text \<open>
  The tools for language models, \<open>src/src/mcp/mod.rs\<close>: the policy on host names, the
  arguments, the user taken from the request and one definition per tool. The transport and the
  JSON-RPC protocol belong to the library.
\<close>

section \<open>Configuration of the transport\<close>

datatype McpHostPolicy = Allowed "string list" | AllowAny

definition resolve_mcp_host_policy :: "string list \<Rightarrow> McpHostPolicy" where
  "resolve_mcp_host_policy configured =
     (if configured = [] then Allowed [''localhost'', ''127.0.0.1'', ''::1'']
      else if length configured = 1 \<and> configured ! 0 = ''*'' then AllowAny
      else Allowed configured)"

section \<open>Errors and arguments\<close>

datatype McpError = InvalidParams string | InternalError string | InvalidRequest string

datatype tool_result = ToolJson body | ToolOk

type_synonym ('z, 'a) tool = "('z site_scheme, 'a, McpError) io"

definition mcp_lease_duration :: "u8 \<Rightarrow> u8 \<Rightarrow> McpError + duration" where
  "mcp_lease_duration days hours =
     (if days > 63 then Inl (InvalidParams ''days must be between 0 and 63'')
      else if hours > 23 then Inl (InvalidParams ''hours must be between 0 and 23'')
      else Inr ((uint hours + uint days * 24) * hour))"

definition host_error :: "HostError \<Rightarrow> McpError" where
  "host_error err = InternalError (HostError_to_string err)"

definition json_result :: "body \<Rightarrow> ('z, tool_result) tool" where
  "json_result val = return (ToolJson val)"

record LeaseHostsArgs =
  la_hosts_ids :: "i32 list"
  la_days :: u8
  la_hours :: u8

record LeaseRandomArgs =
  ra_group_id :: i32
  ra_days :: u8
  ra_hours :: u8

text \<open>
  The context of a tool call: the HTTP request it came with, if there is one, and the user the
  bearer guard put there.
\<close>

definition require_user :: "WebUser option option \<Rightarrow> McpError + WebUser" where
  "require_user ctx =
     (case ctx of
        None \<Rightarrow> Inl (InternalError ''missing HTTP request parts in MCP context'')
      | Some None \<Rightarrow> Inl (InvalidRequest ''Unauthorized'')
      | Some (Some user) \<Rightarrow> Inr user)"

text \<open>\<open>let x = v?\<close> for a value computed without effects.\<close>

definition try_value :: "'e + 'a \<Rightarrow> ('a \<Rightarrow> ('s, 'b, 'e) io) \<Rightarrow> ('s, 'b, 'e) io" where
  "try_value v k = (case v of Inl e \<Rightarrow> throw e | Inr x \<Rightarrow> k x)"

section \<open>Tools\<close>

definition mcp_list_groups :: "AppState \<Rightarrow> ('z, tool_result) tool" where
  "mcp_list_groups st =
     qmark (\<lambda>e. InternalError (GroupError_to_string e)) (in_db (groups_get_all_groups (app_server st)))
       (\<lambda>groups. json_result (Groups (map GroupInfo_from groups)))"

definition mcp_list_available_hosts :: "AppState \<Rightarrow> i32 \<Rightarrow> ('z, tool_result) tool" where
  "mcp_list_available_hosts st group_id =
     qmark host_error
       (in_db (hosts_get_available_group_hosts (app_server st) (GroupId group_id))) (\<lambda>hosts.
     qmark id (map_each (HostInfo_from_host (surroundings st)) hosts) (\<lambda>infos.
     json_result (Hosts infos)))"

definition mcp_list_my_leased_hosts ::
  "AppState \<Rightarrow> WebUser option option \<Rightarrow> ('z, tool_result) tool" where
  "mcp_list_my_leased_hosts st ctx =
     try_value (require_user ctx) (\<lambda>user.
     qmark host_error (in_db (hosts_get_leased_hosts (app_server st) (app_user user))) (\<lambda>hosts.
     qmark id (map_each (HostInfo_from_leased (surroundings st)) hosts) (\<lambda>infos.
     json_result (Hosts infos))))"

definition mcp_list_all_hosts :: "AppState \<Rightarrow> ('z, tool_result) tool" where
  "mcp_list_all_hosts st =
     qmark (\<lambda>e. InternalError (UserError_to_string e)) (in_db (users_get_all_users (app_server st)))
       (\<lambda>users.
     qmark host_error (in_db (hosts_get_all_hosts (app_server st))) (\<lambda>hosts.
     qmark id (map_each (\<lambda>h. HostInfo_from_pair (surroundings st) (with_user users h)) hosts)
       (\<lambda>infos. json_result (Hosts infos))))"

definition mcp_lease_hosts ::
  "AppState \<Rightarrow> WebUser option option \<Rightarrow> LeaseHostsArgs \<Rightarrow> ('z, tool_result) tool" where
  "mcp_lease_hosts st ctx args =
     try_value (require_user ctx) (\<lambda>user.
     try_value (mcp_lease_duration (la_days args) (la_hours args)) (\<lambda>duration.
     qmark host_error (lease_now st (app_user user) (wu_groups user)
       (map HostId (la_hosts_ids args)) duration) (\<lambda>hosts.
     qmark id (map_each (HostInfo_from_leased (surroundings st)) hosts) (\<lambda>infos.
     json_result (Hosts infos)))))"

definition mcp_lease_random_host ::
  "AppState \<Rightarrow> WebUser option option \<Rightarrow> LeaseRandomArgs \<Rightarrow> ('z, tool_result) tool" where
  "mcp_lease_random_host st ctx args =
     try_value (require_user ctx) (\<lambda>user.
     try_value (mcp_lease_duration (ra_days args) (ra_hours args)) (\<lambda>duration.
     qmark host_error (lease_random_now st (app_user user) (wu_groups user) duration
       (GroupId (ra_group_id args))) (\<lambda>host.
     qmark id (HostInfo_from_leased (surroundings st) host) (\<lambda>info.
     json_result (OneHost info)))))"

definition mcp_release_hosts ::
  "AppState \<Rightarrow> WebUser option option \<Rightarrow> i32 list \<Rightarrow> ('z, tool_result) tool" where
  "mcp_release_hosts st ctx hosts_ids =
     try_value (require_user ctx) (\<lambda>user.
     qmark host_error (in_db (hosts_free (app_server st) (app_user user) (map HostId hosts_ids)))
       (\<lambda>_. return ToolOk))"

definition mcp_release_all_hosts :: "AppState \<Rightarrow> WebUser option option \<Rightarrow> ('z, tool_result) tool" where
  "mcp_release_all_hosts st ctx =
     try_value (require_user ctx) (\<lambda>user.
     qmark host_error (in_db (hosts_free_all (app_server st) (app_user user))) (\<lambda>_. return ToolOk))"

section \<open>Rules\<close>

lemma mcp_lease_duration_api:
  "mcp_lease_duration days hours = map_sum InvalidParams id (lease_duration days hours)"
  by (simp add: mcp_lease_duration_def lease_duration_def)

lemma keeps_try_value [keeps_intros]:
  "(\<And>x. keeps P (k x)) \<Longrightarrow> keeps P (try_value v k)"
  by (simp add: try_value_def keeps_basic split: sum.split)

end
