(* ===== verification/Router.thy ===== *)
theory Router
  imports Mcp
begin

text \<open>
  The routes of \<open>Application::build\<close> in \<open>src/src/web/mod.rs\<close>: which handler a request reaches
  and which guard stands before it. A request carries what the router and the extractors hand on:
  the endpoint with its decoded arguments and the \<open>Authorization\<close> header if there is one; with it
  comes what the store holds of its session.
\<close>

section \<open>Endpoints\<close>

datatype 'h public_endpoint =
    GetLogin "flash list"
  | PostLogin string string
  | GetHostsLeased "string option" "GroupId option"
  | GetAsset string "'h option"
  | Fallback

datatype session_endpoint =
    GetLogout bool
  | GetHosts "GroupId option" "string option" "flash list"
  | GetHostsAll
  | PostHostsLease "string + LeaseForm"
  | PostHostsLeaseRandom GroupId "string + LeaseForm"
  | PostHostsRelease "string + HostId list"
  | PostHostsReleaseAll
  | GetTokens "flash list"
  | PostTokens "u8 list" string
  | PostTokensRevoke ApiTokenId

datatype tool_call =
    ListGroups
  | ListAvailableHosts i32
  | ListMyLeasedHosts
  | ListAllHosts
  | ToolLeaseHosts LeaseHostsArgs
  | ToolLeaseRandomHost LeaseRandomArgs
  | ToolReleaseHosts "i32 list"
  | ToolReleaseAllHosts

datatype bearer_endpoint =
    ApiGroups
  | ApiHostsAvailable GroupId
  | ApiHostsLeased
  | ApiHosts
  | ApiHostsLease LeaseRequest
  | ApiHostsLeaseRandom LeaseRandomRequest
  | ApiHostsRelease "HostId list"
  | ApiHostsReleaseAll
  | McpTool tool_call

datatype 'h request =
    Public "'h public_endpoint"
  | Session session_endpoint
  | Bearer "'h option" bearer_endpoint

section \<open>Files\<close>

text \<open>
  The three files; those served by \<open>cached_asset\<close> come with the digest of their content (the
  \<open>md5\<close> crate's) as their tag, and a request that names it is answered that it is unchanged.
\<close>

definition cached_asset ::
  "('h \<Rightarrow> string option) \<Rightarrow> string \<Rightarrow> string \<Rightarrow> 'h option \<Rightarrow> 'b response" where
  "cached_asset to_str content_type content_hash if_none_match =
     (case if_none_match of
        Some header_value \<Rightarrow>
          (if (case to_str header_value of None \<Rightarrow> '''' | Some v \<Rightarrow> v) = content_hash
           then StatusOnly 304 else FileBody content_type content_hash)
      | None \<Rightarrow> FileBody content_type content_hash)"

definition serve_asset ::
  "(string \<Rightarrow> string) \<Rightarrow> ('h \<Rightarrow> string option) \<Rightarrow> string \<Rightarrow> 'h option \<Rightarrow> 'b response" where
  "serve_asset md5 to_str path if_none_match =
     (if path = ''/assets/htmx.min.js''
      then cached_asset to_str ''text/javascript'' (md5 path) if_none_match
      else if path = ''/assets/tailwindcss.css''
      then cached_asset to_str ''text/css'' (md5 path) if_none_match
      else if path = ''/assets/tachikoma.png'' then FileBody ''image/png'' []
      else Redirect ''/hosts'' [])"

section \<open>Handlers\<close>

datatype answer_body = Body body | ToolReply "McpError + tool_result"

definition as_answer :: "('z, body) handler \<Rightarrow> ('z, answer_body) handler" where
  "as_answer m = qmark id m (\<lambda>r. return (map_response Body r))"

definition tool_answer :: "('z, tool_result) tool \<Rightarrow> ('z, answer_body) handler" where
  "tool_answer m = handle m (\<lambda>res. return (JsonBody 200 (ToolReply res)))"

record 'h http =
  header_to_str :: "'h \<Rightarrow> string option"
  asset_digest :: "string \<Rightarrow> string"
  session_login :: "WebUser \<Rightarrow> bool"

definition serve_public ::
  "'h http \<Rightarrow> AppState \<Rightarrow> 'h public_endpoint \<Rightarrow> ('z, answer_body) handler" where
  "serve_public ht st e = as_answer
     (case e of
        GetLogin incoming \<Rightarrow> login_page incoming
      | PostLogin username password \<Rightarrow>
          login (app_server st) (app_directory st) (session_login ht) username password
      | GetHostsLeased mail group_id \<Rightarrow> get_hosts_json st mail group_id
      | GetAsset path if_none_match \<Rightarrow>
          return (serve_asset (asset_digest ht) (header_to_str ht) path if_none_match)
      | Fallback \<Rightarrow> return (Redirect ''/hosts'' []))"

definition serve_session ::
  "AppState \<Rightarrow> session_endpoint \<Rightarrow> WebUser \<Rightarrow> ('z, answer_body) handler" where
  "serve_session st e user = as_answer
     (case e of
        GetLogout done_ \<Rightarrow> return (logout done_)
      | GetHosts param cookie incoming \<Rightarrow> get_hosts st user param cookie incoming
      | GetHostsAll \<Rightarrow> get_all_hosts st user
      | PostHostsLease data \<Rightarrow> with_form data (web_lease_hosts st user)
      | PostHostsLeaseRandom group_id data \<Rightarrow> with_form data (web_lease_random st user group_id)
      | PostHostsRelease data \<Rightarrow> with_form data (web_release_hosts st user)
      | PostHostsReleaseAll \<Rightarrow> web_release_all st user
      | GetTokens incoming \<Rightarrow> tokens_page st user incoming
      | PostTokens bytes name \<Rightarrow> create_token st user bytes name
      | PostTokensRevoke token_id \<Rightarrow> revoke_token st user token_id)"

text \<open>The tools run in the context of the request that the bearer guard has passed.\<close>

definition call_tool :: "AppState \<Rightarrow> WebUser option option \<Rightarrow> tool_call \<Rightarrow> ('z, tool_result) tool" where
  "call_tool st ctx c =
     (case c of
        ListGroups \<Rightarrow> mcp_list_groups st
      | ListAvailableHosts group_id \<Rightarrow> mcp_list_available_hosts st group_id
      | ListMyLeasedHosts \<Rightarrow> mcp_list_my_leased_hosts st ctx
      | ListAllHosts \<Rightarrow> mcp_list_all_hosts st
      | ToolLeaseHosts args \<Rightarrow> mcp_lease_hosts st ctx args
      | ToolLeaseRandomHost args \<Rightarrow> mcp_lease_random_host st ctx args
      | ToolReleaseHosts hosts_ids \<Rightarrow> mcp_release_hosts st ctx hosts_ids
      | ToolReleaseAllHosts \<Rightarrow> mcp_release_all_hosts st ctx)"

definition serve_bearer ::
  "AppState \<Rightarrow> bearer_endpoint \<Rightarrow> WebUser \<Rightarrow> ('z, answer_body) handler" where
  "serve_bearer st e user =
     (case e of
        ApiGroups \<Rightarrow> as_answer (list_groups st)
      | ApiHostsAvailable group_id \<Rightarrow> as_answer (list_available_hosts st group_id)
      | ApiHostsLeased \<Rightarrow> as_answer (list_my_leased_hosts st user)
      | ApiHosts \<Rightarrow> as_answer (list_all_hosts st)
      | ApiHostsLease req \<Rightarrow> as_answer (api_lease_hosts st user req)
      | ApiHostsLeaseRandom req \<Rightarrow> as_answer (api_lease_random st user req)
      | ApiHostsRelease hosts_ids \<Rightarrow> as_answer (api_release_hosts st user hosts_ids)
      | ApiHostsReleaseAll \<Rightarrow> as_answer (api_release_all st user)
      | McpTool c \<Rightarrow> tool_answer (call_tool st (Some (Some user)) c))"

text \<open>The guards of the three routers that are merged.\<close>

definition dispatch ::
  "'h http \<Rightarrow> AppState \<Rightarrow> 'h request \<Rightarrow> WebUser option \<Rightarrow> ('z, answer_body) handler" where
  "dispatch ht st req session_user =
     (case req of
        Public e \<Rightarrow> serve_public ht st e
      | Session e \<Rightarrow> auth_middleware session_user (serve_session st e)
      | Bearer auth_header e \<Rightarrow>
          bearer_auth_middleware (app_server st) (app_directory st) (sha2 st) (header_to_str ht)
            auth_header (serve_bearer st e))"

text \<open>The session layer stands before all of them.\<close>

definition serve ::
  "'h http \<Rightarrow> AppState \<Rightarrow> session_data \<Rightarrow> 'h request \<Rightarrow> ('z, answer_body) handler" where
  "serve ht st data req =
     auth_layer (app_server st) (app_directory st) data (dispatch ht st req)"

section \<open>Rules\<close>

lemma keeps_as_answer [keeps_intros]: "keeps P m \<Longrightarrow> keeps P (as_answer m)"
  unfolding as_answer_def by (intro keeps_intros)

lemma as_answer_state [simp]: "snd (as_answer m w) = snd (m w)"
  by (simp add: as_answer_def qmark_def return_def split: prod.split outcome.split)

lemma tool_answer_state [simp]: "snd (tool_answer m w) = snd (m w)"
  by (simp add: tool_answer_def handle_def return_def split: prod.split outcome.split)

end
