(* ===== verification/Frontends.thy ===== *)
theory Frontends
  imports Mcp Hosts_Props
begin

text \<open>
  The three front ends of the hosts service, the HTML forms, the JSON API and the tools for
  language models, do the same: an interface states what a front end owes the service, each of
  the three is shown to provide it, and what the service guarantees holds through all of them.
\<close>

section \<open>What a handler leaves of the database\<close>

lemma qmark_db:
  assumes "\<And>x. keeps db (k x)"
  shows "db (snd (qmark f m k w)) = db (snd (m w))"
proof -
  obtain r v where m: "m w = (r, v)" by (cases "m w")
  have "db (snd (k x v)) = db v" for x
    using keepsD [OF assms, of x v "fst (k x v)" "snd (k x v)"] by simp
  with m show ?thesis by (simp add: qmark_def split: outcome.split)
qed

text \<open>The call of the service that a request for a lease comes down to.\<close>

definition lease_run ::
  "AppState \<Rightarrow> WebUser \<Rightarrow> HostId list \<Rightarrow> duration \<Rightarrow> 'z world_scheme \<Rightarrow>
   (LeasedHost list, HostError) outcome \<times> pg" where
  "lease_run st user is dur w =
     hosts_lease (app_server st) (hosts_service st) (hash_order st)
       (clock (surroundings st) (clock_reads w)) (app_user user) (wu_groups user) is dur (db w)"

definition random_run ::
  "AppState \<Rightarrow> WebUser \<Rightarrow> GroupId \<Rightarrow> duration \<Rightarrow> 'z world_scheme \<Rightarrow>
   (LeasedHost, HostError) outcome \<times> pg" where
  "random_run st user g dur w =
     hosts_lease_random (app_server st) (hosts_service st)
       (clock (surroundings st) (clock_reads w)) (app_user user) (wu_groups user) dur g (db w)"

lemma lease_now_run:
  "fst (lease_now st (app_user user) (wu_groups user) is dur w) = fst (lease_run st user is dur w)"
  "db (snd (lease_now st (app_user user) (wu_groups user) is dur w)) = snd (lease_run st user is dur w)"
  by (simp_all add: lease_now_def lease_run_def utc_now_def in_db_def qmark_def split: prod.split)

lemma random_now_run:
  "fst (lease_random_now st (app_user user) (wu_groups user) dur g w) = fst (random_run st user g dur w)"
  "db (snd (lease_random_now st (app_user user) (wu_groups user) dur g w)) =
     snd (random_run st user g dur w)"
  by (simp_all add: lease_random_now_def random_run_def utc_now_def in_db_def qmark_def
      split: prod.split)

lemma in_db_run_db: "db (snd (in_db m w)) = snd (m (db w))" "fst (in_db m w) = fst (m (db w))"
  by (simp_all add: in_db_def split: prod.split)

section \<open>The interface\<close>

locale hosts_frontend =
  fixes lease_route :: "AppState \<Rightarrow> WebUser \<Rightarrow> u8 \<Rightarrow> u8 \<Rightarrow> HostId list \<Rightarrow> ('z site_scheme, 'r, 'e) io"
    and random_route :: "AppState \<Rightarrow> WebUser \<Rightarrow> u8 \<Rightarrow> u8 \<Rightarrow> GroupId \<Rightarrow> ('z site_scheme, 'r, 'e) io"
    and release_route :: "AppState \<Rightarrow> WebUser \<Rightarrow> HostId list \<Rightarrow> ('z site_scheme, 'r, 'e) io"
    and release_all_route :: "AppState \<Rightarrow> WebUser \<Rightarrow> ('z site_scheme, 'r, 'e) io"
  assumes lease_db: "lease_duration d h = Inr dur \<Longrightarrow>
      db (snd (lease_route st u d h is w)) = snd (lease_run st u is dur w)"
    and lease_refused: "lease_duration d h = Inl m \<Longrightarrow> db (snd (lease_route st u d h is w)) = db w"
    and random_db: "lease_duration d h = Inr dur \<Longrightarrow>
      db (snd (random_route st u d h g w)) = snd (random_run st u g dur w)"
    and random_refused: "lease_duration d h = Inl m \<Longrightarrow> db (snd (random_route st u d h g w)) = db w"
    and release_db: "db (snd (release_route st u is w)) =
      snd (hosts_free (app_server st) (app_user u) is (db w))"
    and release_all_db: "db (snd (release_all_route st u w)) =
      snd (hosts_free_all (app_server st) (app_user u) (db w))"
begin

lemma lease_change:
  assumes "db_ok (stored w)" and "stored (snd (lease_route st u d h is w)) \<noteq> stored w"
  obtains n until where "d \<le> 63" "h \<le> 23"
    "limit_of (hosts_service st) (stored w) (wu_groups u) = Some n"
    "held (stored w) (app_user u) \<inter> set is = {}"
    "card (held (stored w) (app_user u)) + card (set is) \<le> n"
    "date_add (clock (surroundings st) (clock_reads w)) ((uint h + uint d * 24) * hour) = Some until"
    "stored (snd (lease_route st u d h is w)) =
       assign_hosts (app_user u) is (to_timestamptz until) (stored w)"
proof (cases "lease_duration d h")
  case (Inl m)
  with assms(2) lease_refused show ?thesis by simp
next
  case (Inr dur)
  note run = lease_db [OF Inr, of st u "is" w]
  obtain r s' where r: "lease_run st u is dur w = (r, s')" by (cases "lease_run st u is dur w")
  from r [unfolded lease_run_def] assms(1) show ?thesis
  proof (rule hosts_lease_cases)
    assume "committed s' = stored w"
    with assms(2) run r show ?thesis by simp
  next
    fix n until
    assume "limit_of (hosts_service st) (stored w) (wu_groups u) = Some n"
      "held (stored w) (app_user u) \<inter> set is = {}"
      "card (held (stored w) (app_user u)) + card (set is) \<le> n"
      "date_add (clock (surroundings st) (clock_reads w)) dur = Some until"
      "committed s' = assign_hosts (app_user u) is (to_timestamptz until) (stored w)"
    with Inr run r show ?thesis by (intro that) (auto simp: lease_duration_Inr)
  qed
qed

lemma random_change:
  assumes "db_ok (stored w)" and "stored (snd (random_route st u d h g w)) \<noteq> stored w"
  obtains n x until where "d \<le> 63" "h \<le> 23"
    "limit_of (hosts_service st) (stored w) (wu_groups u) = Some n"
    "card (held (stored w) (app_user u)) < n"
    "x \<in> set (hosts_t (stored w))" "h_user_id x = None" "h_group_id x = g"
    "stored (snd (random_route st u d h g w)) =
       assign_hosts (app_user u) [h_id x] (to_timestamptz until) (stored w)"
proof (cases "lease_duration d h")
  case (Inl m)
  with assms(2) random_refused show ?thesis by simp
next
  case (Inr dur)
  note run = random_db [OF Inr, of st u g w]
  obtain r s' where r: "random_run st u g dur w = (r, s')" by (cases "random_run st u g dur w")
  from r [unfolded random_run_def] assms(1) show ?thesis
  proof (rule hosts_lease_random_cases)
    assume "committed s' = stored w"
    with assms(2) run r show ?thesis by simp
  next
    fix n x until
    assume "limit_of (hosts_service st) (stored w) (wu_groups u) = Some n"
      "card (held (stored w) (app_user u)) < n"
      "x \<in> set (hosts_t (stored w))" "h_user_id x = None" "h_group_id x = g"
      "committed s' = assign_hosts (app_user u) [h_id x] (to_timestamptz until) (stored w)"
    with Inr run r show ?thesis by (intro that) (auto simp: lease_duration_Inr)
  qed
qed

lemma release_change:
  "stored (snd (release_route st u is w)) = stored w \<or>
   stored (snd (release_route st u is w)) =
     clear_hosts (\<lambda>h. h_id h \<in> set is \<and> h_user_id h = Some (app_user u)) (stored w)"
proof -
  obtain r s' where r: "hosts_free (app_server st) (app_user u) is (db w) = (r, s')"
    by (cases "hosts_free (app_server st) (app_user u) is (db w)")
  then show ?thesis by (rule hosts_free_cases) (simp_all add: release_db r)
qed

lemma release_all_change:
  "stored (snd (release_all_route st u w)) = stored w \<or>
   stored (snd (release_all_route st u w)) =
     clear_hosts (\<lambda>h. h_user_id h = Some (app_user u)) (stored w)"
proof -
  obtain r s' where r: "hosts_free_all (app_server st) (app_user u) (db w) = (r, s')"
    by (cases "hosts_free_all (app_server st) (app_user u) (db w)")
  then show ?thesis by (rule hosts_free_all_cases) (simp_all add: release_all_db r)
qed

end

section \<open>The three front ends\<close>

definition api_lease_route where
  "api_lease_route st u d h is = api_lease_hosts st u \<lparr>lr_hosts_ids = is, lr_days = d, lr_hours = h\<rparr>"

definition api_random_route where
  "api_random_route st u d h g = api_lease_random st u \<lparr>rr_group_id = g, rr_days = d, rr_hours = h\<rparr>"

interpretation api: hosts_frontend api_lease_route api_random_route api_release_hosts api_release_all
proof unfold_locales
  fix d h :: u8 and dur st u "is" g and w :: "'z site_scheme" and m
  have json: "keeps db (json_hosts (HostInfo_from_leased env) hs :: ('z, body) handler)" for env hs
    by (intro keeps_json_hosts keeps_conversions)
  have one: "keeps db (qmark id (HostInfo_from_leased env l) (\<lambda>info. return (JsonBody 200 (OneHost info)))
      :: ('z, body) handler)" for env l
    by (intro keeps_qmark keeps_conversions keeps_basic)
  note after = handle_db [OF keeps_sum [OF keeps_basic(1) json]]
    handle_db [OF keeps_sum [OF keeps_basic(1) one]] handle_db [OF keeps_sum [OF keeps_basic(1) keeps_basic(1)]]
  show "lease_duration d h = Inr dur \<Longrightarrow>
      db (snd (api_lease_route st u d h is w)) = snd (lease_run st u is dur w)"
    by (simp add: api_lease_route_def api_lease_hosts_def after lease_now_run)
  show "lease_duration d h = Inr dur \<Longrightarrow>
      db (snd (api_random_route st u d h g w)) = snd (random_run st u g dur w)"
    by (simp add: api_random_route_def api_lease_random_def after random_now_run)
  show "lease_duration d h = Inl m \<Longrightarrow> db (snd (api_lease_route st u d h is w)) = db w"
    "lease_duration d h = Inl m \<Longrightarrow> db (snd (api_random_route st u d h g w)) = db w"
    by (simp_all add: api_lease_route_def api_lease_hosts_def api_random_route_def
        api_lease_random_def return_def)
  show "db (snd (api_release_hosts st u is w)) =
      snd (hosts_free (app_server st) (app_user u) is (db w))"
    "db (snd (api_release_all st u w)) = snd (hosts_free_all (app_server st) (app_user u) (db w))"
    by (simp_all add: api_release_hosts_def api_release_all_def after in_db_run_db)
qed

text \<open>The forms of the pages, filled in with the text of the fields.\<close>

definition form_lease_route where
  "form_lease_route st u d h is =
     with_form (LeaseForm_try_from (show_int (uint d)) (show_int (uint h)) (map show_HostId is))
       (web_lease_hosts st u)"

definition form_random_route where
  "form_random_route st u d h g =
     with_form (LeaseForm_try_from (show_int (uint d)) (show_int (uint h)) [])
       (web_lease_random st u g)"

lemma LeaseForm_of_bytes:
  fixes d h :: u8
  shows "lease_duration d h = Inr dur \<Longrightarrow>
      LeaseForm_try_from (show_int (uint d)) (show_int (uint h)) (map show_HostId is) =
        Inr \<lparr>lf_days = Days (ucast d), lf_hours = Hours (ucast h), lf_hosts_ids = is\<rparr>"
    and "lease_duration d h = Inl m \<Longrightarrow>
      \<exists>e. LeaseForm_try_from (show_int (uint d)) (show_int (uint h)) ss = Inl e"
  by (auto simp: LeaseForm_try_from_def Days_try_from_def Hours_try_from_def lease_duration_def
      HostIds_try_from_show not_less split: if_splits)

lemma unwrap_call_db:
  assumes "\<And>x. keeps db (k x)"
  shows "db (snd (unwrap_call m k w)) = db (snd (m w))"
  unfolding unwrap_call_def by (rule handle_db) (intro keeps_sum keeps_basic assms)

interpretation forms: hosts_frontend form_lease_route form_random_route web_release_hosts web_release_all
proof unfold_locales
  fix d h :: u8 and dur st u "is" g and w :: "'z site_scheme" and m
  note after = handle_db [OF keeps_basic(1)] unwrap_call_db [OF keeps_basic(1)]
  {
    assume dur: "lease_duration d h = Inr dur"
    then have d: "form_duration \<lparr>lf_days = Days (ucast d), lf_hours = Hours (ucast h),
        lf_hosts_ids = js\<rparr> = dur" for js
      by (simp add: lease_duration_Inr form_duration_bytes)
    show "db (snd (form_lease_route st u d h is w)) = snd (lease_run st u is dur w)"
      by (simp add: form_lease_route_def with_form_def LeaseForm_of_bytes(1) [OF dur]
          web_lease_hosts_def after d lease_now_run)
    from LeaseForm_of_bytes(1) [OF dur, of "[]"] d
    show "db (snd (form_random_route st u d h g w)) = snd (random_run st u g dur w)"
      by (simp add: form_random_route_def with_form_def web_lease_random_def after random_now_run)
  }
  {
    assume "lease_duration d h = Inl m"
    note refused = LeaseForm_of_bytes(2) [OF this]
    from refused [of "map show_HostId is"] show "db (snd (form_lease_route st u d h is w)) = db w"
      by (auto simp: form_lease_route_def with_form_def return_def)
    from refused [of "[]"] show "db (snd (form_random_route st u d h g w)) = db w"
      by (auto simp: form_random_route_def with_form_def return_def)
  }
  show "db (snd (web_release_hosts st u is w)) =
      snd (hosts_free (app_server st) (app_user u) is (db w))"
    "db (snd (web_release_all st u w)) = snd (hosts_free_all (app_server st) (app_user u) (db w))"
    by (simp_all add: web_release_hosts_def web_release_all_def after in_db_run_db)
qed

text \<open>The tools, called behind the bearer guard.\<close>

definition tool_lease_route where
  "tool_lease_route st u d h is = mcp_lease_hosts st (Some (Some u))
     \<lparr>la_hosts_ids = map host_raw is, la_days = d, la_hours = h\<rparr>"

definition tool_random_route where
  "tool_random_route st u d h g = mcp_lease_random_host st (Some (Some u))
     \<lparr>ra_group_id = group_raw g, ra_days = d, ra_hours = h\<rparr>"

definition tool_release_route where
  "tool_release_route st u is = mcp_release_hosts st (Some (Some u)) (map host_raw is)"

definition tool_release_all_route where
  "tool_release_all_route st u = mcp_release_all_hosts st (Some (Some u))"

lemma HostId_raws [simp]: "map HostId (map host_raw is) = is"
  by (simp add: o_def)

interpretation tools: hosts_frontend tool_lease_route tool_random_route tool_release_route
  tool_release_all_route
proof unfold_locales
  fix d h :: u8 and dur st u "is" g and w :: "'z site_scheme" and m
  have infos: "keeps db (qmark id (map_each (HostInfo_from_leased env) hs) (\<lambda>infos. json_result (Hosts infos))
      :: ('z, tool_result) tool)" for env hs
    unfolding json_result_def by (intro keeps_qmark keeps_map_each keeps_conversions keeps_basic)
  have info: "keeps db (qmark id (HostInfo_from_leased env l) (\<lambda>info. json_result (OneHost info))
      :: ('z, tool_result) tool)" for env l
    unfolding json_result_def by (intro keeps_qmark keeps_conversions keeps_basic)
  note after = qmark_db [OF infos] qmark_db [OF info] qmark_db [OF keeps_basic(1)]
  note defs = tool_lease_route_def mcp_lease_hosts_def tool_random_route_def mcp_lease_random_host_def
    mcp_lease_duration_api try_value_def require_user_def
  show "lease_duration d h = Inr dur \<Longrightarrow>
      db (snd (tool_lease_route st u d h is w)) = snd (lease_run st u is dur w)"
    by (simp add: defs after lease_now_run del: map_map)
  show "lease_duration d h = Inr dur \<Longrightarrow>
      db (snd (tool_random_route st u d h g w)) = snd (random_run st u g dur w)"
    by (simp add: defs after random_now_run)
  show "lease_duration d h = Inl m \<Longrightarrow> db (snd (tool_lease_route st u d h is w)) = db w"
    "lease_duration d h = Inl m \<Longrightarrow> db (snd (tool_random_route st u d h g w)) = db w"
    by (simp_all add: defs throw_def)
  show "db (snd (tool_release_route st u is w)) =
      snd (hosts_free (app_server st) (app_user u) is (db w))"
    "db (snd (tool_release_all_route st u w)) =
      snd (hosts_free_all (app_server st) (app_user u) (db w))"
    by (simp_all add: tool_release_route_def tool_release_all_route_def mcp_release_hosts_def
        mcp_release_all_hosts_def try_value_def require_user_def after in_db_run_db del: map_map)
qed

section \<open>The front ends agree\<close>

lemma handle_fst:
  "fst (handle m k w) = (case fst (m w) of
     Ok a \<Rightarrow> fst (k (Inr a) (snd (m w))) | Err e \<Rightarrow> fst (k (Inl e) (snd (m w))) | Panic \<Rightarrow> Panic)"
  by (simp add: handle_def split: prod.split outcome.split)

lemma qmark_fst:
  "fst (qmark f m k w) = (case fst (m w) of
     Ok a \<Rightarrow> fst (k a (snd (m w))) | Err e \<Rightarrow> Err (f e) | Panic \<Rightarrow> Panic)"
  by (simp add: qmark_def split: prod.split outcome.split)

lemma leased_json:
  "\<exists>hs. fst (json_hosts (HostInfo_from_leased env) ls w) = Ok (JsonBody 200 (Hosts hs))"
  by (simp add: json_hosts_def qmark_fst return_def split: outcome.split)

definition outcome_ok :: "('a, 'e) outcome \<Rightarrow> bool" where
  "outcome_ok r \<longleftrightarrow> (\<exists>x. r = Ok x)"

text \<open>What success looks like in each front end.\<close>

definition api_ok :: "(body response, unit) outcome \<Rightarrow> bool" where
  "api_ok r \<longleftrightarrow> (\<exists>hs. r = Ok (JsonBody 200 hs)) \<or> r = Ok (StatusOnly 204)"

definition form_ok :: "(body response, unit) outcome \<Rightarrow> bool" where
  "form_ok r \<longleftrightarrow> r = Ok (Redirect ''/hosts'' [])"

lemma error_not_ok [simp]: "\<not> api_ok (Ok (host_error_response e))" "\<not> api_ok Panic"
    "\<not> api_ok (Ok (JsonError n m))" "\<not> form_ok (Ok (back_to_hosts (Inl e)))" "\<not> form_ok Panic"
    "\<not> form_ok (Ok (Rejected m))" "form_ok (Ok (back_to_hosts (Inr x)))"
  by (simp_all add: api_ok_def form_ok_def host_error_response_def back_to_hosts_def)

lemma lease_oks:
  fixes w :: "'z site_scheme"
  assumes "lease_duration d h = Inr dur"
  shows "api_ok (fst (api_lease_route st u d h is w)) \<longleftrightarrow> outcome_ok (fst (lease_run st u is dur w))"
    and "form_ok (fst (form_lease_route st u d h is w)) \<longleftrightarrow> outcome_ok (fst (lease_run st u is dur w))"
    and "outcome_ok (fst (tool_lease_route st u d h is w)) \<longleftrightarrow>
      outcome_ok (fst (lease_run st u is dur w))"
proof -
  show "api_ok (fst (api_lease_route st u d h is w)) \<longleftrightarrow> outcome_ok (fst (lease_run st u is dur w))"
    using assms leased_json [of "surroundings st"]
    by (auto simp: api_lease_route_def api_lease_hosts_def handle_fst lease_now_run outcome_ok_def
        return_def api_ok_def host_error_response_def Let_def split: outcome.split)
  have "form_duration \<lparr>lf_days = Days (ucast d), lf_hours = Hours (ucast h), lf_hosts_ids = is\<rparr> = dur"
    using assms by (simp add: lease_duration_Inr form_duration_bytes)
  then show "form_ok (fst (form_lease_route st u d h is w)) \<longleftrightarrow>
      outcome_ok (fst (lease_run st u is dur w))"
    using LeaseForm_of_bytes(1) [OF assms, of "is"]
    by (auto simp: form_lease_route_def with_form_def web_lease_hosts_def handle_fst lease_now_run
        return_def outcome_ok_def split: outcome.split)
  show "outcome_ok (fst (tool_lease_route st u d h is w)) \<longleftrightarrow>
      outcome_ok (fst (lease_run st u is dur w))"
    using assms
    by (auto simp: tool_lease_route_def mcp_lease_hosts_def try_value_def require_user_def
        mcp_lease_duration_api qmark_fst lease_now_run outcome_ok_def json_result_def return_def
        simp del: map_map split: outcome.split)
qed

lemma lease_refusals:
  assumes "lease_duration d h = Inl m"
  shows "fst (api_lease_route st u d h is w) = Ok (JsonError 400 m)"
    and "\<exists>e. fst (form_lease_route st u d h is w) = Ok (Rejected e)"
    and "fst (tool_lease_route st u d h is w) = Err (InvalidParams m)"
  using assms LeaseForm_of_bytes(2) [OF assms, of "map show_HostId is"]
  by (auto simp: api_lease_route_def api_lease_hosts_def form_lease_route_def with_form_def
      tool_lease_route_def mcp_lease_hosts_def try_value_def require_user_def mcp_lease_duration_api
      return_def throw_def)

text \<open>
  C33: a lease is the same through the pages, the API and the tools: with the same fields the
  three leave the same database and succeed together, and fields outside 0 to 63 days and 0 to
  23 hours are refused by all three, without touching the database.
\<close>

theorem frontends_lease_agree:
  fixes w :: "'z site_scheme" and d h :: u8
  shows "db (snd (form_lease_route st u d h is w)) = db (snd (api_lease_route st u d h is w)) \<and>
    db (snd (tool_lease_route st u d h is w)) = db (snd (api_lease_route st u d h is w)) \<and>
    (form_ok (fst (form_lease_route st u d h is w)) \<longleftrightarrow> api_ok (fst (api_lease_route st u d h is w))) \<and>
    (outcome_ok (fst (tool_lease_route st u d h is w)) \<longleftrightarrow>
       api_ok (fst (api_lease_route st u d h is w))) \<and>
    (if d \<le> 63 \<and> h \<le> 23
     then db (snd (api_lease_route st u d h is w)) =
       snd (lease_run st u is ((uint h + uint d * 24) * hour) w)
     else (\<exists>m. fst (api_lease_route st u d h is w) = Ok (JsonError 400 m)) \<and>
       db (snd (api_lease_route st u d h is w)) = db w)"
proof (cases "lease_duration d h")
  case (Inl m)
  then have bounds: "(d \<le> 63 \<and> h \<le> 23) = False" by (auto simp: lease_duration_def split: if_splits)
  obtain e where "fst (form_lease_route st u d h is w) = Ok (Rejected e)"
    using lease_refusals(2) [OF Inl] by blast
  then show ?thesis
    unfolding bounds if_False using lease_refusals(1,3) [OF Inl, of st u "is" w] api.lease_refused [OF Inl, of st u "is" w]
      forms.lease_refused [OF Inl, of st u "is" w] tools.lease_refused [OF Inl, of st u "is" w]
    by (simp add: outcome_ok_def)
next
  case (Inr dur)
  then show ?thesis
    using lease_oks [OF Inr, of st u "is" w] api.lease_db [OF Inr, of st u "is" w]
      forms.lease_db [OF Inr, of st u "is" w] tools.lease_db [OF Inr, of st u "is" w]
    by (simp add: lease_duration_Inr)
qed

lemma random_oks:
  fixes w :: "'z site_scheme"
  assumes "lease_duration d h = Inr dur"
  shows "api_ok (fst (api_random_route st u d h g w)) \<longleftrightarrow> outcome_ok (fst (random_run st u g dur w))"
    and "form_ok (fst (form_random_route st u d h g w)) \<longleftrightarrow> outcome_ok (fst (random_run st u g dur w))"
    and "outcome_ok (fst (tool_random_route st u d h g w)) \<longleftrightarrow>
      outcome_ok (fst (random_run st u g dur w))"
proof -
  show "api_ok (fst (api_random_route st u d h g w)) \<longleftrightarrow> outcome_ok (fst (random_run st u g dur w))"
    using assms
    by (auto simp: api_random_route_def api_lease_random_def handle_fst qmark_fst random_now_run
        outcome_ok_def return_def api_ok_def host_error_response_def Let_def split: outcome.split)
  have "form_duration \<lparr>lf_days = Days (ucast d), lf_hours = Hours (ucast h), lf_hosts_ids = []\<rparr> = dur"
    using assms by (simp add: lease_duration_Inr form_duration_bytes)
  then show "form_ok (fst (form_random_route st u d h g w)) \<longleftrightarrow>
      outcome_ok (fst (random_run st u g dur w))"
    using LeaseForm_of_bytes(1) [OF assms, of "[]"]
    by (auto simp: form_random_route_def with_form_def web_lease_random_def handle_fst
        random_now_run return_def outcome_ok_def split: outcome.split)
  show "outcome_ok (fst (tool_random_route st u d h g w)) \<longleftrightarrow>
      outcome_ok (fst (random_run st u g dur w))"
    using assms
    by (auto simp: tool_random_route_def mcp_lease_random_host_def try_value_def require_user_def
        mcp_lease_duration_api qmark_fst random_now_run outcome_ok_def json_result_def return_def
        split: outcome.split)
qed

lemma random_refusals:
  assumes "lease_duration d h = Inl m"
  shows "fst (api_random_route st u d h g w) = Ok (JsonError 400 m)"
    and "\<exists>e. fst (form_random_route st u d h g w) = Ok (Rejected e)"
    and "fst (tool_random_route st u d h g w) = Err (InvalidParams m)"
  using assms LeaseForm_of_bytes(2) [OF assms, of "[]"]
  by (auto simp: api_random_route_def api_lease_random_def form_random_route_def with_form_def
      tool_random_route_def mcp_lease_random_host_def try_value_def require_user_def
      mcp_lease_duration_api return_def throw_def)

lemma random_agree:
  fixes w :: "'z site_scheme" and d h :: u8
  shows "db (snd (form_random_route st u d h g w)) = db (snd (api_random_route st u d h g w)) \<and>
    db (snd (tool_random_route st u d h g w)) = db (snd (api_random_route st u d h g w)) \<and>
    (form_ok (fst (form_random_route st u d h g w)) \<longleftrightarrow> api_ok (fst (api_random_route st u d h g w))) \<and>
    (outcome_ok (fst (tool_random_route st u d h g w)) \<longleftrightarrow>
       api_ok (fst (api_random_route st u d h g w)))"
proof (cases "lease_duration d h")
  case (Inl m)
  obtain e where "fst (form_random_route st u d h g w) = Ok (Rejected e)"
    using random_refusals(2) [OF Inl] by blast
  then show ?thesis
    using random_refusals(1,3) [OF Inl, of st u g w] api.random_refused [OF Inl, of st u g w]
      forms.random_refused [OF Inl, of st u g w] tools.random_refused [OF Inl, of st u g w]
    by (simp add: outcome_ok_def)
next
  case (Inr dur)
  show ?thesis
    using random_oks [OF Inr, of st u g w] api.random_db [OF Inr, of st u g w]
      forms.random_db [OF Inr, of st u g w] tools.random_db [OF Inr, of st u g w]
    by simp
qed

section \<open>The listings\<close>

text \<open>
  Conversions do not fail: in whatever front end they run, they give the same value, of which \<open>P\<close>
  holds, and leave the same state.
\<close>

definition yields ::
  "('a \<Rightarrow> bool) \<Rightarrow> ('s, 'a, 'e) io \<Rightarrow> ('s, 'a, 'f) io \<Rightarrow> bool" where
  "yields P m m' \<longleftrightarrow> (\<forall>w. \<exists>x v. m w = (Ok x, v) \<and> m' w = (Ok x, v) \<and> P x)"

lemma yields_return: "P x \<Longrightarrow> yields P (return x) (return x)"
  by (simp add: yields_def return_def)

lemma yields_utc_now: "yields (\<lambda>_. True) (utc_now env) (utc_now env)"
  by (simp add: yields_def utc_now_def)

lemma yields_qmark:
  assumes "yields Q m m'" and "\<And>x. Q x \<Longrightarrow> yields P (k x) (k' x)"
  shows "yields P (qmark f m k) (qmark g m' k')"
  unfolding yields_def
proof
  fix w
  obtain x v where "m w = (Ok x, v)" "m' w = (Ok x, v)" "Q x" using assms(1) unfolding yields_def by blast
  with assms(2) [OF this(3)] show "\<exists>x v. qmark f m k w = (Ok x, v) \<and> qmark g m' k' w = (Ok x, v) \<and> P x"
    by (simp add: qmark_def yields_def)
qed

lemma yields_map_each:
  assumes "\<And>x. yields (\<lambda>y. f y = g x) (m x) (m' x)"
  shows "yields (\<lambda>ys. map f ys = map g xs) (map_each m xs) (map_each m' xs)"
proof (induction xs)
  case (Cons x xs)
  show ?case
    by simp (rule yields_qmark [OF assms], rule yields_qmark [OF Cons.IH], rule yields_return, simp)
qed (simp add: yields_return)

text \<open>What an entry says: which host it is, and by whom and until when it is leased.\<close>

type_synonym entry = "HostId \<times> (string \<times> time) option"

definition entry_of :: "HostInfo \<Rightarrow> entry" where
  "entry_of i = (hi_id i, map_option (\<lambda>li. (li_leased_by li, li_leased_until li)) (hi_lease_info i))"

definition pair_entry :: "Host \<times> User option \<Rightarrow> entry" where
  "pair_entry value = (case value of (h, user) \<Rightarrow> (h_id h, (case (user, h_leased_until h) of
       (Some u, Some t) \<Rightarrow> Some (u_email u, of_timestamptz t) | _ \<Rightarrow> None)))"

definition leased_entry :: "LeasedHost \<Rightarrow> entry" where
  "leased_entry l = (lh_id l, Some (u_email (lh_user l), of_timestamptz (lh_leased_until l)))"

lemma yields_lease:
  "yields (\<lambda>li. (li_leased_by li, li_leased_until li) = (u_email u, of_timestamptz t))
     (LeaseInfo_from env (u, t)) (LeaseInfo_from env (u, t))"
  unfolding LeaseInfo_from_def prod.case
  by (rule yields_qmark [OF yields_utc_now], rule yields_return) simp

lemma yields_leased:
  "yields (\<lambda>i. entry_of i = leased_entry l) (HostInfo_from_leased env l) (HostInfo_from_leased env l)"
  unfolding HostInfo_from_leased_def
  by (rule yields_qmark [OF yields_lease], rule yields_return) (simp add: entry_of_def leased_entry_def)

lemma yields_pair:
  "yields (\<lambda>i. entry_of i = pair_entry hu) (HostInfo_from_pair env hu) (HostInfo_from_pair env hu)"
proof -
  obtain h user where hu: "hu = (h, user)" by (cases hu)
  have "yields (\<lambda>info. map_option (\<lambda>li. (li_leased_by li, li_leased_until li)) info = snd (pair_entry hu))
      (lease_info_of env user (h_leased_until h)) (lease_info_of env user (h_leased_until h))"
    unfolding lease_info_of_def hu
    by (cases user; cases "h_leased_until h")
      (auto simp: pair_entry_def intro!: yields_return yields_qmark [OF yields_lease])
  then show ?thesis
    unfolding HostInfo_from_pair_def hu prod.case
    by (rule yields_qmark) (rule yields_return, simp add: entry_of_def pair_entry_def)
qed

lemma yields_host:
  "yields (\<lambda>i. entry_of i = (h_id h, None)) (HostInfo_from_host env h) (HostInfo_from_host env h)"
  using yields_pair [of "(h, None)" env] by (simp add: HostInfo_from_host_def pair_entry_def)

text \<open>The listing in an answer of the API, in the result of a tool, and on the page of all hosts.\<close>

definition api_listing :: "(body response, unit) outcome \<Rightarrow> body option" where
  "api_listing r = (case r of Ok (JsonBody s b) \<Rightarrow> if s = 200 then Some b else None | _ \<Rightarrow> None)"

definition tool_listing :: "(tool_result, McpError) outcome \<Rightarrow> body option" where
  "tool_listing r = (case r of Ok (ToolJson b) \<Rightarrow> Some b | _ \<Rightarrow> None)"

definition page_listing :: "(body response, unit) outcome \<Rightarrow> body option" where
  "page_listing r = (case r of
     Ok (HtmlPage _ (Page p)) \<Rightarrow> (case pg_page p of AllHostsPage infos \<Rightarrow> Some (Hosts infos) | _ \<Rightarrow> None)
   | _ \<Rightarrow> None)"

text \<open>
  A handler lists what a call of the service answers: the entries, in their order, when it answers,
  and nothing when it fails; and so does another one, which leaves the same state.
\<close>

definition lists_what ::
  "('x \<Rightarrow> entry list) \<Rightarrow> ('x, 'e) outcome \<Rightarrow> body option \<Rightarrow> bool" where
  "lists_what entries called listing \<longleftrightarrow>
     (case called of
        Ok x \<Rightarrow> (\<exists>infos. listing = Some (Hosts infos) \<and> map entry_of infos = entries x)
      | _ \<Rightarrow> listing = None)"

lemma list_json:
  assumes "\<And>x. yields (\<lambda>i. entry_of i = g x) (c x :: ('z site_scheme, HostInfo, unit) io)
      (c' x :: ('z site_scheme, HostInfo, McpError) io)"
  shows "\<exists>infos v. json_hosts c xs w = (Ok (JsonBody 200 (Hosts infos)), v) \<and>
    map_each c xs w = (Ok infos, v) \<and>
    qmark id (map_each c' xs) (\<lambda>infos. json_result (Hosts infos)) w = (Ok (ToolJson (Hosts infos)), v) \<and>
    map entry_of infos = map g xs"
proof -
  obtain infos v where "map_each c xs w = (Ok infos, v)" "map_each c' xs w = (Ok infos, v)"
    "map entry_of infos = map g xs"
    using yields_map_each [where f = entry_of and g = g and m = c and m' = c', OF assms, of xs]
    unfolding yields_def by blast
  then show ?thesis by (simp add: json_hosts_def json_result_def qmark_def return_def)
qed

lemma groups_listed:
  "tool_listing (fst (mcp_list_groups st w)) = api_listing (fst (list_groups st w)) \<and>
   snd (mcp_list_groups st w) = snd (list_groups st w) \<and>
   api_listing (fst (list_groups st w)) =
    (case fst (groups_get_all_groups (app_server st) (db w)) of
       Ok gs \<Rightarrow> Some (Groups (map GroupInfo_from gs)) | _ \<Rightarrow> None)"
  by (auto simp: mcp_list_groups_def list_groups_def handle_def qmark_def in_db_def json_result_def
      return_def api_listing_def tool_listing_def split: prod.split outcome.split)

lemma call_listed:
  fixes q :: "(pg, 'x list, HostError) io" and w :: "'z site_scheme" and st :: AppState and user :: WebUser
  assumes conv: "\<And>x. yields (\<lambda>i. entry_of i = g x) (c x :: ('z site_scheme, HostInfo, unit) io)
      (c' x :: ('z site_scheme, HostInfo, McpError) io)"
  defines "api \<equiv> handle (in_db q) (\<lambda>res. case res of
      Inr xs \<Rightarrow> json_hosts c xs | Inl err \<Rightarrow> return (host_error_response err))"
    and "tool \<equiv> qmark host_error (in_db q) (\<lambda>xs.
      qmark id (map_each c' xs) (\<lambda>infos. json_result (Hosts infos)))"
    and "page \<equiv> unwrap_call (in_db q) (\<lambda>xs.
      qmark id (map_each c xs) (\<lambda>infos. return (HtmlPage [] (hosts_page st user (AllHostsPage infos)))))"
  shows "tool_listing (fst (tool w)) = api_listing (fst (api w)) \<and> snd (tool w) = snd (api w) \<and>
    page_listing (fst (page w)) = api_listing (fst (api w)) \<and> snd (page w) = snd (api w) \<and>
    lists_what (map g) (fst (q (db w))) (api_listing (fst (api w)))"
proof -
  obtain called t where run: "q (db w) = (called, t)" by fastforce
  show ?thesis
  proof (cases called)
    case (Ok xs)
    obtain infos v where "json_hosts c xs (w\<lparr>db := t\<rparr>) = (Ok (JsonBody 200 (Hosts infos)), v)"
      "map_each c xs (w\<lparr>db := t\<rparr>) = (Ok infos, v)"
      "qmark id (map_each c' xs) (\<lambda>infos. json_result (Hosts infos)) (w\<lparr>db := t\<rparr>) =
        (Ok (ToolJson (Hosts infos)), v)" "map entry_of infos = map g xs"
      using list_json [where c = c and c' = c' and g = g, OF conv, of xs "w\<lparr>db := t\<rparr>"] by blast
    with Ok run show ?thesis
      by (simp add: api_def tool_def page_def unwrap_call_def handle_def in_db_def qmark_Ok return_def
          api_listing_def tool_listing_def page_listing_def lists_what_def hosts_page_def)
  qed (use run in \<open>simp_all add: api_def tool_def page_def unwrap_call_def handle_def in_db_def qmark_def
      return_def panic_def api_listing_def tool_listing_def page_listing_def lists_what_def
      host_error_response_def\<close>)
qed

lemma available_listed:
  "tool_listing (fst (mcp_list_available_hosts st i w)) = api_listing (fst (list_available_hosts st (GroupId i) w)) \<and>
   snd (mcp_list_available_hosts st i w) = snd (list_available_hosts st (GroupId i) w) \<and>
   lists_what (map (\<lambda>h. (h_id h, None))) (fst (hosts_get_available_group_hosts (app_server st) (GroupId i) (db w)))
    (api_listing (fst (list_available_hosts st (GroupId i) w)))"
  unfolding mcp_list_available_hosts_def list_available_hosts_def
  using call_listed [where c = "HostInfo_from_host (surroundings st)" and c' = "HostInfo_from_host (surroundings st)"
      and g = "\<lambda>h. (h_id h, None)" and w = w
      and q = "hosts_get_available_group_hosts (app_server st) (GroupId i)", OF yields_host] by blast

lemma leased_listed:
  "tool_listing (fst (mcp_list_my_leased_hosts st (Some (Some u)) w)) = api_listing (fst (list_my_leased_hosts st u w)) \<and>
   snd (mcp_list_my_leased_hosts st (Some (Some u)) w) = snd (list_my_leased_hosts st u w) \<and>
   lists_what (map leased_entry) (fst (hosts_get_leased_hosts (app_server st) (app_user u) (db w)))
    (api_listing (fst (list_my_leased_hosts st u w)))"
  unfolding mcp_list_my_leased_hosts_def list_my_leased_hosts_def require_user_def try_value_def
    option.case sum.case
  using call_listed [where c = "HostInfo_from_leased (surroundings st)" and c' = "HostInfo_from_leased (surroundings st)"
      and g = leased_entry and w = w
      and q = "hosts_get_leased_hosts (app_server st) (app_user u)", OF yields_leased] by blast

text \<open>All hosts with their holders: of the users that one call answers and the hosts of the next.\<close>

lemma all_listed:
  "tool_listing (fst (mcp_list_all_hosts st w)) = api_listing (fst (list_all_hosts st w)) \<and>
   snd (mcp_list_all_hosts st w) = snd (list_all_hosts st w) \<and>
   page_listing (fst (get_all_hosts st u w)) = api_listing (fst (list_all_hosts st w)) \<and>
   snd (get_all_hosts st u w) = snd (list_all_hosts st w) \<and>
   (case users_get_all_users (app_server st) (db w) of
      (Ok users, t) \<Rightarrow> lists_what (map (\<lambda>h. pair_entry (with_user users h)))
        (fst (hosts_get_all_hosts (app_server st) t)) (api_listing (fst (list_all_hosts st w)))
    | _ \<Rightarrow> api_listing (fst (list_all_hosts st w)) = None)"
proof -
  obtain called t where run: "users_get_all_users (app_server st) (db w) = (called, t)" by fastforce
  show ?thesis
  proof (cases called)
    case (Ok users)
    let ?api = "handle (in_db (hosts_get_all_hosts (app_server st))) (\<lambda>res. case res of
        Inr hosts \<Rightarrow> json_hosts (\<lambda>h. HostInfo_from_pair (surroundings st) (with_user users h)) hosts
      | Inl err \<Rightarrow> return (host_error_response err))"
    have "list_all_hosts st w = ?api (w\<lparr>db := t\<rparr>)"
      using run Ok by (simp add: list_all_hosts_def handle_def in_db_def)
    moreover have "mcp_list_all_hosts st w =
        qmark host_error (in_db (hosts_get_all_hosts (app_server st))) (\<lambda>hosts.
          qmark id (map_each (\<lambda>h. HostInfo_from_pair (surroundings st) (with_user users h)) hosts)
            (\<lambda>infos. json_result (Hosts infos))) (w\<lparr>db := t\<rparr>)"
      using run Ok by (simp add: mcp_list_all_hosts_def in_db_def)
    moreover have "get_all_hosts st u w =
        unwrap_call (in_db (hosts_get_all_hosts (app_server st))) (\<lambda>hosts.
          qmark id (map_each (\<lambda>h. HostInfo_from_pair (surroundings st) (with_user users h)) hosts)
            (\<lambda>infos. return (HtmlPage [] (hosts_page st u (AllHostsPage infos))))) (w\<lparr>db := t\<rparr>)"
      using run Ok unfolding get_all_hosts_def
      by (subst unwrap_call_def) (simp add: handle_def in_db_def [of "users_get_all_users (app_server st)"])
    ultimately show ?thesis
      using call_listed [where c = "\<lambda>h. HostInfo_from_pair (surroundings st) (with_user users h)"
          and c' = "\<lambda>h. HostInfo_from_pair (surroundings st) (with_user users h)"
          and g = "\<lambda>h. pair_entry (with_user users h)" and w = "w\<lparr>db := t\<rparr>" and st = st and user = u
          and q = "hosts_get_all_hosts (app_server st)", OF yields_pair] run Ok
      by simp
  qed (use run in \<open>simp_all add: list_all_hosts_def mcp_list_all_hosts_def get_all_hosts_def unwrap_call_def
      handle_def in_db_def qmark_def return_def panic_def api_listing_def tool_listing_def page_listing_def\<close>)
qed

text \<open>
  C34: so are the random lease, the two releases and the listings. They differ in how they fail: where
  the API answers a release with an error status, the form panics, and the tool reports an error. The
  API and the tools list the same groups and hosts, in the order in which the service answers them,
  a host with its holder's address and the end of its lease where it is leased; they list nothing
  when the service fails; and so does the page of all hosts.
\<close>

theorem frontends_calls_agree:
  fixes w :: "'z site_scheme" and d h :: u8
  shows "(db (snd (form_random_route st u d h g w)) = db (snd (api_random_route st u d h g w)) \<and>
     db (snd (tool_random_route st u d h g w)) = db (snd (api_random_route st u d h g w)) \<and>
     (form_ok (fst (form_random_route st u d h g w)) \<longleftrightarrow> api_ok (fst (api_random_route st u d h g w))) \<and>
     (outcome_ok (fst (tool_random_route st u d h g w)) \<longleftrightarrow>
        api_ok (fst (api_random_route st u d h g w)))) \<and>
   (db (snd (web_release_hosts st u is w)) = db (snd (api_release_hosts st u is w)) \<and>
     db (snd (tool_release_route st u is w)) = db (snd (api_release_hosts st u is w)) \<and>
     fst (web_release_hosts st u is w) =
       (if api_ok (fst (api_release_hosts st u is w)) then Ok (Redirect ''/hosts'' []) else Panic) \<and>
     (outcome_ok (fst (tool_release_route st u is w)) \<longleftrightarrow>
        api_ok (fst (api_release_hosts st u is w)))) \<and>
   (db (snd (web_release_all st u w)) = db (snd (api_release_all st u w)) \<and>
     db (snd (tool_release_all_route st u w)) = db (snd (api_release_all st u w)) \<and>
     fst (web_release_all st u w) =
       (if api_ok (fst (api_release_all st u w)) then Ok (Redirect ''/hosts'' []) else Panic) \<and>
     (outcome_ok (fst (tool_release_all_route st u w)) \<longleftrightarrow> api_ok (fst (api_release_all st u w)))) \<and>
   (tool_listing (fst (mcp_list_groups st w)) = api_listing (fst (list_groups st w)) \<and>
     snd (mcp_list_groups st w) = snd (list_groups st w) \<and>
     api_listing (fst (list_groups st w)) =
       (case fst (groups_get_all_groups (app_server st) (db w)) of
          Ok gs \<Rightarrow> Some (Groups (map GroupInfo_from gs)) | _ \<Rightarrow> None)) \<and>
   (tool_listing (fst (mcp_list_available_hosts st i w)) = api_listing (fst (list_available_hosts st (GroupId i) w)) \<and>
     snd (mcp_list_available_hosts st i w) = snd (list_available_hosts st (GroupId i) w) \<and>
     lists_what (map (\<lambda>h. (h_id h, None)))
       (fst (hosts_get_available_group_hosts (app_server st) (GroupId i) (db w)))
       (api_listing (fst (list_available_hosts st (GroupId i) w)))) \<and>
   (tool_listing (fst (mcp_list_my_leased_hosts st (Some (Some u)) w)) = api_listing (fst (list_my_leased_hosts st u w)) \<and>
     snd (mcp_list_my_leased_hosts st (Some (Some u)) w) = snd (list_my_leased_hosts st u w) \<and>
     lists_what (map leased_entry) (fst (hosts_get_leased_hosts (app_server st) (app_user u) (db w)))
       (api_listing (fst (list_my_leased_hosts st u w)))) \<and>
   (tool_listing (fst (mcp_list_all_hosts st w)) = api_listing (fst (list_all_hosts st w)) \<and>
     snd (mcp_list_all_hosts st w) = snd (list_all_hosts st w) \<and>
     page_listing (fst (get_all_hosts st u w)) = api_listing (fst (list_all_hosts st w)) \<and>
     snd (get_all_hosts st u w) = snd (list_all_hosts st w) \<and>
     (case users_get_all_users (app_server st) (db w) of
        (Ok users, t) \<Rightarrow> lists_what (map (\<lambda>h. pair_entry (with_user users h)))
          (fst (hosts_get_all_hosts (app_server st) t)) (api_listing (fst (list_all_hosts st w)))
      | _ \<Rightarrow> api_listing (fst (list_all_hosts st w)) = None))"
proof -
  have ok: "api_ok (Ok (StatusOnly 204))" by (simp add: api_ok_def)
  note defs = web_release_hosts_def web_release_all_def unwrap_call_def api_release_hosts_def
    api_release_all_def tool_release_route_def tool_release_all_route_def mcp_release_hosts_def
    mcp_release_all_hosts_def try_value_def require_user_def handle_fst qmark_fst in_db_run_db
    outcome_ok_def
  have releases: "fst (web_release_hosts st u is w) =
      (if api_ok (fst (api_release_hosts st u is w)) then Ok (Redirect ''/hosts'' []) else Panic)"
    "outcome_ok (fst (tool_release_route st u is w)) \<longleftrightarrow> api_ok (fst (api_release_hosts st u is w))"
    "fst (web_release_all st u w) =
      (if api_ok (fst (api_release_all st u w)) then Ok (Redirect ''/hosts'' []) else Panic)"
    "outcome_ok (fst (tool_release_all_route st u w)) \<longleftrightarrow> api_ok (fst (api_release_all st u w))"
    by (simp_all add: defs return_def panic_def ok del: map_map split: outcome.split)
  have calls: "db (snd (web_release_hosts st u is w)) = db (snd (api_release_hosts st u is w))"
    "db (snd (tool_release_route st u is w)) = db (snd (api_release_hosts st u is w))"
    "db (snd (web_release_all st u w)) = db (snd (api_release_all st u w))"
    "db (snd (tool_release_all_route st u w)) = db (snd (api_release_all st u w))"
    using api.release_db [of st u "is" w] forms.release_db [of st u "is" w] tools.release_db [of st u "is" w]
      api.release_all_db [of st u w] forms.release_all_db [of st u w] tools.release_all_db [of st u w]
    by simp_all
  show ?thesis
    by (intro conjI [OF random_agree] conjI [OF _ conjI [OF _ conjI [OF groups_listed
        conjI [OF available_listed conjI [OF leased_listed all_listed]]]]] conjI calls releases)
qed

end
