(* ===== verification/System.thy ===== *)
theory System
  imports Ledger Router Frontends
begin

text \<open>
  The composition: one process in which web requests, updates of the Telegram bot and rounds of
  the release timer are performed one after another on the same database, as
  \<open>src/src/bin/tachikoma.rs\<close> starts them. Every event refines an action of the ledger that is
  permitted and that its author may perform.
\<close>

section \<open>Events\<close>

datatype 'h event =
    Request session_data "'h request"
  | Update tg_update
  | TimerRound Release.hash_order

record 'h process =
  web :: AppState
  http_of :: "'h http"
  bot_enabled :: bool
  is_start_command :: "string \<Rightarrow> bool"

abbreviation process_env :: "'h process \<Rightarrow> env" where
  "process_env p \<equiv> surroundings (web p)"

definition notifier_of :: "'h process \<Rightarrow> ('z timer_ext) get_message_sender option" where
  "notifier_of p = (if bot_enabled p then Some (tg_get_message_sender (process_env p)) else None)"

definition perform :: "'h process \<Rightarrow> 'h event \<Rightarrow> site \<Rightarrow> site" where
  "perform p ev w =
     (case ev of
        Request data req \<Rightarrow> snd (serve (http_of p) (web p) data req w)
      | Update upd \<Rightarrow>
          (if bot_enabled p then snd (bot_dispatch (is_start_command p) (process_env p) upd w) else w)
      | TimerRound ord \<Rightarrow> snd (timer_round (process_env p) (notifier_of p) ord w))"

inductive reachable :: "'h process \<Rightarrow> site \<Rightarrow> site \<Rightarrow> bool" for p where
  start: "reachable p w w"
| step: "reachable p w v \<Longrightarrow> reachable p w (perform p ev v)"

section \<open>Who may do what\<close>

text \<open>The state in which a request is dispatched, once its session has been resumed.\<close>

definition resumed :: "'h process \<Rightarrow> session_data \<Rightarrow> site \<Rightarrow> site" where
  "resumed p data w = snd (resume_session (app_server (web p)) (app_directory (web p)) data w)"

text \<open>The user a request acts for: that of its session, or the one its bearer token proves.\<close>

definition acts_for :: "'h process \<Rightarrow> site \<Rightarrow> 'h event \<Rightarrow> WebUser \<Rightarrow> bool" where
  "acts_for p w ev wu \<longleftrightarrow>
     (case ev of
        Request data (Session e) \<Rightarrow>
          session_accepted (stored w) (app_directory (web p)) (dir_calls (users_info w)) data wu
      | Request data (Bearer auth e) \<Rightarrow> (\<exists>h token. auth = Some h \<and>
          header_to_str (http_of p) h = Some (''Bearer '' @ token) \<and>
          bearer_accepted (stored w) (app_directory (web p))
            (dir_calls (users_info (resumed p data w))) (sha2 (web p)) (trim token) wu)
      | _ \<Rightarrow> False)"

definition performable :: "'h process \<Rightarrow> site \<Rightarrow> 'h event \<Rightarrow> action \<Rightarrow> bool" where
  "performable p w ev a \<longleftrightarrow>
     (case a of
        Nothing \<Rightarrow> True
      | Lease u is t n \<Rightarrow> (\<exists>wu. acts_for p w ev wu \<and> u = app_user wu \<and>
          limit_of (hosts_service (web p)) (stored w) (wu_groups wu) = Some n)
      | GiveBack u is \<Rightarrow> (\<exists>wu. acts_for p w ev wu \<and> u = app_user wu)
      | Grant u h \<Rightarrow> (\<exists>wu. acts_for p w ev wu \<and> u = app_user wu)
      | Revoke u h \<Rightarrow> (\<exists>wu. acts_for p w ev wu \<and> u = app_user wu)
      | Expire t \<Rightarrow> (\<exists>ord. ev = TimerRound ord) \<and>
          t = to_timestamptz (clock (process_env p) (clock_reads w))
      | Extend u before span \<Rightarrow> (\<exists>q x. ev = Update (CallbackUpdate q) \<and>
          x \<in> set (users_t (stored w)) \<and> u_id x = u \<and>
          u_tg_handle x = Some (show_tg_user_id (cq_from q)) \<and>
          before = to_timestamptz (clock (process_env p) (clock_reads w) + EXPIRATION_NOTIFY_WINDOW))
      | Join u \<Rightarrow> (\<exists>data name password info. ev = Request data (Public (PostLogin name password)) \<and>
          accepted (app_directory (web p)) (dir_calls (users_info (resumed p data w))) name
            password info))"

text \<open>A change of the database that refines a permitted action.\<close>

definition refines :: "(action \<Rightarrow> bool) \<Rightarrow> database \<Rightarrow> database \<Rightarrow> bool" where
  "refines may d d' \<longleftrightarrow> db_ok d' \<and>
     (\<exists>a. may a \<and> allowed a (ledger_of d) \<and> ledger_of d' = apply_action a (ledger_of d))"

lemma refinesI:
  "db_ok d' \<Longrightarrow> may a \<Longrightarrow> allowed a (ledger_of d) \<Longrightarrow>
   ledger_of d' = apply_action a (ledger_of d) \<Longrightarrow> refines may d d'"
  by (auto simp: refines_def)

lemma refines_same: "db_ok d \<Longrightarrow> may Nothing \<Longrightarrow> refines may d d"
  by (rule refinesI [where a = Nothing]) simp_all

lemma refines_mono: "refines may d d' \<Longrightarrow> (\<And>a. may a \<Longrightarrow> may' a) \<Longrightarrow> refines may' d d'"
  by (auto simp: refines_def)

section \<open>What a user may do\<close>

fun by_user :: "HostsService \<Rightarrow> database \<Rightarrow> WebUser \<Rightarrow> action \<Rightarrow> bool" where
  "by_user svc d wu Nothing \<longleftrightarrow> True"
| "by_user svc d wu (Lease u is t n) \<longleftrightarrow> u = app_user wu \<and> limit_of svc d (wu_groups wu) = Some n"
| "by_user svc d wu (GiveBack u is) \<longleftrightarrow> u = app_user wu"
| "by_user svc d wu (Grant u h) \<longleftrightarrow> u = app_user wu"
| "by_user svc d wu (Revoke u h) \<longleftrightarrow> u = app_user wu"
| "by_user svc d wu a \<longleftrightarrow> False"

abbreviation user_step :: "AppState \<Rightarrow> WebUser \<Rightarrow> 'z world_scheme \<Rightarrow> 'z world_scheme \<Rightarrow> bool" where
  "user_step st wu w w' \<equiv>
     refines (by_user (hosts_service st) (stored w) wu) (stored w) (stored w')"

lemma refines_assign:
  assumes ok: "db_ok (assign_hosts u js t d)" and may: "may (Lease u (set js) t n)"
    and guard: "set js \<inter> held d u = {}" "card (held d u) + card (set js) \<le> n"
  shows "refines may d (assign_hosts u js t d)"
proof (rule refinesI [where may = may, OF ok may])
  have "u \<in> user_ids d" if "i \<in> set js" "i \<in> host_ids d" for i
  proof -
    have "lg_leases (ledger_of (assign_hosts u js t d)) i = Some (u, t)"
      using that by (simp add: holder_assign)
    with ledger_okD(2) [OF ledger_of_ok [OF ok]] show ?thesis by fastforce
  qed
  with guard show "allowed (Lease u (set js) t n) (ledger_of d)" by auto
  show "ledger_of (assign_hosts u js t d) = apply_action (Lease u (set js) t n) (ledger_of d)"
    by (rule ledger_assign)
qed

lemma lease_run_step:
  assumes ok: "db_ok (stored w)" and w': "db w' = snd (lease_run st wu js dur w)"
  shows "user_step st wu w w'"
proof -
  obtain r s' where run: "lease_run st wu js dur w = (r, s')" by (cases "lease_run st wu js dur w")
  from run [unfolded lease_run_def] ok show ?thesis
  proof (cases rule: hosts_lease_cases)
    case failed
    with ok w' run show ?thesis by (simp add: refines_same)
  next
    case (leased n until k)
    from leased(2) have "set js \<inter> held (stored w) (app_user wu) = {}" by blast
    from refines_assign [OF leased(6) [unfolded leased(5)] _ this leased(3)] leased(1,5) w' run
    show ?thesis by simp
  qed
qed

lemma random_run_step:
  assumes ok: "db_ok (stored w)" and w': "db w' = snd (random_run st wu g dur w)"
  shows "user_step st wu w w'"
proof -
  obtain r s' where run: "random_run st wu g dur w = (r, s')" by (cases "random_run st wu g dur w")
  from run [unfolded random_run_def] ok show ?thesis
  proof (cases rule: hosts_lease_random_cases)
    case failed
    with ok w' run show ?thesis by (simp add: refines_same)
  next
    case (leased n h until)
    let ?u = "app_user wu"
    have "set [h_id h] \<inter> held (stored w) ?u = {}"
      using host_row_unique [OF db_okD(2) [OF ok] leased(3)] leased(4)
      by (auto simp: held_iff holder_def row_holder_def)
    moreover have "card (held (stored w) ?u) + card (set [h_id h]) \<le> n" using leased(2) by simp
    ultimately show ?thesis
      using refines_assign [OF leased(8) [unfolded leased(7)], where n = n] leased(1,7) w' run by simp
  qed
qed

lemma refines_cleared:
  assumes "db_ok d" and "may (GiveBack u js)"
    and "ledger_of (clear_hosts P d) = apply_action (GiveBack u js) (ledger_of d)"
  shows "refines may d (clear_hosts P d)"
  using assms by (intro refinesI [where a = "GiveBack u js"] db_ok_clear) auto

lemma free_step:
  assumes ok: "db_ok (stored w)" and w': "db w' = snd (hosts_free srv (app_user wu) js (db w))"
  shows "user_step st wu w w'"
proof -
  obtain r s' where run: "hosts_free srv (app_user wu) js (db w) = (r, s')"
    by (cases "hosts_free srv (app_user wu) js (db w)")
  then show ?thesis
    by (cases rule: hosts_free_cases)
      (use ok w' run in \<open>simp_all add: refines_same refines_cleared [OF ok _ ledger_clear_for]\<close>)
qed

lemma free_all_step:
  assumes ok: "db_ok (stored w)" and w': "db w' = snd (hosts_free_all srv (app_user wu) (db w))"
  shows "user_step st wu w w'"
proof -
  obtain r s' where run: "hosts_free_all srv (app_user wu) (db w) = (r, s')"
    by (cases "hosts_free_all srv (app_user wu) (db w)")
  then show ?thesis
    by (cases rule: hosts_free_all_cases)
      (use ok w' run in \<open>simp_all add: refines_same refines_cleared [OF ok _ ledger_clear_user]\<close>)
qed

lemma create_token_step:
  assumes ok: "db_ok (stored w)"
    and w': "db w' = snd (tokens_create srv svc sha bytes (app_user wu) name (db w))"
  shows "user_step st wu w w'"
proof -
  obtain r s' where run: "tokens_create srv svc sha bytes (app_user wu) name (db w) = (r, s')"
    by (cases "tokens_create srv svc sha bytes (app_user wu) name (db w)")
  then show ?thesis
  proof (cases rule: tokens_create_cases)
    case failed
    with ok w' run show ?thesis by (simp add: refines_same)
  next
    case (created k)
    have "db_ok (add_token k (stored w))"
      unfolding add_token_def by (rule db_ok_add_token [OF ok]) (use created in simp_all)
    moreover have "allowed (Grant (t_user_id k) (t_token_hash k)) (ledger_of (stored w))"
      using created by (auto simp: credentials_of)
    ultimately have "refines (by_user (hosts_service st) (stored w) wu) (stored w) (add_token k (stored w))"
      using ledger_add_token created(1)
      by (intro refinesI [where a = "Grant (t_user_id k) (t_token_hash k)"]) simp_all
    with created(8) w' run show ?thesis by simp
  qed
qed

lemma revoke_token_step:
  assumes ok: "db_ok (stored w)" and w': "db w' = snd (tokens_revoke srv i (app_user wu) (db w))"
  shows "user_step st wu w w'"
proof -
  let ?u = "app_user wu" and ?d = "stored w"
  let ?d' = "drop_tokens (\<lambda>k. t_id k = i \<and> t_user_id k = ?u) ?d"
  obtain r s' where run: "tokens_revoke srv i ?u (db w) = (r, s')" by (cases "tokens_revoke srv i ?u (db w)")
  have "db_ok ?d'" unfolding drop_tokens_def by (rule db_ok_drop_tokens [OF ok])
  then have dropped: "refines (by_user (hosts_service st) ?d wu) ?d ?d'"
  proof -
    from ledger_drop_token [OF ok, of i ?u] obtain h where
      "ledger_of ?d' = apply_action (Revoke ?u h) (ledger_of ?d) \<or> ?d' = ?d" by blast
    then show ?thesis
    proof
      assume "ledger_of ?d' = apply_action (Revoke ?u h) (ledger_of ?d)"
      with \<open>db_ok ?d'\<close> show ?thesis by (intro refinesI [where a = "Revoke ?u h"]) simp_all
    next
      assume "?d' = ?d"
      with ok show ?thesis by (simp add: refines_same)
    qed
  qed
  from run show ?thesis
    by (cases rule: tokens_revoke_cases) (use ok w' run dropped in \<open>simp_all add: refines_same\<close>)
qed

section \<open>Requests\<close>

lemma keeps_reads [keeps_intros]:
  "keeps committed (groups_get_all_groups srv)" "keeps committed (hosts_get_all_hosts srv)"
  "keeps committed (hosts_get_available_group_hosts srv g)"
  "keeps committed (hosts_get_leased_hosts srv u)"
  "keeps committed (hosts_get_hosts_filtered srv m og)" "keeps committed (tokens_list_for_user srv u)"
  unfolding groups_get_all_groups_def hosts_get_all_hosts_def hosts_get_available_group_hosts_def
    hosts_get_leased_hosts_def hosts_get_hosts_filtered_def tokens_list_for_user_def tx_get_groups_def
    tx_get_all_hosts_def tx_get_available_group_hosts_def tx_get_leased_hosts_def
    tx_get_hosts_filtered_def tx_list_api_tokens_for_user_def
  by (rule keepsI, erule read_only_query_committed)+

lemma keeps_conversions_stored [keeps_intros]:
  "keeps stored (HostInfo_from_pair env hu)" "keeps stored (HostInfo_from_host env h)"
  "keeps stored (HostInfo_from_leased env l)" "keeps stored (HostInfo_from_listing env hl)"
  by (intro keeps_db_stored keeps_conversions)+

lemma keeps_json_stored [keeps_intros]:
  "(\<And>x. keeps stored (info x)) \<Longrightarrow> keeps stored (json_hosts info hosts)"
  unfolding json_hosts_def by (auto intro!: keeps_qmark keeps_map_each keeps_basic)

lemma keeps_unwrap_call [keeps_intros]:
  "keeps P m \<Longrightarrow> (\<And>x. keeps P (k x)) \<Longrightarrow> keeps P (unwrap_call m k)"
  unfolding unwrap_call_def by (intro keeps_handle keeps_sum keeps_basic)

lemma keeps_listings [keeps_intros]:
  "keeps stored (list_groups st)" "keeps stored (list_available_hosts st g)"
  "keeps stored (list_my_leased_hosts st wu)" "keeps stored (list_all_hosts st)"
  unfolding list_groups_def list_available_hosts_def list_my_leased_hosts_def list_all_hosts_def
  by (intro keeps_intros)+

lemma keeps_tools [keeps_intros]:
  "keeps stored (mcp_list_groups st)" "keeps stored (mcp_list_available_hosts st i)"
  "keeps stored (mcp_list_my_leased_hosts st ctx)" "keeps stored (mcp_list_all_hosts st)"
  unfolding mcp_list_groups_def mcp_list_available_hosts_def mcp_list_my_leased_hosts_def
    mcp_list_all_hosts_def json_result_def
  by (intro keeps_intros)+

lemma keeps_pages [keeps_intros]:
  "keeps stored (get_hosts st wu pa co fl)" "keeps stored (get_all_hosts st wu)"
  "keeps stored (get_hosts_json st m og)" "keeps stored (login_page fl)"
  "keeps stored (tokens_page st wu fl)"
  unfolding get_hosts_def get_all_hosts_def get_hosts_json_def login_page_def tokens_page_def Let_def
  by (intro keeps_intros | (rule keeps_basic | simp add: case_prod_beta))+

text \<open>A handler that keeps what is stored makes no step.\<close>

lemma user_step_keeps:
  assumes "db_ok (stored w)" and "keeps stored m"
  shows "user_step st wu w (snd (m w))"
proof -
  have "stored (snd (m w)) = stored w" by (rule keepsD [OF assms(2)]) (rule prod.collapse [symmetric])
  with assms(1) show ?thesis by (simp add: refines_same)
qed

lemma web_leases_db:
  "db (snd (web_lease_hosts st wu data w)) = snd (lease_run st wu (lf_hosts_ids data) (form_duration data) w)"
  "db (snd (web_lease_random st wu g data w)) = snd (random_run st wu g (form_duration data) w)"
  by (simp_all add: web_lease_hosts_def web_lease_random_def handle_db keeps_basic lease_now_run
      random_now_run)

lemma tokens_db:
  "db (snd (create_token st wu bytes name w)) = snd (tokens_create (app_server st)
     (api_tokens_service st) (sha2 st) bytes (app_user wu) (Some name) (db w))"
  "db (snd (revoke_token st wu i w)) = snd (tokens_revoke (app_server st) i (app_user wu) (db w))"
  by (simp_all add: create_token_def revoke_token_def handle_db keeps_basic keeps_sum in_db_run_db)

lemma keeps_rejected: "keeps stored (return (Rejected m))"
  by (rule keeps_basic)

lemma with_form_step:
  assumes "db_ok (stored w)" and "\<And>data. user_step st wu w (snd (k data w))"
  shows "user_step st wu w (snd (with_form parsed k w))"
  using assms by (simp add: with_form_def return_def refines_same split: sum.split)

lemma serve_session_step:
  fixes w :: site
  assumes ok: "db_ok (stored w)"
  shows "user_step st wu w (snd (serve_session st e wu w))"
proof -
  note keep = user_step_keeps [OF ok]
  show ?thesis
  proof (cases e)
    case (PostHostsLease data)
    have "user_step st wu w (snd (web_lease_hosts st wu d w))" for d
      using lease_run_step [OF ok web_leases_db(1)] .
    with PostHostsLease ok show ?thesis by (simp add: serve_session_def with_form_step)
  next
    case (PostHostsLeaseRandom g data)
    have "user_step st wu w (snd (web_lease_random st wu g d w))" for d
      using random_run_step [OF ok web_leases_db(2)] .
    with PostHostsLeaseRandom ok show ?thesis by (simp add: serve_session_def with_form_step)
  next
    case (PostHostsRelease data)
    have "user_step st wu w (snd (web_release_hosts st wu d w))" for d
      using free_step [OF ok forms.release_db] .
    with PostHostsRelease ok show ?thesis by (simp add: serve_session_def with_form_step)
  next
    case PostHostsReleaseAll
    then show ?thesis using free_all_step [OF ok forms.release_all_db] by (simp add: serve_session_def)
  next
    case (PostTokens bytes name)
    then show ?thesis using create_token_step [OF ok tokens_db(1)] by (simp add: serve_session_def)
  next
    case (PostTokensRevoke i)
    then show ?thesis using revoke_token_step [OF ok tokens_db(2)] by (simp add: serve_session_def)
  qed (simp_all add: serve_session_def keep keeps_basic keeps_pages)
qed

lemma api_lease_fields:
  "api_lease_hosts st wu req = api_lease_route st wu (lr_days req) (lr_hours req) (lr_hosts_ids req)"
  "api_lease_random st wu rq = api_random_route st wu (rr_days rq) (rr_hours rq) (rr_group_id rq)"
  by (cases req, simp add: api_lease_route_def) (cases rq, simp add: api_random_route_def)

lemma tool_fields:
  "mcp_lease_hosts st (Some (Some wu)) args =
     tool_lease_route st wu (la_days args) (la_hours args) (map HostId (la_hosts_ids args))"
  "mcp_lease_random_host st (Some (Some wu)) ra =
     tool_random_route st wu (ra_days ra) (ra_hours ra) (GroupId (ra_group_id ra))"
  "mcp_release_hosts st (Some (Some wu)) raws = tool_release_route st wu (map HostId raws)"
  "mcp_release_all_hosts st (Some (Some wu)) = tool_release_all_route st wu"
proof -
  show "mcp_lease_hosts st (Some (Some wu)) args =
      tool_lease_route st wu (la_days args) (la_hours args) (map HostId (la_hosts_ids args))"
    by (cases args) (simp add: tool_lease_route_def o_def)
  show "mcp_lease_random_host st (Some (Some wu)) ra =
      tool_random_route st wu (ra_days ra) (ra_hours ra) (GroupId (ra_group_id ra))"
    by (cases ra) (simp add: tool_random_route_def)
qed (simp_all add: tool_release_route_def tool_release_all_route_def o_def)

text \<open>Through every front end a lease is a step of its user, whatever the fields.\<close>

context hosts_frontend
begin

lemma lease_route_db:
  "db (snd (lease_route st u d h js w)) = db w \<or>
   (\<exists>dur. db (snd (lease_route st u d h js w)) = snd (lease_run st u js dur w))"
  by (cases "lease_duration d h") (use lease_db lease_refused in blast)+

lemma random_route_db:
  "db (snd (random_route st u d h g w)) = db w \<or>
   (\<exists>dur. db (snd (random_route st u d h g w)) = snd (random_run st u g dur w))"
  by (cases "lease_duration d h") (use random_db random_refused in blast)+

end

lemma lease_or_nothing:
  assumes ok: "db_ok (stored w)"
  shows "db w' = db w \<or> (\<exists>dur. db w' = snd (lease_run st wu js dur w)) \<Longrightarrow> user_step st wu w w'"
    and "db w' = db w \<or> (\<exists>dur. db w' = snd (random_run st wu g dur w)) \<Longrightarrow> user_step st wu w w'"
  using lease_run_step [OF ok] random_run_step [OF ok] refines_same [OF ok]
  by (auto simp: refines_same [OF ok])

lemma call_tool_step:
  fixes w :: site
  assumes ok: "db_ok (stored w)"
  shows "user_step st wu w (snd (call_tool st (Some (Some wu)) c w))"
proof (cases c)
  case (ToolLeaseHosts args)
  then show ?thesis
    using lease_or_nothing(1) [OF ok tools.lease_route_db] by (simp add: call_tool_def tool_fields)
next
  case (ToolLeaseRandomHost args)
  then show ?thesis
    using lease_or_nothing(2) [OF ok tools.random_route_db] by (simp add: call_tool_def tool_fields)
next
  case (ToolReleaseHosts raws)
  then show ?thesis using free_step [OF ok tools.release_db] by (simp add: call_tool_def tool_fields)
next
  case ToolReleaseAllHosts
  then show ?thesis
    using free_all_step [OF ok tools.release_all_db] by (simp add: call_tool_def tool_fields)
qed (simp_all add: call_tool_def user_step_keeps [OF ok] keeps_tools)

lemma serve_bearer_step:
  fixes w :: site
  assumes ok: "db_ok (stored w)"
  shows "user_step st wu w (snd (serve_bearer st e wu w))"
proof (cases e)
  case (ApiHostsLease req)
  then show ?thesis
    using lease_or_nothing(1) [OF ok api.lease_route_db] by (simp add: serve_bearer_def api_lease_fields)
next
  case (ApiHostsLeaseRandom req)
  then show ?thesis
    using lease_or_nothing(2) [OF ok api.random_route_db] by (simp add: serve_bearer_def api_lease_fields)
next
  case (ApiHostsRelease js)
  then show ?thesis using free_step [OF ok api.release_db] by (simp add: serve_bearer_def)
next
  case ApiHostsReleaseAll
  then show ?thesis using free_all_step [OF ok api.release_all_db] by (simp add: serve_bearer_def)
next
  case (McpTool c)
  then show ?thesis using call_tool_step [OF ok] by (simp add: serve_bearer_def)
qed (simp_all add: serve_bearer_def user_step_keeps [OF ok] keeps_listings)

lemma login_step:
  fixes w :: site
  assumes ok: "db_ok (stored w)"
  shows "refines (\<lambda>a. a = Nothing \<or> (\<exists>u info. a = Join u \<and>
      accepted dir (dir_calls (users_info w)) name password info)) (stored w)
    (stored (snd (login srv dir store name password w :: (body response, unit) outcome \<times> site)))"
proof -
  obtain r :: "(body response, unit) outcome" and w' where
      run: "login srv dir store name password w = (r, w')"
    by (cases "login srv dir store name password w :: (body response, unit) outcome \<times> site")
  from run ok show ?thesis
  proof (cases rule: login_cases)
    case same
    with ok show ?thesis unfolding run snd_conv same(1) by (intro refines_same) simp_all
  next
    case (joined info u)
    then have "allowed (Join (u_id u)) (ledger_of (stored w))" by (simp add: fresh_user_def)
    with joined show ?thesis
      unfolding run snd_conv
      by (intro refinesI [where a = "Join (u_id u)"]) (auto simp: ledger_insert_user)
  qed
qed

section \<open>Updates and rounds\<close>

lemma handle_stored:
  assumes "\<And>x. keeps stored (k x)"
  shows "stored (snd (handle m k w)) = stored (snd (m w))"
proof -
  obtain r v where m: "m w = (r, v)" by (cases "m w")
  have "stored (snd (k x v)) = stored v" for x
    by (rule keepsD [OF assms]) (rule prod.collapse [symmetric])
  with m show ?thesis by (simp add: handle_def split: outcome.split)
qed

lemma qmark_stored:
  assumes "\<And>x. keeps stored (k x)"
  shows "stored (snd (qmark f m k w)) = stored (snd (m w))"
proof -
  obtain r v where m: "m w = (r, v)" by (cases "m w")
  have "stored (snd (k x v)) = stored v" for x
    by (rule keepsD [OF assms]) (rule prod.collapse [symmetric])
  with m show ?thesis by (simp add: qmark_def split: outcome.split)
qed

lemma link_step:
  fixes w :: site
  assumes ok: "db_ok (stored w)"
  shows "refines (\<lambda>a. a = Nothing) (stored w) (stored (snd (main_state_handler env msg w)))"
proof (cases "msg_from msg")
  case None
  with ok show ?thesis by (simp add: main_state_handler_def throw_def refines_same)
next
  case (Some i)
  let ?link = "trim_matches (\<lambda>c. c = CHR '' '' \<or> c = CHR 0x22)
      (case msg_text msg of None \<Rightarrow> '''' | Some t \<Rightarrow> t)"
  have rest: "keeps stored (qmark id
      (case linked of
         Some user \<Rightarrow> telegram env (SendMessage c (t1 user) [])
       | None \<Rightarrow> telegram env (SendMessage c t2 [])) (\<lambda>_.
      qmark id (telegram env (DeleteMessage c mid)) (\<lambda>_. return ())))" for linked c t1 t2 mid
    by (intro keeps_intros)
  obtain r s' where run: "users_link_user (postgres env) ?link (show_tg_user_id i) (db w) = (r, s')"
    by (cases "users_link_user (postgres env) ?link (show_tg_user_id i) (db w)")
  have "stored (snd (main_state_handler env msg w)) = committed s'"
    by (simp only: main_state_handler_def Some option.case Let_def qmark_stored [OF rest] in_db_run_db
        run snd_conv)
  moreover from run ok have "refines (\<lambda>a. a = Nothing) (stored w) (committed s')"
  proof (cases rule: link_user_cases)
    case (linked x)
    then show ?thesis
      using ok by (intro refinesI [where a = Nothing]) (simp_all add: ledger_set_tg db_ok_set_tg)
  qed (use ok in \<open>simp_all add: refines_same\<close>)
  ultimately show ?thesis by simp
qed

lemma extend_step:
  fixes w :: site
  assumes ok: "db_ok (stored w)"
  shows "refines (\<lambda>a. a = Nothing \<or> (\<exists>x span. x \<in> set (users_t (stored w)) \<and>
      u_tg_handle x = Some (show_tg_user_id (cq_from q)) \<and>
      a = Extend (u_id x) (to_timestamptz (clock env (clock_reads w) + EXPIRATION_NOTIFY_WINDOW)) span))
    (stored w) (stored (snd (handle_extend_callback env q w)))"
proof -
  obtain r w' where run: "handle_extend_callback env q w = (r, w')"
    by (cases "handle_extend_callback env q w")
  from handle_extend_stored [OF run ok] show ?thesis
  proof (elim disjE exE conjE)
    assume "stored w' = stored w"
    with ok show ?thesis unfolding run snd_conv by (intro refinesI [where a = Nothing]) simp_all
  next
    fix x js h hours
    assume x: "x \<in> set (users_t (stored w))" "u_tg_handle x = Some (show_tg_user_id (cq_from q))"
      and hours: "0 < sint (hours :: i32)"
      and js: "set js = expiring (stored w) (clock env (clock_reads w)) (u_id x)"
      and w': "stored w' = prolong_hosts js (sint hours) (stored w)"
    have "allowed (Extend (u_id x) before (sint hours * hour_us)) (ledger_of (stored w))" for before
      using x hours by (simp add: user_ids_def hour_us_def)
    with x ledger_prolong [OF js] ok show ?thesis
      unfolding run snd_conv w'
      by (intro refinesI [where a = "Extend (u_id x) (to_timestamptz (clock env (clock_reads w) +
            EXPIRATION_NOTIFY_WINDOW)) (sint hours * hour_us)"]) (auto intro: db_ok_prolong)
  qed
qed

lemma keeps_update_sent [keeps_intros]: "keeps stored (update_sent f)"
  by (auto intro!: keepsI simp: update_sent_def)

lemma keeps_notify_released: "keeps stored (notify_each_released env (tg_get_message_sender env) m)"
proof (induction m)
  case (Cons p m)
  then show ?case
    by (cases p) (auto intro!: keeps_handle tg.notify_keeps_stored)
qed (simp add: keeps_basic)

lemma keeps_warn_each:
  "keeps stored (warn_each env (tg_get_message_sender env) ord m :: ('z timer_scheme, unit, anyhow_error) io)"
proof (induction m)
  case (Cons p m)
  obtain u js where p: "p = (u, js)" by (cases p)
  have sends: "keeps stored (handle (notify env (tg_get_message_sender env) u (ExpirationSoon ids))
      (\<lambda>res. case res of
          Inl err \<Rightarrow> warn_each env (tg_get_message_sender env) ord m
        | Inr _ \<Rightarrow> qmark id (update_sent (record_sent u ids))
            (\<lambda>_. warn_each env (tg_get_message_sender env) ord m))
      :: ('z timer_scheme, unit, anyhow_error) io)" for ids
    by (intro keeps_handle keeps_sum keeps_qmark keeps_update_sent tg.notify_keeps_stored Cons.IH)
  show ?case
    unfolding p warn_each.simps
  proof (rule keeps_qmark [OF keeps_update_sent], rule keepsI, goal_cases)
    case (1 a w r w')
    then show ?case
      using keepsD [OF Cons.IH] keepsD [OF sends] by (auto simp only: Let_def split: if_splits)
  qed
qed (simp add: keeps_basic)

lemma keeps_notify_soon: "keeps stored (notify_soon_release env (tg_get_message_sender env) ord)"
proof -
  have "keeps committed (tx_get_leased_until_hosts srv t)" for srv t
    unfolding tx_get_leased_until_hosts_def by (rule keeps_query)
  then show ?thesis
    unfolding notify_soon_release_def Let_def
    by (intro keeps_intros keeps_warn_each)
qed

lemma timer_step:
  fixes w :: site
  assumes ok: "db_ok (stored w)"
  shows "refines (\<lambda>a. a = Nothing \<or> a = Expire (to_timestamptz (clock (process_env p) (clock_reads w))))
    (stored w) (stored (snd (timer_round (process_env p) (notifier_of p) ord w)))"
proof -
  let ?env = "process_env p" and ?now = "to_timestamptz (clock (process_env p) (clock_reads w))"
  have tells: "keeps stored ((case released of
         Inl err \<Rightarrow> return ()
       | Inr released_hosts \<Rightarrow>
           (case notifier_of p of
              Some gw \<Rightarrow> if released_hosts \<noteq> [] then notify_released_hosts ?env gw ord released_hosts
                         else return ()
            | None \<Rightarrow> return ())) :: (site, unit, anyhow_error) io)" for released :: "anyhow_error + _"
    unfolding notify_released_hosts_def notifier_of_def
    by (auto intro!: keeps_sum keeps_basic keeps_notify_released split: sum.split)
  have warns: "keeps stored ((case notifier_of p of
         Some gw \<Rightarrow> handle (notify_soon_release ?env gw ord) (\<lambda>_. return ())
       | None \<Rightarrow> return ()) :: (site, unit, anyhow_error) io)"
    unfolding notifier_of_def by (auto intro!: keeps_handle keeps_basic keeps_notify_soon)
  have "stored (snd (timer_round ?env (notifier_of p) ord w)) = stored (snd (release_expired ?env w))"
    unfolding timer_round_def by (rule handle_stored) (intro keeps_handle tells warns)
  moreover obtain r w' where run: "release_expired ?env w = (r, w')" by (cases "release_expired ?env w")
  have "refines (\<lambda>a. a = Nothing \<or> a = Expire ?now) (stored w) (stored w')"
    using run ok
  proof (cases rule: release_cases)
    case failed
    with ok show ?thesis by (simp add: refines_same)
  next
    case lost
    then show ?thesis using ledger_expire [OF lost(1)] by (intro refinesI [where a = "Expire ?now"]) auto
  next
    case (released ls)
    then show ?thesis
      using ledger_expire [OF released(2)] by (intro refinesI [where a = "Expire ?now"]) auto
  qed
  ultimately show ?thesis by (simp add: run)
qed

section \<open>The program refines the ledger\<close>

lemma by_user_performable:
  assumes "by_user (hosts_service (web p)) (stored w) wu a" and "acts_for p w ev wu"
  shows "performable p w ev a"
  using assms by (cases a) (auto simp: performable_def)

lemma dispatch_public_step:
  fixes w v :: site
  assumes ok: "db_ok (stored w)" and same: "stored v = stored w" and v: "v = resumed p data w"
  shows "refines (performable p w (Request data (Public e))) (stored v)
    (stored (snd (dispatch (http_of p) (web p) (Public e) su v)))"
proof -
  have quiet: ?thesis if "keeps stored (serve_public (http_of p) (web p) e :: (site, _, _) io)"
  proof -
    have "stored (snd (dispatch (http_of p) (web p) (Public e) su v)) = stored v"
      unfolding dispatch_def request.case
      by (rule keepsD [OF that]) (rule prod.collapse [symmetric])
    with ok same show ?thesis by (simp add: refines_same performable_def)
  qed
  show ?thesis
  proof (cases e)
    case (PostLogin name password)
    have "db_ok (stored v)" using ok same by simp
    from login_step [OF this, of "app_directory (web p)" name password "app_server (web p)"
        "session_login (http_of p)"]
    show ?thesis
      unfolding PostLogin dispatch_def serve_public_def
      by (auto elim!: refines_mono simp: performable_def v)
  qed (use quiet in \<open>auto simp: serve_public_def intro!: keeps_as_answer keeps_basic keeps_pages\<close>)
qed

lemma dispatch_session_step:
  fixes w v :: site
  assumes ok: "db_ok (stored w)" and same: "stored v = stored w"
    and session: "\<And>wu. su = Some wu \<Longrightarrow>
      session_accepted (stored w) (app_directory (web p)) (dir_calls (users_info w)) data wu"
  shows "refines (performable p w (Request data (Session e))) (stored v)
    (stored (snd (dispatch (http_of p) (web p) (Session e) su v)))"
proof (cases su)
  case None
  with ok same show ?thesis
    by (simp add: dispatch_def auth_middleware_def return_def refines_same performable_def)
next
  case (Some wu)
  have acts: "acts_for p w (Request data (Session e)) wu"
    using session [OF Some] by (simp add: acts_for_def)
  have "db_ok (stored v)" using ok same by simp
  from serve_session_step [OF this, of "web p" wu e]
  have "refines (by_user (hosts_service (web p)) (stored w) wu) (stored v)
      (stored (snd (serve_session (web p) e wu v)))" by (simp add: same)
  from refines_mono [OF this by_user_performable [OF _ acts]]
  show ?thesis using Some by (simp add: dispatch_def auth_middleware_def)
qed

lemma dispatch_bearer_step:
  fixes w v :: site
  assumes ok: "db_ok (stored w)" and same: "stored v = stored w" and v: "v = resumed p data w"
  shows "refines (performable p w (Request data (Bearer auth e))) (stored v)
    (stored (snd (dispatch (http_of p) (web p) (Bearer auth e) su v)))"
proof -
  obtain r w' where run: "bearer_auth_middleware (app_server (web p)) (app_directory (web p))
      (sha2 (web p)) (header_to_str (http_of p)) auth (serve_bearer (web p) e) v = (r, w')" by fastforce
  then have req: "snd (dispatch (http_of p) (web p) (Bearer auth e) su v) = w'" by (simp add: dispatch_def)
  from run show ?thesis
  proof (cases rule: bearer_middleware_cases)
    case (run h token wu v')
    then have acts: "acts_for p w (Request data (Bearer auth e)) wu" using same v by (auto simp: acts_for_def)
    have "db_ok (stored v')" using run(4) ok same by simp
    from serve_bearer_step [OF this, of "web p" wu e] run(4,5)
    have "refines (by_user (hosts_service (web p)) (stored w) wu) (stored v) (stored w')"
      by (simp add: same)
    from refines_mono [OF this by_user_performable [OF _ acts]] show ?thesis by (simp add: req)
  next
    case refused
    with ok same show ?thesis by (simp add: req refines_same performable_def)
  qed
qed

lemma serve_step:
  fixes w :: site
  assumes ok: "db_ok (stored w)"
  shows "refines (performable p w (Request data req)) (stored w)
    (stored (snd (serve (http_of p) (web p) data req w)))"
proof -
  obtain r w' where run: "serve (http_of p) (web p) data req w = (r, w')"
    by (cases "serve (http_of p) (web p) data req w")
  from run [unfolded serve_def] show ?thesis
  proof (cases rule: auth_layer_cases)
    case (run su v)
    then have "v = resumed p data w" by (simp add: resumed_def)
    have "refines (performable p w (Request data req)) (stored v)
        (stored (snd (dispatch (http_of p) (web p) req su v)))"
    proof (cases req)
      case (Public e)
      show ?thesis unfolding Public by (rule dispatch_public_step [OF ok run(2) \<open>v = _\<close>])
    next
      case (Session e)
      show ?thesis unfolding Session by (rule dispatch_session_step [OF ok run(2)]) (rule run(4))
    next
      case (Bearer a e)
      show ?thesis unfolding Bearer by (rule dispatch_bearer_step [OF ok run(2) \<open>v = _\<close>])
    qed
    then show ?thesis
      using run(2,3) \<open>serve (http_of p) (web p) data req w = (r, w')\<close> by simp
  next
    case refused
    with ok run show ?thesis by (simp add: refines_same performable_def)
  qed
qed

lemma update_step:
  assumes ok: "db_ok (stored w)" and bot: "bot_enabled p"
  shows "refines (performable p w (Update upd)) (stored w) (stored (perform p (Update upd) w))"
proof (cases upd)
  case (MessageUpdate msg)
  have "keeps stored (handle_start_command (process_env p) msg)"
    unfolding handle_start_command_def by (intro keeps_intros)
  then have "stored (snd (handle_start_command (process_env p) msg w)) = stored w"
    by (rule keepsD) (rule prod.collapse [symmetric])
  moreover have "refines (performable p w (Update upd)) (stored w)
      (stored (snd (main_state_handler (process_env p) msg w)))"
    using link_step [OF ok] by (rule refines_mono) (simp add: performable_def)
  ultimately show ?thesis
    using MessageUpdate bot ok by (simp add: perform_def bot_dispatch_def refines_same performable_def)
next
  case (CallbackUpdate q)
  have "refines (performable p w (Update upd)) (stored w)
      (stored (snd (handle_extend_callback (process_env p) q w)))"
    using extend_step [OF ok]
    by (rule refines_mono) (use CallbackUpdate in \<open>auto simp: performable_def\<close>)
  with CallbackUpdate bot show ?thesis by (simp add: perform_def bot_dispatch_def)
next
  case OtherUpdate
  with bot ok show ?thesis
    by (simp add: perform_def bot_dispatch_def return_def refines_same performable_def)
qed

lemma perform_refines:
  assumes ok: "db_ok (stored w)"
  shows "refines (performable p w ev) (stored w) (stored (perform p ev w))"
proof (cases ev)
  case (Request data req)
  with serve_step [OF ok] show ?thesis by (simp add: perform_def)
next
  case (TimerRound ord)
  from timer_step [OF ok, of p ord] TimerRound show ?thesis
    by (auto elim!: refines_mono simp: performable_def perform_def)
next
  case (Update upd)
  show ?thesis
  proof (cases "bot_enabled p")
    case True
    with Update update_step [OF ok] show ?thesis by simp
  next
    case False
    with Update ok show ?thesis by (simp add: perform_def refines_same performable_def)
  qed
qed

end
