(* ===== verification/System_Props.thy ===== *)
theory System_Props
  imports System
begin

text \<open>
  The properties of the whole program, over every sequence of its events: it refines the ledger,
  a lease changes only for one of four reasons, nobody changes anything without having proved who
  he is, and no one collects more hosts than the largest limit.
\<close>

section \<open>A concrete process\<close>

definition sample_app :: "env \<Rightarrow> AppState" where
  "sample_app env = \<lparr>surroundings = env, hosts_service = sample_service,
     api_tokens_service = sample_tokens, hash_order = (\<lambda>h. 0), sha2 = sample_sha,
     to_rfc3339 = (\<lambda>t. ''then''), app_auth_link = None, app_version = ''1'',
     app_directory = sample_directory\<rparr>"

definition sample_process :: "env \<Rightarrow> string process" where
  "sample_process env = \<lparr>web = sample_app env,
     http_of = \<lparr>header_to_str = Some, asset_digest = (\<lambda>a. a), session_login = (\<lambda>u. True)\<rparr>,
     bot_enabled = True, is_start_command = (\<lambda>m. m = ''/start'')\<rparr>"

lemma sample_process_simps [simp]:
  "web (sample_process env) = sample_app env" "surroundings (sample_app env) = env"
  "hosts_service (sample_app env) = sample_service"
  by (simp_all add: sample_process_def sample_app_def)

text \<open>Alice leases the first two hosts through the form.\<close>

definition alice_leases :: "string event" where
  "alice_leases = Request (Some (1, as_bytes ''link-a'')) (Session
     (PostHostsLease (Inr \<lparr>lf_days = Days 1, lf_hours = Hours 0, lf_hosts_ids = [HostId 1, HostId 2]\<rparr>)))"

abbreviation timer_order :: Release.hash_order where
  "timer_order \<equiv> \<lparr>user_order = (\<lambda>u. 0), host_order = (\<lambda>h. 0)\<rparr>"

abbreviation sample_start :: site where
  "sample_start \<equiv> sample_site sample_pg"

definition after_lease :: site where
  "after_lease = perform (sample_process sample_env) alice_leases sample_start"

lemma after_lease_holds: "held (stored after_lease) (UserId 1) = {HostId 1, HostId 2}"
  unfolding after_lease_def by code_simp

section \<open>Refinement\<close>

text \<open>
  C1: Every event of the program, whatever the database server, the directory and Telegram do,
  has on the database the effect of one action of the ledger: an action whose guards hold and
  that the author of the event may perform. The database stays well-formed.
\<close>

theorem system_refines_ledger:
  assumes "db_ok (stored w)"
  shows "db_ok (stored (perform p ev w)) \<and>
    (\<exists>a. performable p w ev a \<and> allowed a (ledger_of (stored w)) \<and>
       ledger_of (stored (perform p ev w)) = apply_action a (ledger_of (stored w)))"
  using perform_refines [OF assms, of p ev] by (simp add: refines_def)

theorem system_refines_ledger_witness:
  "\<exists>a. performable (sample_process sample_env) sample_start alice_leases a \<and>
     allowed a (ledger_of sample_db) \<and> a \<noteq> Nothing \<and>
     ledger_of (stored after_lease) = apply_action a (ledger_of sample_db)"
proof -
  have w: "stored sample_start = sample_db" by simp
  obtain a where a: "performable (sample_process sample_env) sample_start alice_leases a"
    "allowed a (ledger_of sample_db)" "ledger_of (stored after_lease) = apply_action a (ledger_of sample_db)"
    using system_refines_ledger [of sample_start "sample_process sample_env" alice_leases]
    unfolding after_lease_def w by auto
  have "held sample_db (UserId 1) = {}" by code_simp
  with after_lease_holds have "ledger_of (stored after_lease) \<noteq> ledger_of sample_db"
    by (metis ledger_of_simps(5) insert_not_empty)
  with a show ?thesis by (intro exI [of _ a]) auto
qed

section \<open>Leases\<close>

text \<open>
  C2: If an event changes or ends the lease of a host, then the holder gave it back in a request of
  his own, or its time was over when the timer looked, or the holder pressed the button that
  extends it shortly before its end, or another user leased the host, in a request of that user.
\<close>

theorem lease_changes_explained:
  assumes ok: "db_ok (stored w)" and held: "holder (stored w) i = Some (v, t)"
    and changed: "holder (stored (perform p ev w)) i \<noteq> Some (v, t)"
  shows "(\<exists>wu. acts_for p w ev wu \<and> app_user wu = v \<and> holder (stored (perform p ev w)) i = None) \<or>
    (\<exists>ord. ev = TimerRound ord \<and> t < to_timestamptz (clock (process_env p) (clock_reads w)) \<and>
       holder (stored (perform p ev w)) i = None) \<or>
    (\<exists>q x span. ev = Update (CallbackUpdate q) \<and> x \<in> set (users_t (stored w)) \<and> u_id x = v \<and>
       u_tg_handle x = Some (show_tg_user_id (cq_from q)) \<and> 0 < span \<and>
       t < to_timestamptz (clock (process_env p) (clock_reads w) + EXPIRATION_NOTIFY_WINDOW) \<and>
       holder (stored (perform p ev w)) i = Some (v, t + span)) \<or>
    (\<exists>wu until. acts_for p w ev wu \<and> app_user wu \<noteq> v \<and>
       holder (stored (perform p ev w)) i = Some (app_user wu, until))"
proof -
  obtain a where a: "performable p w ev a" "allowed a (ledger_of (stored w))"
    "ledger_of (stored (perform p ev w)) = apply_action a (ledger_of (stored w))"
    using perform_refines [OF ok, of p ev] by (auto simp: refines_def)
  from a(3) have after: "holder (stored (perform p ev w)) i = lg_leases (apply_action a (ledger_of (stored w))) i"
    by (metis ledger_of_simps(2))
  have "lg_leases (ledger_of (stored w)) i = Some (v, t)" using held by simp
  then show ?thesis
  proof (cases rule: lease_changed_by [of _ _ _ _ a, case_names moved given_back expired extended taken])
    case moved
    with changed after show ?case by simp
  next
    case (given_back js)
    with a(1) after show ?thesis by (auto simp: performable_def)
  next
    case (expired now)
    with a(1) after show ?thesis by (auto simp: performable_def)
  next
    case (extended before span)
    with a(1,2) after show ?thesis by (auto simp: performable_def)
  next
    case (taken u js until n)
    moreover have "i \<in> held (stored w) v" using held holder_known [OF held] by (simp add: held_def)
    ultimately have "u \<noteq> v" using a(2) by auto
    with taken a(1) after show ?thesis by (auto simp: performable_def)
  qed
qed

text \<open>The timer ends the lease of the third host, which ran out.\<close>

theorem lease_changes_explained_witness:
  "let p = sample_process later_env; ev = TimerRound timer_order in
   holder (stored (perform p ev sample_start)) (HostId 3) = None \<and>
   (500::timestamptz) < to_timestamptz (clock later_env 0)"
proof -
  let ?p = "sample_process later_env"
  have "holder (stored sample_start) (HostId 3) = Some (UserId 2, 500)"
    unfolding sample_site_simps committed_sample by code_simp
  moreover have ended: "holder (stored (perform ?p (TimerRound timer_order) sample_start)) (HostId 3) = None"
    by code_simp
  ultimately show ?thesis
    using lease_changes_explained [of sample_start "HostId 3" "UserId 2" 500 ?p "TimerRound timer_order"]
    by (simp add: Let_def acts_for_def sample_site_def)
qed

section \<open>Routes\<close>

lemma public_quiet:
  fixes w :: site
  assumes "\<And>name password. e \<noteq> PostLogin name password"
  shows "stored (snd (serve_public ht st e w)) = stored w"
proof -
  have "keeps stored (serve_public ht st e :: (site, _, _) io)"
    using assms by (cases e) (auto simp: serve_public_def intro!: keeps_as_answer keeps_basic keeps_pages)
  then show ?thesis by (rule keepsD) (rule prod.collapse [symmetric])
qed

lemma public_changes:
  fixes v :: site
  assumes ok: "db_ok (stored v)" and moved: "stored (snd (serve_public ht st e v)) \<noteq> stored v"
  obtains name password info where "e = PostLogin name password"
    "accepted (app_directory st) (dir_calls (users_info v)) name password info"
proof -
  from moved public_quiet [of e ht st v] obtain name password where e: "e = PostLogin name password" by force
  obtain r :: "(body response, unit) outcome" and v' where login: "login (app_server st)
      (app_directory st) (session_login ht) name password v = (r, v')"
    by (cases "login (app_server st) (app_directory st) (session_login ht) name password v ::
      (body response, unit) outcome \<times> site")
  with moved have "stored v' \<noteq> stored v" by (simp add: e serve_public_def)
  with login ok show thesis
    by (cases rule: login_cases) (use e that in auto)
qed

text \<open>
  C3: A web request changes the database only for a user whose session names his row, or who has
  proved a stored token, while the directory still knows him, or when it is a login that the
  directory accepted.
\<close>

theorem routes_guarded:
  assumes ok: "db_ok (stored w)" and changed: "stored (perform p (Request data req) w) \<noteq> stored w"
  shows "(\<exists>wu. acts_for p w (Request data req) wu) \<or>
    (\<exists>name password info. req = Public (PostLogin name password) \<and>
       accepted (app_directory (web p)) (dir_calls (users_info (resumed p data w))) name password info)"
proof -
  obtain r w' where run: "serve (http_of p) (web p) data req w = (r, w')"
    by (cases "serve (http_of p) (web p) data req w")
  with changed have moved: "stored w' \<noteq> stored w" by (simp add: perform_def)
  from run [unfolded serve_def] show ?thesis
  proof (cases rule: auth_layer_cases)
    case (run su v)
    then have v: "v = resumed p data w" by (simp add: resumed_def)
    show ?thesis
    proof (cases req)
      case (Public e)
      with run moved have "stored (snd (serve_public (http_of p) (web p) e v)) \<noteq> stored v"
        by (simp add: dispatch_def)
      with ok run(2) Public v show ?thesis by (metis public_changes)
    next
      case (Session e)
      with run moved show ?thesis
        by (cases su) (auto simp: dispatch_def auth_middleware_def return_def acts_for_def)
    next
      case (Bearer auth e)
      with run have "bearer_auth_middleware (app_server (web p)) (app_directory (web p))
          (sha2 (web p)) (header_to_str (http_of p)) auth (serve_bearer (web p) e) v = (r, w')"
        by (simp add: dispatch_def)
      then show ?thesis
        by (cases rule: bearer_middleware_cases) (use Bearer moved run(2) v in \<open>auto simp: acts_for_def\<close>)
    qed
  qed (use moved in simp)
qed

theorem routes_guarded_witness:
  "stored after_lease \<noteq> stored sample_start \<and>
   (\<exists>wu. acts_for (sample_process sample_env) sample_start alice_leases wu)"
proof -
  have "held sample_db (UserId 1) = {}" by code_simp
  with after_lease_holds have moved: "stored after_lease \<noteq> stored sample_start" by auto
  with routes_guarded [of sample_start "sample_process sample_env" "Some (1, as_bytes ''link-a'')"
      "Session (PostHostsLease (Inr \<lparr>lf_days = Days 1, lf_hours = Hours 0,
         lf_hosts_ids = [HostId 1, HostId 2]\<rparr>))"]
  show ?thesis by (auto simp: after_lease_def alice_leases_def)
qed

section \<open>Every sequence of events\<close>

lemma limit_of_tables:
  "lease_limits_t d' = lease_limits_t d \<Longrightarrow> limit_of svc d' groups = limit_of svc d groups"
  by (simp add: limit_of_def)

lemma reachable_ok:
  assumes "reachable p w v" and "db_ok (stored w)"
  shows "db_ok (stored v) \<and> lease_limits_t (stored v) = lease_limits_t (stored w)"
  using assms
proof (induction rule: reachable.induct)
  case (step w v ev)
  then have ok: "db_ok (stored v)" by blast
  from perform_refines [OF this, of p ev] obtain a where
    "db_ok (stored (perform p ev v))" and "ledger_of (stored (perform p ev v)) = apply_action a (ledger_of (stored v))"
    by (auto simp: refines_def)
  moreover from this(2) have "lease_limits_t (stored (perform p ev v)) = lease_limits_t (stored v)"
    by (metis apply_action_keeps(2) ledger_of_simps(4))
  ultimately show ?case using step by simp
qed simp

lemma leased_by_action:
  assumes "allowed a l" and "ledger_ok l" and "\<And>u is t n. a = Lease u is t n \<Longrightarrow> n \<le> N"
    and "card (leased_by l u) \<le> N"
  shows "card (leased_by (apply_action a l) u) \<le> N"
proof -
  have fin: "finite (leased_by l v)" for v
    by (rule finite_subset [OF _ ledger_okD(1) [OF assms(2)]])
      (use ledger_okD(2) [OF assms(2)] in \<open>auto simp: leased_by_def\<close>)
  have fewer: ?thesis if "leased_by (apply_action a l) u \<subseteq> leased_by l u"
    using card_mono [OF fin that] assms(4) by simp
  show ?thesis
  proof (cases a)
    case (Lease v js t n)
    show ?thesis
    proof (cases "u = v")
      case True
      have "card (leased_by (apply_action a l) u) \<le> card (leased_by l u \<union> js)"
        using Lease True assms(1) fin
        by (intro card_mono) (auto simp: leased_by_def split: if_splits)
      also have "\<dots> \<le> card (leased_by l u) + card js" by (rule card_Un_le)
      also have "\<dots> \<le> N" using Lease True assms(1) assms(3) [OF Lease] by simp
      finally show ?thesis .
    qed (intro fewer, use Lease in \<open>auto simp: leased_by_def split: if_splits\<close>)
  qed (intro fewer; auto simp: leased_by_def split: if_splits option.splits)+
qed

text \<open>
  C6: If no limit exceeds \<open>N\<close> and nobody holds more than \<open>N\<close> hosts, then nobody ever does, in
  whatever order requests, updates of the bot and rounds of the timer come one after another.
\<close>

theorem holdings_bounded:
  assumes run: "reachable p w v" and ok: "db_ok (stored w)"
    and limits: "\<And>gs n. limit_of (hosts_service (web p)) (stored w) gs = Some n \<Longrightarrow> n \<le> N"
    and start: "\<And>u. card (held (stored w) u) \<le> N"
  shows "card (held (stored v) u) \<le> N"
  using run ok limits start
proof (induction arbitrary: u rule: reachable.induct)
  case (step w v ev)
  note now = reachable_ok [OF step.hyps step.prems(1)]
  obtain a where a: "performable p v ev a" "allowed a (ledger_of (stored v))"
    "ledger_of (stored (perform p ev v)) = apply_action a (ledger_of (stored v))"
    using perform_refines [of v p ev] now by (auto simp: refines_def)
  have "card (leased_by (apply_action a (ledger_of (stored v))) u) \<le> N"
  proof (rule leased_by_action [OF a(2) ledger_of_ok])
    fix u' "is" t n
    assume "a = Lease u' is t n"
    with a(1) obtain gs where "limit_of (hosts_service (web p)) (stored v) gs = Some n"
      by (auto simp: performable_def)
    with now step.prems(2) show "n \<le> N" by (metis limit_of_tables)
  qed (use now step in simp_all)
  then show ?case by (metis a(3) ledger_of_simps(5))
qed simp

theorem holdings_bounded_witness:
  "card (held (stored after_lease) (UserId 1)) \<le> 2 \<and> held (stored after_lease) (UserId 1) \<noteq> {}"
proof -
  have "reachable (sample_process sample_env) sample_start after_lease"
    unfolding after_lease_def by (intro reachable.intros)
  moreover have "n \<le> 2" if "limit_of sample_service sample_db gs = Some n" for gs n
    using that by (auto simp: limit_of_def sample_db_def sample_service_def split: if_splits)
  moreover have "card (held sample_db u) \<le> 2" for u
  proof -
    have "held sample_db u \<subseteq> {HostId 3}"
      by (auto simp: held_def host_ids_def holder_def host_row_def row_holder_def sample_db_def
          sample_host_def)
    from card_mono [OF _ this] show ?thesis by simp
  qed
  ultimately show ?thesis
    using holdings_bounded [of "sample_process sample_env" sample_start after_lease 2 "UserId 1"]
      after_lease_holds by simp
qed

end
