(* ===== verification/Sessions.thy ===== *)
theory Sessions
  imports System_Props
begin

text \<open>
  The sessions of browsers over time. What the store of the session library holds for a key comes
  from a login under that key; here the visits of browsers, the updates of the bot and the rounds of
  the timer are followed from an empty store, and whoever is served in a session has logged in.
\<close>

section \<open>The store\<close>

text \<open>
  The store is the library's. \<open>sign_in\<close> is \<open>AuthSession::login\<close>, which puts a user and his hash into
  the session and gives it a new key, \<open>sign_out\<close> is \<open>AuthSession::logout\<close>, and \<open>load\<close> what the layer
  reads when a request names a key. What is relied on: only a login puts something into a session,
  under the key that it answers, and after a logout nothing is there. Sessions may also expire.
\<close>

record ('s, 'k) session_store =
  load :: "'s \<Rightarrow> 'k \<Rightarrow> session_data"
  sign_in :: "'s \<Rightarrow> 'k \<Rightarrow> i32 \<times> u8 list \<Rightarrow> 's \<times> 'k"
  sign_out :: "'s \<Rightarrow> 'k \<Rightarrow> 's"
  expire :: "'s \<Rightarrow> 's"

definition lawful_store :: "('s, 'k) session_store \<Rightarrow> bool" where
  "lawful_store S \<longleftrightarrow>
     (\<forall>s k user j data. load S (fst (sign_in S s k user)) j = Some data \<longrightarrow>
        load S s j = Some data \<or> j = snd (sign_in S s k user) \<and> data = user) \<and>
     (\<forall>s k j data. load S (sign_out S s k) j = Some data \<longrightarrow> j \<noteq> k \<and> load S s j = Some data) \<and>
     (\<forall>s j data. load S (expire S s) j = Some data \<longrightarrow> load S s j = Some data)"

section \<open>Visits\<close>

datatype ('k, 'h) happening =
    Visit 'k "'h request"
  | BotUpdate tg_update
  | Timer Release.hash_order
  | Expiry

type_synonym 's moment = "'s \<times> site"

text \<open>The user whom a request logs in, and whether it ends its session.\<close>

definition logs_in ::
  "'h process \<Rightarrow> session_data \<Rightarrow> 'h request \<Rightarrow> site \<Rightarrow> WebUser option" where
  "logs_in p data req w =
     (case req of
        Public (PostLogin name password) \<Rightarrow>
          (case resume_session (app_server (web p)) (app_directory (web p)) data w of
             (Ok _, v) \<Rightarrow>
               (case authenticate (app_server (web p)) (app_directory (web p)) name password v of
                  (Ok (Some user), _) \<Rightarrow> if session_login (http_of p) user then Some user else None
                | _ \<Rightarrow> None)
           | _ \<Rightarrow> None)
      | _ \<Rightarrow> None)"

definition logs_out :: "'h process \<Rightarrow> session_data \<Rightarrow> 'h request \<Rightarrow> site \<Rightarrow> bool" where
  "logs_out p data req w =
     (case req of
        Session (GetLogout done_) \<Rightarrow> done_ \<and>
          (case resume_session (app_server (web p)) (app_directory (web p)) data w of
             (Ok (Some _), _) \<Rightarrow> True | _ \<Rightarrow> False)
      | _ \<Rightarrow> False)"

definition happen ::
  "('s, 'k) session_store \<Rightarrow> 'h process \<Rightarrow> ('k, 'h) happening \<Rightarrow> 's moment \<Rightarrow> 's moment" where
  "happen S p h m =
     (case m of (s, w) \<Rightarrow> case h of
        Visit k req \<Rightarrow>
          (case logs_in p (load S s k) req w of
             Some user \<Rightarrow> fst (sign_in S s k (wu_id user, session_auth_hash user))
           | None \<Rightarrow> if logs_out p (load S s k) req w then sign_out S s k else s,
           perform p (Request (load S s k) req) w)
      | BotUpdate upd \<Rightarrow> (s, perform p (Update upd) w)
      | Timer ord \<Rightarrow> (s, perform p (TimerRound ord) w)
      | Expiry \<Rightarrow> (expire S s, w))"

definition history ::
  "('s, 'k) session_store \<Rightarrow> 'h process \<Rightarrow> ('k, 'h) happening list \<Rightarrow> 's moment \<Rightarrow> 's moment" where
  "history S p hs m = fold (happen S p) hs m"

text \<open>Nobody logs out with key \<open>k\<close> in the course of \<open>hs\<close>.\<close>

fun stays_in ::
  "('s, 'k) session_store \<Rightarrow> 'h process \<Rightarrow> 'k \<Rightarrow> ('k, 'h) happening list \<Rightarrow> 's moment \<Rightarrow> bool" where
  "stays_in S p k [] m \<longleftrightarrow> True"
| "stays_in S p k (h # hs) m \<longleftrightarrow>
     \<not> (\<exists>req. h = Visit k req \<and> logs_out p (load S (fst m) k) req (snd m)) \<and>
     stays_in S p k hs (happen S p h m)"

section \<open>What is in a session\<close>

lemma logs_in_login: "logs_in p data req w = Some user \<Longrightarrow> \<not> logs_out p data req w"
  by (auto simp: logs_in_def logs_out_def split: request.splits public_endpoint.splits)

lemma lawful_storeD:
  assumes "lawful_store S"
  shows "load S (fst (sign_in S s k user)) j = Some data \<Longrightarrow>
      load S s j = Some data \<or> j = snd (sign_in S s k user) \<and> data = user"
    and "load S (sign_out S s k) j = Some data \<Longrightarrow> j \<noteq> k \<and> load S s j = Some data"
    and "load S (expire S s) j = Some data \<Longrightarrow> load S s j = Some data"
  using assms unfolding lawful_store_def by blast+

lemma happen_visit:
  "fst (happen S p (Visit k req) m) =
     (case logs_in p (load S (fst m) k) req (snd m) of
        Some user \<Rightarrow> fst (sign_in S (fst m) k (wu_id user, session_auth_hash user))
      | None \<Rightarrow> if logs_out p (load S (fst m) k) req (snd m) then sign_out S (fst m) k else fst m)"
  by (cases m) (auto simp: happen_def split: option.split)

lemma happen_other:
  "fst (happen S p (BotUpdate upd) m) = fst m" "fst (happen S p (Timer ord) m) = fst m"
  "fst (happen S p Expiry m) = expire S (fst m)"
  by (cases m, simp add: happen_def)+

lemma happen_loads:
  assumes S: "lawful_store S" and now: "load S (fst (happen S p h m)) k = Some data"
  obtains (kept) "load S (fst m) k = Some data"
      "\<not> (\<exists>req. h = Visit k req \<and> logs_out p (load S (fst m) k) req (snd m))"
    | (entered) j req user where "h = Visit j req" "logs_in p (load S (fst m) j) req (snd m) = Some user"
      "k = snd (sign_in S (fst m) j (wu_id user, session_auth_hash user))"
      "data = (wu_id user, session_auth_hash user)"
proof (cases h)
  case (Visit j req)
  show thesis
  proof (cases "logs_in p (load S (fst m) j) req (snd m)")
    case (Some user)
    with now Visit have "load S (fst (sign_in S (fst m) j (wu_id user, session_auth_hash user))) k = Some data"
      by (simp add: happen_visit)
    from lawful_storeD(1) [OF S this] Some Visit logs_in_login [OF Some] show thesis
      by (auto intro: kept entered)
  next
    case None
    with now Visit have at: "load S (if logs_out p (load S (fst m) j) req (snd m)
        then sign_out S (fst m) j else fst m) k = Some data"
      by (simp only: happen_visit option.case)
    show thesis
    proof (cases "logs_out p (load S (fst m) j) req (snd m)")
      case True
      with at have "load S (sign_out S (fst m) j) k = Some data" by simp
      from lawful_storeD(2) [OF S this] Visit show thesis by (intro kept) auto
    next
      case False
      with at Visit show thesis by (intro kept) auto
    qed
  qed
next
  case Expiry
  with now have "load S (expire S (fst m)) k = Some data" by (simp add: happen_other)
  from lawful_storeD(3) [OF S this] Expiry show thesis by (intro kept) simp_all
qed (use now in \<open>simp_all add: kept happen_other\<close>)

text \<open>
  A login that is answered with a session: the form leads on to the hosts, the directory accepted the
  password, and the user is read from the row that bears the name of the accepted directory entry.
\<close>

definition login_of ::
  "'h process \<Rightarrow> session_data \<Rightarrow> 'h request \<Rightarrow> site \<Rightarrow> AdUserInfo \<Rightarrow> User \<Rightarrow> bool" where
  "login_of p data req w info u \<longleftrightarrow>
     (\<exists>name password. req = Public (PostLogin name password) \<and>
        accepted (app_directory (web p)) (dir_calls (users_info (resumed p data w))) name password info) \<and>
     fst (serve (http_of p) (web p) data req w) = Ok (Redirect ''/hosts'' []) \<and>
     u \<in> set (users_t (stored (perform p (Request data req) w))) \<and> u_dn u = ad_dn info"

lemma logs_in_served:
  assumes "logs_in p data req w = Some user"
  obtains name password v w' where "req = Public (PostLogin name password)"
    "stored v = stored w" "v = resumed p data w"
    "authenticate (app_server (web p)) (app_directory (web p)) name password v = (Ok (Some user), w')"
    "serve (http_of p) (web p) data req w = (Ok (Redirect ''/hosts'' []), w')"
proof -
  from assms obtain name password r v w' where req: "req = Public (PostLogin name password)"
    and v: "resume_session (app_server (web p)) (app_directory (web p)) data w = (Ok r, v)"
    and auth: "authenticate (app_server (web p)) (app_directory (web p)) name password v = (Ok (Some user), w')"
    and store: "session_login (http_of p) user"
    by (auto simp: logs_in_def split: request.splits public_endpoint.splits prod.splits outcome.splits
        option.splits if_splits)
  have "serve (http_of p) (web p) data req w = (Ok (Redirect ''/hosts'' []), w')"
    using v auth store
    by (simp add: req serve_def auth_layer_def dispatch_def serve_public_def login_def as_answer_def
        handle_def qmark_def return_def)
  moreover have "stored v = stored w" using keepsD [OF keeps_resume_session v] .
  ultimately show thesis using that req auth v by (auto simp: resumed_def)
qed

lemma logs_in_accepted:
  assumes "logs_in p data req w = Some user"
  obtains info u where "login_of p data req w info u" "user = WebUser_from (u, ad_groups info)"
  using assms
proof (rule logs_in_served)
  fix name password v w'
  assume req: "req = Public (PostLogin name password)" and v: "stored v = stored w" "v = resumed p data w"
    and run: "authenticate (app_server (web p)) (app_directory (web p)) name password v = (Ok (Some user), w')"
    and served: "serve (http_of p) (web p) data req w = (Ok (Redirect ''/hosts'' []), w')"
  have after: "stored (perform p (Request data req) w) = stored w'" by (simp add: perform_def served)
  from run show thesis
  proof (cases rule: authenticate_cases)
    case (known info u)
    with that [of info u] req served after v show thesis by (auto simp: login_of_def)
  next
    case (added info u)
    with that [of info u] req served after v show thesis
      by (auto simp: login_of_def insert_user_def fresh_user_def)
  qed blast
qed

text \<open>It logs in exactly when the login form leads on to the hosts.\<close>

lemma logs_in_redirect:
  "(\<exists>user. logs_in p data (Public (PostLogin name password)) w = Some user) \<longleftrightarrow>
   fst (serve (http_of p) (web p) data (Public (PostLogin name password)) w) = Ok (Redirect ''/hosts'' [])"
  by (auto simp: logs_in_def serve_def auth_layer_def dispatch_def serve_public_def login_def as_answer_def
      handle_def qmark_def return_def split: prod.splits outcome.splits option.splits if_splits)

section \<open>Who is served has logged in\<close>

lemma stays_in_snoc:
  "stays_in S p k (hs @ [h]) m \<longleftrightarrow> stays_in S p k hs m \<and>
     \<not> (\<exists>req. h = Visit k req \<and> logs_out p (load S (fst (history S p hs m)) k) req (snd (history S p hs m)))"
  by (induction hs arbitrary: m) (simp_all add: history_def)

text \<open>
  The moment at which the data of a session were put there, and that nobody logged out since.
\<close>

definition entered_at ::
  "('s, 'k) session_store \<Rightarrow> 'h process \<Rightarrow> 's moment \<Rightarrow> ('k, 'h) happening list \<Rightarrow> 'k \<Rightarrow>
   i32 \<times> u8 list \<Rightarrow> ('k, 'h) happening list \<Rightarrow> 'k \<Rightarrow> 'h request \<Rightarrow> WebUser \<Rightarrow> bool" where
  "entered_at S p m hs k data before j req user \<longleftrightarrow>
     (let now = history S p before m
      in logs_in p (load S (fst now) j) req (snd now) = Some user \<and>
         k = snd (sign_in S (fst now) j (wu_id user, session_auth_hash user)) \<and>
         data = (wu_id user, session_auth_hash user) \<and>
         (\<exists>after. hs = before @ Visit j req # after \<and>
            stays_in S p k after (happen S p (Visit j req) now)))"

lemma session_entered:
  assumes S: "lawful_store S" and empty: "\<And>j. load S (fst m) j = None"
    and now: "load S (fst (history S p hs m)) k = Some data"
  shows "\<exists>before j req user. entered_at S p m hs k data before j req user"
  using now
proof (induction hs rule: rev_induct)
  case Nil
  with empty show ?case by (simp add: history_def)
next
  case (snoc h hs)
  let ?m = "history S p hs m"
  from snoc.prems have "load S (fst (happen S p h ?m)) k = Some data" by (simp add: history_def)
  with S show ?case
  proof (cases rule: happen_loads)
    case kept
    from snoc.IH [OF kept(1)] obtain before j req user after where
      e: "entered_at S p m hs k data before j req user" and hs: "hs = before @ Visit j req # after"
      and stays: "stays_in S p k after (happen S p (Visit j req) (history S p before m))"
      by (auto simp: entered_at_def Let_def)
    have "?m = history S p after (happen S p (Visit j req) (history S p before m))"
      by (simp add: hs history_def)
    with stays kept(2) have "stays_in S p k (after @ [h]) (happen S p (Visit j req) (history S p before m))"
      by (simp add: stays_in_snoc)
    with e hs have "entered_at S p m (hs @ [h]) k data before j req user"
      by (auto simp: entered_at_def Let_def)
    then show ?thesis by blast
  next
    case (entered j req user)
    then have "entered_at S p m (hs @ [h]) k data hs j req user"
      by (auto simp: entered_at_def Let_def)
    then show ?thesis by blast
  qed
qed

lemma session_user:
  "acts_for p w (Request data (Session e)) wu \<Longrightarrow> data = Some (wu_id wu, session_auth_hash wu)"
  by (auto simp: acts_for_def session_accepted_def WebUser_from_def)

text \<open>
  C4: Starting from an empty session store, whatever requests, updates of the bot and rounds of the
  timer have come before: a request that is served for a user in a session is made with a key that a
  login was answered with. The directory accepted the password of that login, the user is the row with
  the name of the accepted directory entry, by identifier and by hash, and the session has not been
  logged out since.
\<close>

theorem session_proves_login:
  assumes S: "lawful_store S" and empty: "\<And>j. load S s0 j = None"
    and now: "history S p hs (s0, w0) = (s, w)"
    and served: "acts_for p w (Request (load S s k) (Session e)) wu"
  shows "\<exists>before j login after info u. hs = before @ Visit j login # after \<and>
    (let (s1, w1) = history S p before (s0, w0); user = WebUser_from (u, ad_groups info)
     in login_of p (load S s1 j) login w1 info u \<and>
        k = snd (sign_in S s1 j (user_raw (u_id u), session_auth_hash user)) \<and>
        wu_id wu = user_raw (u_id u) \<and> session_auth_hash wu = session_auth_hash user \<and>
        stays_in S p k after (happen S p (Visit j login) (s1, w1)))"
proof -
  from session_user [OF served] have "load S (fst (history S p hs (s0, w0))) k = Some (wu_id wu, session_auth_hash wu)"
    by (simp add: now)
  with session_entered [OF S, of "(s0, w0)" p hs k] empty
  obtain before j req user where e: "entered_at S p (s0, w0) hs k (wu_id wu, session_auth_hash wu) before j req user"
    by auto
  obtain s1 w1 where m1: "history S p before (s0, w0) = (s1, w1)" by fastforce
  with e have login: "logs_in p (load S s1 j) req w1 = Some user"
    by (simp add: entered_at_def)
  then obtain info u where login: "login_of p (load S s1 j) req w1 info u"
    and user: "user = WebUser_from (u, ad_groups info)" by (rule logs_in_accepted)
  then have "wu_id user = user_raw (u_id u)" by (simp add: WebUser_from_def)
  moreover from e m1 obtain after where "hs = before @ Visit j req # after"
    "stays_in S p k after (happen S p (Visit j req) (s1, w1))"
    by (auto simp: entered_at_def)
  ultimately show ?thesis
    using e m1 login unfolding user
    by - (rule exI [of _ before], rule exI [of _ j], rule exI [of _ req], rule exI [of _ after],
      rule exI [of _ info], rule exI [of _ u], simp add: entered_at_def)
qed

section \<open>A browser\<close>

text \<open>A store that counts the keys it has given out.\<close>

definition counting_store :: "(nat \<times> (nat \<Rightarrow> session_data), nat) session_store" where
  "counting_store =
     \<lparr>load = snd,
      sign_in = (\<lambda>(n, f) k user. ((Suc n, f(k := None, n := Some user)), n)),
      sign_out = (\<lambda>(n, f) k. (n, f(k := None))),
      expire = id\<rparr>"

lemma lawful_counting_store: "lawful_store counting_store"
  by (auto simp: lawful_store_def counting_store_def split: prod.splits if_splits)

text \<open>Carol logs in from a browser without a session and is answered the key 1.\<close>

definition carol_visits :: "(nat, string) happening list" where
  "carol_visits = [Visit 0 (Public (PostLogin ''carol'' ''secret'')), Timer timer_order]"

definition carol_at :: "(nat \<times> (nat \<Rightarrow> session_data)) moment" where
  "carol_at = history counting_store (sample_process sample_env) carol_visits ((1, \<lambda>k. None), sample_start)"

definition carol :: User where
  "carol = \<lparr>u_id = UserId 3, u_dn = ''cn=carol'', u_tg_handle = None, u_email = ''carol@x'',
     u_link = ''uuid-3''\<rparr>"

theorem session_proves_login_witness:
  "\<exists>wu. acts_for (sample_process sample_env) (snd carol_at)
       (Request (load counting_store (fst carol_at) 1) (Session GetHostsAll)) wu \<and> wu_id wu = 3 \<and>
     (\<exists>before j login after info u.
        carol_visits = before @ Visit j login # after \<and> u_id u = UserId 3 \<and>
        login_of (sample_process sample_env) None login sample_start info u)"
proof -
  obtain s w where now: "carol_at = (s, w)" by fastforce
  have "load counting_store (fst carol_at) 1 = Some (3, as_bytes ''uuid-3'')"
    "carol \<in> set (users_t (stored (snd carol_at)))"
    "case AdUserInfo_try_from sample_entry of Inl _ \<Rightarrow> False | Inr _ \<Rightarrow> True" by code_simp+
  moreover from this(3) obtain info where "AdUserInfo_try_from sample_entry = Inr info"
    by (auto split: sum.splits)
  moreover have dir: "app_directory (web (sample_process sample_env)) = sample_directory"
    by (simp add: sample_app_def)
  ultimately have served: "acts_for (sample_process sample_env) w
      (Request (load counting_store s 1) (Session GetHostsAll)) (WebUser_from (carol, ad_groups info))"
    unfolding now fst_conv snd_conv acts_for_def session_accepted_def
    by (auto simp: sample_directory_def carol_def WebUser_from_def session_auth_hash_def intro!: exI [of _ carol])
  have "load counting_store (1, \<lambda>k. None) j = None" for j by (simp add: counting_store_def)
  from session_proves_login [OF lawful_counting_store this now [unfolded carol_at_def] served]
  obtain before j login after info' u where visits: "carol_visits = before @ Visit j login # after"
    and ok: "let (s1, w1) = history counting_store (sample_process sample_env) before ((1, \<lambda>k. None), sample_start)
      in login_of (sample_process sample_env) (load counting_store s1 j) login w1 info' u"
    and u: "wu_id (WebUser_from (carol, ad_groups info)) = user_raw (u_id u)"
    unfolding Let_def case_prod_beta by blast
  from visits have "before = []" by (auto simp: carol_visits_def Cons_eq_append_conv)
  with ok have "login_of (sample_process sample_env) None login sample_start info' u"
    by (simp add: history_def counting_store_def)
  moreover from u have "u_id u = UserId 3" by (cases "u_id u") (simp add: WebUser_from_def carol_def)
  ultimately show ?thesis
    using visits served unfolding now by (auto simp: WebUser_from_def carol_def intro!: exI)
qed

end
