(* ===== verification/Scripts.thy ===== *)
theory Scripts
  imports System
begin

text \<open>
  Transactions that overlap. Requests, the bot and the timer run on separate connections of one
  pool and the code leaves the isolation level at the default of PostgreSQL, READ COMMITTED: a
  statement sees what is committed when it starts and the updates of its own transaction. An update
  locks its rows one after the other, in an order of the server's choice, and waits at a row that
  another open transaction has locked. When transactions wait for each other the server rolls one of
  them back. A call of the services is written here as the script of its statements; run alone it
  does what the call does.
\<close>

section \<open>Scripts and schedules\<close>

text \<open>
  \<open>Look\<close> is a query together with the code up to the next statement. An update names its rows, an
  insertion the unique keys of its row, and both may be refused. A script that has \<open>Ended\<close> was
  committed or rolled back. Neither waits for the key of a user it refers to, which nobody changes.
\<close>

datatype lock =
    HostRow HostId | UserRow UserId | TokenRow ApiTokenId
  | UserKey UserId | DnKey string | LinkKey string | TokenKey ApiTokenId | HashKey string

datatype script =
    Look "database \<Rightarrow> script"
  | Update "lock set" "database \<Rightarrow> database option" script
  | Commit
  | Ended bool

abbreviation rollback :: script where
  "rollback \<equiv> Ended False"

definition has_ended :: "script \<Rightarrow> bool" where
  "has_ended s = (case s of Ended _ \<Rightarrow> True | _ \<Rightarrow> False)"

lemma has_ended_simps [simp]:
  "has_ended (Ended b)" "\<not> has_ended (Look k)" "\<not> has_ended (Update rows f s)" "\<not> has_ended Commit"
  by (simp_all add: has_ended_def)

definition has_committed :: "script \<Rightarrow> bool" where
  "has_committed s = (case s of Ended b \<Rightarrow> b | _ \<Rightarrow> False)"

record session =
  todo :: script
  pending :: "database \<Rightarrow> database"
  locked :: "lock set"

definition connect :: "script \<Rightarrow> session" where
  "connect s = \<lparr>todo = s, pending = id, locked = {}\<rparr>"

definition apply_update :: "(database \<Rightarrow> database option) \<Rightarrow> database \<Rightarrow> database" where
  "apply_update f d = (case f d of None \<Rightarrow> d | Some d' \<Rightarrow> d')"

text \<open>Only rows that exist can be locked; a key can be locked before its row exists.\<close>

definition lockable :: "database \<Rightarrow> lock \<Rightarrow> bool" where
  "lockable d l =
     (case l of
        HostRow i \<Rightarrow> i \<in> host_ids d
      | UserRow u \<Rightarrow> u \<in> user_ids d
      | TokenRow k \<Rightarrow> k \<in> t_id ` set (api_tokens_t d)
      | _ \<Rightarrow> True)"

definition taken :: "database \<Rightarrow> lock set \<Rightarrow> lock set" where
  "taken d rows = Set.filter (lockable d) rows"

text \<open>
  The next statement of a session to its end; \<open>others\<close> are the locks of the other sessions. An update
  locks the rows that it has not locked yet and waits if one of them is locked by another session.
  What ends a transaction gives its locks back.
\<close>

definition statement :: "lock set \<Rightarrow> database \<Rightarrow> session \<Rightarrow> database \<times> session" where
  "statement others d x =
     (case todo x of
        Look k \<Rightarrow>
          (let s = k (pending x d) in (d, if has_ended s then connect s else x\<lparr>todo := s\<rparr>))
      | Update rows f s \<Rightarrow>
          (if taken d rows \<inter> others \<noteq> {} then (d, x)
           else case f (pending x d) of
             None \<Rightarrow> (d, connect rollback)
           | Some _ \<Rightarrow> (d, \<lparr>todo = s, pending = apply_update f \<circ> pending x,
               locked = locked x \<union> taken d rows\<rparr>))
      | Commit \<Rightarrow> (pending x d, connect (Ended True))
      | Ended _ \<Rightarrow> (d, x))"

definition locked_by_others :: "session list \<Rightarrow> nat \<Rightarrow> lock set" where
  "locked_by_others xs i = \<Union> (set (map locked (take i xs @ drop (Suc i) xs)))"

definition turn :: "database \<times> session list \<Rightarrow> nat \<Rightarrow> database \<times> session list" where
  "turn st i =
     (case st of (d, xs) \<Rightarrow>
        if i < length xs
        then (case statement (locked_by_others xs i) d (xs ! i) of (d', x) \<Rightarrow> (d', xs[i := x]))
        else st)"

text \<open>
  An update that is on its way locks a single row, so that updates of several sessions can lock their
  rows in turns and in any order.
\<close>

definition grab :: "database \<times> session list \<Rightarrow> nat \<Rightarrow> lock \<Rightarrow> database \<times> session list" where
  "grab st i l =
     (case st of (d, xs) \<Rightarrow>
        if i < length xs
        then (case todo (xs ! i) of
            Update rows f s \<Rightarrow>
              if l \<in> taken d rows \<and> l \<notin> locked_by_others xs i
              then (d, xs[i := (xs ! i)\<lparr>locked := insert l (locked (xs ! i))\<rparr>])
              else st
          | _ \<Rightarrow> st)
        else st)"

text \<open>
  Who waits for whom: an update for the sessions that have locked one of its rows. The server's
  detector, run for a session that waits, directly or through others, for itself, rolls it back.
\<close>

definition waits_for :: "database \<times> session list \<Rightarrow> nat \<times> nat \<Rightarrow> bool" where
  "waits_for st ij =
     (case st of (d, xs) \<Rightarrow> case ij of (i, j) \<Rightarrow> i \<noteq> j \<and>
        (case todo (xs ! i) of
           Update rows f s \<Rightarrow> taken d rows \<inter> locked (xs ! j) \<noteq> {}
         | _ \<Rightarrow> False))"

definition waits :: "database \<times> session list \<Rightarrow> (nat \<times> nat) set" where
  "waits st = set (filter (waits_for st) (List.product [0..<length (snd st)] [0..<length (snd st)]))"

definition detect :: "database \<times> session list \<Rightarrow> nat \<Rightarrow> database \<times> session list" where
  "detect st i = (if (i, i) \<in> (waits st)\<^sup>+ then (fst st, (snd st)[i := connect rollback]) else st)"

datatype move = Turn (mover: nat) | Grab (mover: nat) lock | Detect (mover: nat)

definition make_move :: "database \<times> session list \<Rightarrow> move \<Rightarrow> database \<times> session list" where
  "make_move st m = (case m of Turn i \<Rightarrow> turn st i | Grab i l \<Rightarrow> grab st i l | Detect i \<Rightarrow> detect st i)"

definition interleave :: "move list \<Rightarrow> database \<times> session list \<Rightarrow> database \<times> session list" where
  "interleave schedule st = foldl make_move st schedule"

text \<open>A script on a connection of its own: \<open>w\<close> is what it sees, \<open>d\<close> what is committed.\<close>

primrec run_alone :: "script \<Rightarrow> database \<Rightarrow> database \<Rightarrow> database" where
  "run_alone (Look k) w d = run_alone (k w) w d"
| "run_alone (Update rows f s) w d = (case f w of None \<Rightarrow> d | Some w' \<Rightarrow> run_alone s w' d)"
| "run_alone Commit w d = w"
| "run_alone (Ended b) w d = d"

lemma taken_simps [simp]:
  "taken d {} = {}"
  "taken d (insert l rows) = (if lockable d l then insert l (taken d rows) else taken d rows)"
  "taken d (HostRow ` ids) = HostRow ` (ids \<inter> host_ids d)"
  by (auto simp: taken_def lockable_def)

lemma lockable_simps [simp]:
  "lockable d (HostRow i) \<longleftrightarrow> i \<in> host_ids d" "lockable d (UserRow u) \<longleftrightarrow> u \<in> user_ids d"
  "lockable d (TokenRow k) \<longleftrightarrow> k \<in> t_id ` set (api_tokens_t d)"
  "lockable d (UserKey u)" "lockable d (DnKey dn)" "lockable d (LinkKey link)"
  "lockable d (TokenKey k)" "lockable d (HashKey hash)"
  by (simp_all add: lockable_def)

lemma HostRow_disjoint [simp]: "HostRow ` A \<inter> HostRow ` B = {} \<longleftrightarrow> A \<inter> B = {}"
  by auto

section \<open>The scripts of the calls\<close>

text \<open>The rows whose lease ends before \<open>t\<close>, of one user or of all.\<close>

definition rows_ending :: "UserId option \<Rightarrow> time \<Rightarrow> database \<Rightarrow> HostId list" where
  "rows_ending who t d = map h_id (filter (\<lambda>h. case row_holder h of
      None \<Rightarrow> False
    | Some (u, e) \<Rightarrow> (who = None \<or> who = Some u) \<and> e < to_timestamptz t) (hosts_t d))"

definition lease_update :: "UserId \<Rightarrow> HostId list \<Rightarrow> time \<Rightarrow> database \<Rightarrow> database option" where
  "lease_update u ids until d =
     (if \<not> timestamptz_ok (to_timestamptz until) then None
      else if (\<exists>h \<in> set (hosts_t d). h_id h \<in> set ids) \<and> u \<notin> user_ids d then None
      else Some (assign_hosts u ids (to_timestamptz until) d))"

definition lease_script ::
  "HostsService \<Rightarrow> time \<Rightarrow> UserId \<Rightarrow> string list \<Rightarrow> HostId list \<Rightarrow> duration \<Rightarrow> script" where
  "lease_script svc now u groups ids dur =
     Look (\<lambda>d.
       if held d u \<inter> set ids \<noteq> {} then rollback
       else Look (\<lambda>d'. case limit_of svc d' groups of
           None \<Rightarrow> rollback
         | Some limit \<Rightarrow>
             if card (held d u) + card (set ids) > limit then rollback
             else case date_add now dur of
                 None \<Rightarrow> rollback
               | Some until \<Rightarrow>
                   Update (HostRow ` set ids) (lease_update u ids until) (Look (\<lambda>_. Commit))))"

text \<open>\<open>pick\<close> is the row the server returns first.\<close>

definition lease_random_script ::
  "(Host list \<Rightarrow> Host option) \<Rightarrow> HostsService \<Rightarrow> time \<Rightarrow> UserId \<Rightarrow> string list \<Rightarrow> duration \<Rightarrow> GroupId \<Rightarrow>
   script" where
  "lease_random_script pick svc now u groups dur g =
     Look (\<lambda>d. case limit_of svc d groups of
         None \<Rightarrow> rollback
       | Some limit \<Rightarrow>
           Look (\<lambda>d. if card (held d u) \<ge> limit then rollback
             else Look (\<lambda>d. case pick (filter (\<lambda>h. h_user_id h = None \<and> h_group_id h = g) (hosts_t d)) of
                 None \<Rightarrow> rollback
               | Some h \<Rightarrow> (case date_add now dur of
                   None \<Rightarrow> rollback
                 | Some until \<Rightarrow>
                     Update {HostRow (h_id h)} (lease_update u [h_id h] until) (Look (\<lambda>_. Commit))))))"

definition release_script :: "time \<Rightarrow> script" where
  "release_script now =
     Look (\<lambda>d. let ids = rows_ending None now d
               in if ids = [] then rollback
                  else Update (HostRow ` set ids) (\<lambda>d. Some (clear_hosts (\<lambda>h. h_id h \<in> set ids) d)) Commit)"

definition extend_update :: "HostId list \<Rightarrow> int \<Rightarrow> database \<Rightarrow> database option" where
  "extend_update ids hours d =
     (if \<exists>h \<in> set (hosts_t d). h_id h \<in> set ids \<and>
         (case h_leased_until h of
            None \<Rightarrow> False | Some t \<Rightarrow> \<not> timestamptz_ok (t + hours * hour_us))
      then None
      else Some (prolong_hosts ids hours d))"

text \<open>\<open>pick\<close> is the server's choice among several users with the same Telegram account.\<close>

definition extend_script :: "(User list \<Rightarrow> User option) \<Rightarrow> time \<Rightarrow> string \<Rightarrow> i32 \<Rightarrow> script" where
  "extend_script pick now tg_handle hours =
     Look (\<lambda>d. case pick (filter (\<lambda>u. u_tg_handle u = Some tg_handle) (users_t d)) of
         None \<Rightarrow> rollback
       | Some user \<Rightarrow> (case date_add now EXPIRATION_NOTIFY_WINDOW of
             None \<Rightarrow> rollback
           | Some before \<Rightarrow>
               Look (\<lambda>d'. let ids = rows_ending (Some (u_id user)) before d'
                         in if ids = [] then rollback
                            else Update (HostRow ` set ids) (extend_update ids (sint hours))
                                   (Look (\<lambda>_. Commit)))))"


text \<open>
  An update with a condition locks the rows that satisfy it when the statement starts and, once it
  has them, looks at the condition again.
\<close>

definition clear_script :: "(Host \<Rightarrow> bool) \<Rightarrow> script" where
  "clear_script P =
     Look (\<lambda>d. let ids = map h_id (filter P (hosts_t d))
               in Update (HostRow ` set ids)
                    (\<lambda>d. Some (clear_hosts (\<lambda>h. h_id h \<in> set ids \<and> P h) d)) Commit)"

definition free_script :: "UserId \<Rightarrow> HostId list \<Rightarrow> script" where
  "free_script u ids = clear_script (\<lambda>h. h_id h \<in> set ids \<and> h_user_id h = Some u)"

definition free_all_script :: "UserId \<Rightarrow> script" where
  "free_all_script u = clear_script (\<lambda>h. h_user_id h = Some u)"

definition link_script :: "string \<Rightarrow> string \<Rightarrow> script" where
  "link_script link tg =
     Look (\<lambda>d. case find (\<lambda>u. u_link u = link) (users_t d) of
         None \<Rightarrow> rollback
       | Some user \<Rightarrow>
           Update {UserRow (u_id user)} (\<lambda>d. Some (set_tg_handle (u_id user) tg d))
             (Look (\<lambda>d. case find (\<lambda>u. u_id u = u_id user) (users_t d) of
                 None \<Rightarrow> rollback | Some _ \<Rightarrow> Commit)))"

text \<open>\<open>drawn\<close> is the value of the sequence, \<open>link\<close> the random text of the column's default.\<close>

definition user_insert :: "int \<Rightarrow> string \<Rightarrow> string \<Rightarrow> string \<Rightarrow> database \<Rightarrow> database option" where
  "user_insert drawn dn email link d =
     (let u = \<lparr>u_id = UserId (word_of_int drawn), u_dn = dn, u_tg_handle = None, u_email = email,
            u_link = link\<rparr>
      in if drawn > 2147483647 \<or> u_id u \<in> user_ids d \<or> u_dn u \<in> u_dn ` set (users_t d) \<or>
            u_link u \<in> u_link ` set (users_t d)
         then None else Some (d\<lparr>users_t := users_t d @ [u]\<rparr>))"

definition first_login_script :: "int \<Rightarrow> string \<Rightarrow> string \<Rightarrow> string \<Rightarrow> script" where
  "first_login_script drawn dn email link =
     Look (\<lambda>d. case find (\<lambda>u. u_dn u = dn) (users_t d) of
         Some user \<Rightarrow> rollback
       | None \<Rightarrow>
           Update {UserKey (UserId (word_of_int drawn)), DnKey dn, LinkKey link}
             (user_insert drawn dn email link) (Look (\<lambda>_. Commit)))"

definition token_insert ::
  "int \<Rightarrow> timestamptz \<Rightarrow> UserId \<Rightarrow> string option \<Rightarrow> string \<Rightarrow> database \<Rightarrow> database option" where
  "token_insert drawn created u name hash d =
     (let k = \<lparr>t_id = ApiTokenId (word_of_int drawn), t_user_id = u, t_name = name,
            t_token_hash = hash, t_created_at = created\<rparr>
      in if drawn > 2147483647 \<or> t_id k \<in> t_id ` set (api_tokens_t d) \<or>
            hash \<in> t_token_hash ` set (api_tokens_t d) \<or> u \<notin> user_ids d
         then None else Some (d\<lparr>api_tokens_t := api_tokens_t d @ [k]\<rparr>))"

definition create_token_script ::
  "ApiTokensService \<Rightarrow> int \<Rightarrow> timestamptz \<Rightarrow> UserId \<Rightarrow> string option \<Rightarrow> string \<Rightarrow> script" where
  "create_token_script svc drawn created u name hash =
     Look (\<lambda>d. if length (filter (\<lambda>t. t_user_id t = u) (api_tokens_t d)) \<ge> api_token_limit svc
       then rollback
       else Update {TokenKey (ApiTokenId (word_of_int drawn)), HashKey hash}
              (token_insert drawn created u name hash) Commit)"

definition revoke_token_script :: "ApiTokenId \<Rightarrow> UserId \<Rightarrow> script" where
  "revoke_token_script k u =
     Look (\<lambda>d. if \<exists>t \<in> set (api_tokens_t d). t_id t = k \<and> t_user_id t = u
       then Update {TokenRow k} (\<lambda>d. Some (d\<lparr>api_tokens_t :=
              filter (\<lambda>t. \<not> (t_id t = k \<and> t_user_id t = u)) (api_tokens_t d)\<rparr>)) Commit
       else Commit)"

lemma set_rows_ending:
  assumes "db_ok d"
  shows "set (rows_ending (Some u) t d) = ending d t u"
    and "set (rows_ending None t d) = (\<Union>u. ending d t u)"
proof -
  have "i \<in> ending d t u \<longleftrightarrow> (\<exists>h \<in> set (hosts_t d). h_id h = i \<and> (\<exists>e. row_holder h = Some (u, e) \<and>
      e < to_timestamptz t))" for i u
    using host_row_unique [OF db_okD(2) [OF assms]]
    by (auto simp: ending_def holder_def bind_eq_Some_conv dest!: host_row_Some)
  then show "set (rows_ending (Some u) t d) = ending d t u"
    "set (rows_ending None t d) = (\<Union>u. ending d t u)"
    by (auto simp: rows_ending_def split: option.splits; blast)+
qed

lemma updates_ok:
  "db_ok d \<Longrightarrow> lease_update u ids until d = Some d' \<Longrightarrow> db_ok d' \<and> host_ids d' = host_ids d"
  "db_ok d \<Longrightarrow> extend_update ids hours d = Some d' \<Longrightarrow> db_ok d' \<and> host_ids d' = host_ids d"
  by (auto simp: lease_update_def extend_update_def intro!: db_ok_assign db_ok_prolong split: if_splits)

section \<open>Run alone a script does what its call does\<close>

lemma lease_alone:
  assumes "fine srv" and ok: "db_ok (committed s)"
  shows "committed (snd (hosts_lease srv svc hash now u groups ids dur s)) =
    run_alone (lease_script svc now u groups ids dur) (committed s) (committed s)"
proof (cases "held (committed s) u \<inter> set ids = {}")
  case False
  with assms rows_inter(2) [OF ok, of ids srv "Suc (calls s)" u] show ?thesis
    by (simp add: hosts_lease_def qmark_def fine_simps throw_def o_def Let_def lease_script_def)
next
  case True
  have "db_ok (assign_hosts u ids (to_timestamptz until) (committed s))"
    if "lease_update u ids until (committed s) = Some d" for until d
    using that ok by (auto simp: lease_update_def intro!: db_ok_assign split: if_splits)
  with assms True rows_inter(2) [OF ok, of ids srv "Suc (calls s)" u]
    rows_inter(3) [OF ok, of srv "Suc (calls s)" u] show ?thesis
    by (auto simp: hosts_lease_def qmark_def fine_simps io_defs o_def Let_def lease_script_def
        lease_update_def length_remdups_card_conv tx_lease_hosts_def split: option.split)
qed

lemma release_alone:
  fixes w :: "'z timer_scheme"
  assumes "fine (postgres env)" and ok: "db_ok (stored w)"
  shows "stored (snd (release_expired env w)) =
    run_alone (release_script (clock env (clock_reads w))) (stored w) (stored w)"
proof -
  let ?srv = "postgres env" and ?now = "clock env (clock_reads w)" and ?d = "stored w"
  obtain w0 where w0: "in_db (begin_tx ?srv) w = (Ok (), w0)" "working (db w0) = ?d" "stored w0 = ?d"
      "clock_reads w0 = clock_reads w"
    using assms(1) by (simp add: in_db_def begin_tx_fine)
  obtain w1 where w1: "(utc_now env :: ('z timer_ext, time) call) w0 = (Ok ?now, w1)" "working (db w1) = ?d" "stored w1 = ?d"
    using w0 by (simp add: utc_now_def)
  have "db_ok (working (db w1))" using ok w1(2) by simp
  with leased_until_fine [OF assms(1)] obtain ls where
    q: "tx_get_leased_until_hosts ?srv ?now (db w1) = (Ok ls, (db w1)\<lparr>calls := Suc (calls (db w1))\<rparr>)" by blast
  from leased_until_Ok(3) [OF q] ok w1(2) set_rows_ending(2) [OF ok, of ?now]
  have ids: "set (map lh_id ls) = set (rows_ending None ?now ?d)" by simp
  obtain w2 where w2: "in_db (tx_get_leased_until_hosts ?srv ?now) w1 = (Ok ls, w2)"
      "working (db w2) = ?d" "stored w2 = ?d"
    using w1 q by (simp add: in_db_def)
  show ?thesis
  proof (cases "ls = []")
    case True
    with ids have "rows_ending None ?now ?d = []" by simp
    with True w0 w1 w2 show ?thesis
      by (simp add: release_expired_def release_script_def qmark_def update_sent_def return_def)
  next
    case False
    then have "rows_ending None ?now ?d \<noteq> []" using ids by auto
    obtain w3 where w3: "in_db (tx_free_hosts ?srv (map lh_id ls)) w2 = (Ok (), w3)"
        "working (db w3) = clear_hosts (\<lambda>h. h_id h \<in> set (map lh_id ls)) ?d"
      using w2 assms(1) by (simp add: in_db_def tx_free_hosts_def execute_fine)
    obtain w4 where "in_db (commit_tx ?srv) w3 = (Ok (), w4)"
        "stored w4 = clear_hosts (\<lambda>h. h_id h \<in> set (map lh_id ls)) ?d"
      using w3 assms(1) by (simp add: in_db_def commit_tx_fine)
    with False \<open>rows_ending None ?now ?d \<noteq> []\<close> w0 w1 w2 w3 show ?thesis
      unfolding ids
      by (simp add: release_expired_def release_script_def qmark_def update_sent_def return_def Let_def)
  qed
qed

lemma extend_update_set: "set ids = set js \<Longrightarrow> extend_update ids hours d = extend_update js hours d"
  by (simp add: extend_update_def prolong_hosts_def)

lemma extension_part:
  fixes w :: "'z world_scheme"
  assumes "fine (postgres env)" and w: "working (db w) = d" "stored w = d"
    and ids: "set ids = set js"
  shows "stored (snd (qmark f (in_db (tx_extend_hosts_lease (postgres env) ids hours)) (\<lambda>_.
      qmark g (in_db (tx_get_hosts (postgres env) ids)) (\<lambda>updated_hosts.
      qmark k (in_db (commit_tx (postgres env))) (\<lambda>_.
      qmark id (extended_lines env 0 updated_hosts) (\<lambda>lines. return (text lines))))) w)) =
    run_alone (Update (HostRow ` set js) (extend_update js (sint hours)) (Look (\<lambda>_. Commit))) d d"
proof (cases "extend_update js (sint hours) d")
  case None
  then have "extend_update ids (sint hours) d = None" using extend_update_set [OF ids] by simp
  then obtain e w1 where "in_db (tx_extend_hosts_lease (postgres env) ids hours) w = (Err e, w1)" "stored w1 = d"
    using w assms(1)
    by (auto simp: in_db_def tx_extend_hosts_lease_def execute_fine extend_update_def split: if_splits)
  with None show ?thesis by (simp add: qmark_def)
next
  case (Some d')
  then have "extend_update ids (sint hours) d = Some d'" using extend_update_set [OF ids] by simp
  then obtain w1 where w1: "in_db (tx_extend_hosts_lease (postgres env) ids hours) w = (Ok (), w1)"
      "working (db w1) = d'"
    using w assms(1)
    by (auto simp: in_db_def tx_extend_hosts_lease_def execute_fine extend_update_def split: if_splits)
  obtain hs w2 where w2: "in_db (tx_get_hosts (postgres env) ids) w1 = (Ok hs, w2)" "working (db w2) = d'"
    using assms(1) w1 by (simp add: in_db_def tx_get_hosts_def query_fine)
  obtain w3 where w3: "in_db (commit_tx (postgres env)) w2 = (Ok (), w3)" "stored w3 = d'"
    using assms(1) w2 by (simp add: in_db_def commit_tx_fine)
  obtain lines w4 where "extended_lines env 0 hs w3 = (Ok lines, w4)" "db w4 = db w3"
    using extended_lines_Ok by blast
  with Some w1 w2 w3 show ?thesis by (simp add: qmark_def return_def)
qed

lemma extend_found_alone:
  fixes w :: "'z world_scheme"
  assumes "fine (postgres env)" and w: "working (db w) = d" "stored w = d"
    and ids: "set (map lh_id ls) = set js"
  shows "stored (snd (extend_found env hours ls w)) = run_alone (if js = [] then rollback
    else Update (HostRow ` set js) (extend_update js (sint hours)) (Look (\<lambda>_. Commit))) d d"
proof (cases "ls = []")
  case True
  with ids w show ?thesis by (simp add: extend_found_def return_def)
next
  case False
  with ids have "js \<noteq> []" by auto
  with False show ?thesis
    by (simp only: extend_found_def Let_def if_False extension_part [OF assms(1) w ids])
qed

lemma extend_alone:
  fixes w :: "'z world_scheme"
  assumes "fine (postgres env)" and ok: "db_ok (stored w)"
  shows "stored (snd (extend_user_hosts env tg hours w)) =
    run_alone (extend_script (\<lambda>us. first_row (scan_users (postgres env) (Suc (calls (db w))) us))
      (clock env (clock_reads w)) tg hours) (stored w) (stored w)"
proof -
  let ?srv = "postgres env" and ?now = "clock env (clock_reads w)" and ?d = "stored w"
  define user where "user = first_row (scan_users ?srv (Suc (calls (db w)))
    (filter (\<lambda>u. u_tg_handle u = Some tg) (users_t ?d)))"
  obtain w0 where w0: "in_db (begin_tx ?srv) w = (Ok (), w0)" "working (db w0) = ?d" "stored w0 = ?d"
      "clock_reads w0 = clock_reads w" "calls (db w0) = Suc (calls (db w))"
    using assms(1) by (simp add: in_db_def begin_tx_fine)
  obtain w1 where w1: "in_db (tx_get_user_by_tg_handle ?srv tg) w0 = (Ok user, w1)"
      "working (db w1) = ?d" "stored w1 = ?d" "clock_reads w1 = clock_reads w"
    using assms(1) w0 by (simp add: in_db_def tx_get_user_by_tg_handle_def query_fine user_def)
  obtain w2 where w2: "(utc_now env :: ('z, time) call) w1 = (Ok ?now, w2)" "working (db w2) = ?d"
      "stored w2 = ?d"
    using w1 by (simp add: utc_now_def)
  note eval = extend_user_hosts_found extend_script_def qmark_def
  show ?thesis
  proof (cases user)
    case None
    with w0 w1 user_def show ?thesis by (simp add: eval throw_def)
  next
    case user: (Some x)
    show ?thesis
    proof (cases "date_add ?now EXPIRATION_NOTIFY_WINDOW")
      case None
      with w0 w1 [unfolded user] w2 user [unfolded user_def] show ?thesis
        by (simp add: eval unwrap_def panic_def)
    next
      case (Some before)
      have "db_ok (working (db w2))" using ok w2(2) by simp
      from expiring_for_user_fine [OF assms(1) this] obtain ls where
        q: "tx_get_expiring_hosts_for_user ?srv (u_id x) before (db w2) =
          (Ok ls, (db w2)\<lparr>calls := Suc (calls (db w2))\<rparr>)" by blast
      then obtain w3 where w3: "in_db (tx_get_expiring_hosts_for_user ?srv (u_id x) before) w2 = (Ok ls, w3)"
          "working (db w3) = ?d" "stored w3 = ?d"
        using w2 by (simp add: in_db_def)
      from expiring_for_user_Ok(2) [OF q] w2(2) ok set_rows_ending(1) [OF ok]
      have ids: "set (map lh_id ls) = set (rows_ending (Some (u_id x)) before ?d)" by simp
      have "extend_user_hosts env tg hours w = extend_found env hours ls w3"
        by (simp only: eval w0(1) w1(1) w2(1) w3(1) user Some unwrap_def return_def option.case
            outcome.case prod.case id_apply)
      with extend_found_alone [OF assms(1) w3(2,3) ids] show ?thesis
        using user Some user_def by (simp add: extend_script_def Let_def)
    qed
  qed
qed

text \<open>Of a random lease the part that writes, once a host has been found.\<close>

lemma assigned_row_read:
  assumes "fine srv" and ok: "db_ok d" and h: "h \<in> set (hosts_t d)"
    and upd: "lease_update u [h_id h] until d = Some d'" and "working t = d'"
  shows "\<exists>l. tx_get_leased_host srv (h_id h) t = (Ok l, t\<lparr>calls := Suc (calls t)\<rparr>)"
proof -
  have d': "d' = assign_hosts u [h_id h] (to_timestamptz until) d"
    using upd by (auto simp: lease_update_def split: if_splits)
  let ?h' = "h\<lparr>h_user_id := Some u, h_leased_until := Some (to_timestamptz until)\<rparr>"
  have "db_ok d'" using updates_ok(1) [OF ok upd] by simp
  moreover have "?h' \<in> set (hosts_t d')" using h by (auto simp: d' assign_hosts_def image_iff)
  ultimately show ?thesis
    using get_leased_host_fine [of srv t ?h' u] assms(1,5) by simp
qed

lemma random_assign_alone:
  assumes "fine srv" and ok: "db_ok d" and h: "h \<in> set (hosts_t d)" and s: "working s = d" "committed s = d"
  shows "committed (snd (qmark f1 (tx_lease_hosts srv u [h_id h] until) (\<lambda>_.
      qmark f2 (tx_get_leased_host srv (h_id h)) (\<lambda>l. qmark f3 (commit_tx srv) (\<lambda>_. return l))) s)) =
    run_alone (Update {HostRow (h_id h)} (lease_update u [h_id h] until) (Look (\<lambda>_. Commit))) d d"
proof (cases "lease_update u [h_id h] until d")
  case None
  with assms show ?thesis
    by (auto simp: qmark_def tx_lease_hosts_def lease_update_def execute_fine split: if_splits)
next
  case (Some d')
  then have run: "tx_lease_hosts srv u [h_id h] until s = (Ok (), s\<lparr>calls := Suc (calls s), working := d'\<rparr>)"
    using assms by (auto simp: tx_lease_hosts_def lease_update_def execute_fine split: if_splits)
  obtain l where "tx_get_leased_host srv (h_id h) (s\<lparr>calls := Suc (calls s), working := d'\<rparr>) =
      (Ok l, s\<lparr>calls := Suc (Suc (calls s)), working := d'\<rparr>)"
    using assigned_row_read [OF assms(1) ok h Some, of "s\<lparr>calls := Suc (calls s), working := d'\<rparr>"] by auto
  with run Some assms(1) show ?thesis by (simp add: qmark_def commit_tx_fine return_def)
qed

lemma random_alone:
  assumes "fine srv" and ok: "db_ok (committed s)"
  shows "committed (snd (hosts_lease_random srv svc now u groups dur g s)) =
    run_alone (lease_random_script (\<lambda>hs. first_row (scan_hosts srv (Suc (Suc (Suc (calls s)))) hs))
      svc now u groups dur g) (committed s) (committed s)"
proof -
  let ?d = "committed s"
  let ?free = "filter (\<lambda>h. h_user_id h = None \<and> h_group_id h = g) (hosts_t ?d)"
  let ?scan = "scan_hosts srv (Suc (Suc (Suc (calls s)))) ?free"
  note eval = hosts_lease_random_def qmark_def fine_simps io_defs lease_random_script_def
    tx_get_first_available_group_host_def rows_of_ids(3) [OF ok]
  show ?thesis
  proof (cases "limit_of svc ?d groups")
    case None
    with assms show ?thesis by (simp add: eval)
  next
    case limit: (Some n)
    show ?thesis
    proof (cases "card (held ?d u) < n")
      case False
      with assms limit show ?thesis by (simp add: eval)
    next
      case below: True
      show ?thesis
      proof (cases "first_row ?scan")
        case None
        with assms limit below show ?thesis by (simp add: eval del: first_row_None)
      next
        case found: (Some h)
        from first_row_Some [OF found] have h: "h \<in> set (hosts_t ?d)" by auto
        show ?thesis
        proof (cases "date_add now dur")
          case None
          with assms limit below found show ?thesis by (simp add: eval)
        next
          case (Some until)
          let ?s = "s\<lparr>working := ?d, calls := Suc (Suc (Suc (Suc (calls s))))\<rparr>"
          note random_assign_alone [OF assms(1) ok h, of ?s DatabaseError u until DatabaseError DatabaseError]
          with assms limit below found Some show ?thesis
            by (simp add: eval)
        qed
      qed
    qed
  qed
qed

section \<open>The other calls that write\<close>

lemma clear_snapshot:
  "clear_hosts (\<lambda>h. h_id h \<in> set (map h_id (filter P (hosts_t d))) \<and> P h) d = clear_hosts P d"
  by (auto simp: clear_hosts_def intro!: arg_cong [where f = "\<lambda>hs. d\<lparr>hosts_t := hs\<rparr>"] map_cong)

lemma clear_alone: "run_alone (clear_script P) d d = clear_hosts P d"
  using clear_snapshot [of P d] by (simp add: clear_script_def Let_def)

lemma free_alone:
  assumes "fine srv"
  shows "committed (snd (hosts_free srv u ids s)) =
      run_alone (free_script u ids) (committed s) (committed s)"
    and "committed (snd (hosts_free_all srv u s)) =
      run_alone (free_all_script u) (committed s) (committed s)"
  using assms
  by (simp_all add: hosts_free_def hosts_free_all_def free_script_def free_all_script_def clear_alone
      qmark_def fine_simps tx_free_hosts_for_user_def tx_free_all_def return_def)

lemma link_alone:
  assumes "fine srv"
  shows "committed (snd (users_link_user srv link tg s)) =
    run_alone (link_script link tg) (committed s) (committed s)"
  using assms
  by (simp add: users_link_user_def link_script_def qmark_def fine_simps tx_get_user_by_link_def
      tx_set_user_tg_handle_def tx_get_user_by_id_def unwrap_def return_def panic_def split: option.split)

lemma stmt_fine: "fine srv \<Longrightarrow> stmt srv f s = f (calls s) (s\<lparr>calls := Suc (calls s)\<rparr>)"
  by (simp add: stmt_def fineD)

lemma create_token_alone:
  assumes "fine srv"
  shows "committed (snd (tokens_create srv svc sha256 bytes u name s)) =
    run_alone (create_token_script svc (tokens_seq s) (server_now srv (Suc (Suc (calls s)))) u
      (token_name name) (hash_token sha256 (generate_plaintext bytes))) (committed s) (committed s)"
  using assms
  by (simp add: tokens_create_def create_token_script_def qmark_def fine_simps stmt_fine
      tx_list_api_tokens_for_user_def tx_create_api_token_def token_insert_def Let_def throw_def return_def)

lemma revoke_token_alone:
  assumes "fine srv"
  shows "committed (snd (tokens_revoke srv k u s)) =
    run_alone (revoke_token_script k u) (committed s) (committed s)"
proof -
  have none: "d\<lparr>api_tokens_t := filter (\<lambda>t. t_id t = k \<longrightarrow> t_user_id t \<noteq> u) (api_tokens_t d)\<rparr> = d"
    if "\<forall>t \<in> set (api_tokens_t d). t_id t = k \<longrightarrow> t_user_id t \<noteq> u" for d
    using that by (simp add: filter_id_conv)
  show ?thesis
    using assms none [of "committed s"]
    by (auto simp: tokens_revoke_def revoke_token_script_def qmark_def fine_simps stmt_fine
      tx_delete_api_token_for_user_def Let_def throw_def return_def)
qed

text \<open>Of a login the part that writes: the account of a user who logs in for the first time.\<close>

lemma first_login_alone:
  fixes w :: "'z site_scheme"
  assumes "fine srv" and "find (\<lambda>u. u_dn u = ad_dn u_info) (users_t (stored w)) = None"
  shows "stored (snd (create_user srv u_info w)) =
    run_alone (first_login_script (users_seq (db w)) (ad_dn u_info) (ad_email u_info)
      (gen_uuid srv (Suc (calls (db w))))) (stored w) (stored w)"
  using assms
  by (simp add: create_user_def first_login_script_def qmark_def in_db_def fine_simps stmt_fine
      tx_add_user_def tx_get_user_by_dn_def user_insert_def Let_def unwrap_def return_def panic_def
      split: option.split)

end
