(* ===== verification/Interleaving.thy ===== *)
theory Interleaving
  imports Scripts
begin

text \<open>
  Transactions that overlap: what holds in every schedule of the scripts.
\<close>

section \<open>What holds in every interleaving\<close>

text \<open>A script whose updates keep the database well-formed.\<close>

primrec safe_script :: "script \<Rightarrow> bool" where
  "safe_script (Look k) \<longleftrightarrow> (\<forall>d. safe_script (k d))"
| "safe_script (Update rows f s) \<longleftrightarrow>
     (\<forall>d d'. db_ok d \<longrightarrow> f d = Some d' \<longrightarrow> db_ok d' \<and> host_ids d' = host_ids d) \<and> safe_script s"
| "safe_script Commit \<longleftrightarrow> True"
| "safe_script (Ended b) \<longleftrightarrow> True"

inductive call_script :: "script \<Rightarrow> bool" where
  lease: "call_script (lease_script svc now u groups ids dur)"
| lease_random: "call_script (lease_random_script pick svc now u groups dur g)"
| release: "call_script (release_script now)"
| extend: "call_script (extend_script pick now tg hours)"
| free: "call_script (free_script u ids)"
| free_all: "call_script (free_all_script u)"
| link: "call_script (link_script link tg)"
| first_login: "call_script (first_login_script drawn dn email link)"
| create_token: "call_script (create_token_script tsvc drawn created u name hash)"
| revoke_token: "call_script (revoke_token_script k u)"

lemma host_ids_other [simp]:
  "host_ids (set_tg_handle u tg d) = host_ids d" "host_ids (d\<lparr>users_t := us\<rparr>) = host_ids d"
  "host_ids (d\<lparr>api_tokens_t := ts\<rparr>) = host_ids d"
  by (simp_all add: host_ids_def set_tg_handle_def)

lemma inserts_ok:
  "db_ok d \<Longrightarrow> user_insert drawn dn email link d = Some d' \<Longrightarrow> db_ok d' \<and> host_ids d' = host_ids d"
  "db_ok d \<Longrightarrow> token_insert drawn created u name hash d = Some d' \<Longrightarrow> db_ok d' \<and> host_ids d' = host_ids d"
  by (auto simp: user_insert_def token_insert_def Let_def intro!: db_ok_add_user db_ok_add_token
      split: if_splits)

lemma clear_script_safe: "safe_script (clear_script P)"
  by (simp add: clear_script_def Let_def db_ok_clear)

lemma call_script_safe: "call_script s \<Longrightarrow> safe_script s"
proof (induction rule: call_script.induct)
  case (lease svc now u groups ids dur)
  show ?case using updates_ok(1) by (simp add: lease_script_def split: option.split)
next
  case (lease_random pick svc now u groups dur g)
  show ?case using updates_ok(1) by (simp add: lease_random_script_def split: option.split)
next
  case (release now)
  show ?case by (simp add: release_script_def Let_def db_ok_clear)
next
  case (extend pick now tg hours)
  show ?case using updates_ok(2) by (simp add: extend_script_def Let_def split: option.split)
next
  case (link link tg)
  show ?case by (simp add: link_script_def db_ok_set_tg split: option.split)
next
  case (first_login drawn dn email link)
  show ?case using inserts_ok(1) by (simp add: first_login_script_def split: option.split)
next
  case (create_token tsvc drawn created u name hash)
  show ?case using inserts_ok(2) by (simp add: create_token_script_def)
next
  case (revoke_token k u)
  show ?case by (simp add: revoke_token_script_def db_ok_drop_tokens)
qed (simp_all add: free_script_def free_all_script_def clear_script_safe)

definition session_ok :: "session \<Rightarrow> bool" where
  "session_ok x \<longleftrightarrow> safe_script (todo x) \<and>
     (\<forall>d. db_ok d \<longrightarrow> db_ok (pending x d) \<and> host_ids (pending x d) = host_ids d)"

definition locks_exclusive :: "session list \<Rightarrow> bool" where
  "locks_exclusive xs \<longleftrightarrow> (\<forall>i j. i < length xs \<longrightarrow> j < length xs \<longrightarrow> i \<noteq> j \<longrightarrow>
     locked (xs ! i) \<inter> locked (xs ! j) = {})"

lemma statement_ok:
  assumes "statement others d x = (d', x')" and "db_ok d" and "session_ok x"
  shows "db_ok d' \<and> host_ids d' = host_ids d \<and> session_ok x' \<and>
    locked x' \<inter> others \<subseteq> locked x \<inter> others"
proof (cases "todo x")
  case (Look k)
  with assms show ?thesis
    by (auto simp: statement_def session_ok_def connect_def Let_def split: if_splits)
next
  case (Update rows f s)
  have "db_ok (apply_update f e) \<and> host_ids (apply_update f e) = host_ids e" if "db_ok e" for e
    using that assms(3) Update by (auto simp: session_ok_def apply_update_def split: option.split)
  moreover have "safe_script s" and old: "db_ok e \<Longrightarrow> db_ok (pending x e) \<and> host_ids (pending x e) = host_ids e" for e
    using assms(3) Update by (simp_all add: session_ok_def)
  ultimately have "session_ok \<lparr>todo = s, pending = apply_update f \<circ> pending x, locked = l\<rparr>" for l
    by (simp add: session_ok_def)
  moreover have "session_ok (connect rollback)" by (simp add: session_ok_def connect_def)
  ultimately show ?thesis
    using assms Update
    by (simp add: statement_def split: if_splits option.splits) (auto simp: connect_def)
next
  case Commit
  with assms show ?thesis by (auto simp: statement_def session_ok_def connect_def)
next
  case (Ended b)
  with assms show ?thesis by (auto simp: statement_def)
qed

definition overlap_ok :: "HostId set \<Rightarrow> database \<times> session list \<Rightarrow> bool" where
  "overlap_ok hosts st \<longleftrightarrow> db_ok (fst st) \<and> host_ids (fst st) = hosts \<and>
     (\<forall>x \<in> set (snd st). session_ok x) \<and> locks_exclusive (snd st)"

lemma locked_elsewhere:
  assumes "j < length xs" and "j \<noteq> i"
  shows "locked (xs ! j) \<subseteq> locked_by_others xs i"
proof (cases "j < i")
  case True
  with assms have "take i xs ! j = xs ! j" "j < length (take i xs)" by simp_all
  then have "xs ! j \<in> set (take i xs)" by (metis nth_mem)
  then show ?thesis by (auto simp: locked_by_others_def)
next
  case False
  with assms have "drop (Suc i) xs ! (j - Suc i) = xs ! j" "j - Suc i < length (drop (Suc i) xs)" by simp_all
  then have "xs ! j \<in> set (drop (Suc i) xs)" by (metis nth_mem)
  then show ?thesis by (auto simp: locked_by_others_def)
qed

lemma turn_cases:
  assumes "i < length (snd st)"
  obtains d' x where "statement (locked_by_others (snd st) i) (fst st) (snd st ! i) = (d', x)"
    "turn st i = (d', (snd st)[i := x])"
proof -
  obtain d' x where "statement (locked_by_others (snd st) i) (fst st) (snd st ! i) = (d', x)" by fastforce
  with assms that show ?thesis by (cases st) (simp add: turn_def)
qed

lemma turn_outside: "\<not> i < length (snd st) \<Longrightarrow> turn st i = st"
  by (cases st) (simp add: turn_def)

lemma turn_length [simp]: "length (snd (turn st i)) = length (snd st)"
  by (cases "i < length (snd st)") (auto elim: turn_cases simp: turn_outside)

lemma turn_others: "j \<noteq> i \<Longrightarrow> snd (turn st i) ! j = snd st ! j"
  by (cases "i < length (snd st)") (auto elim: turn_cases simp: turn_outside)

text \<open>What a row lock and the detector do.\<close>

lemma grab_cases:
  obtains (same) "grab st i l = st"
    | (grabbed) rows f s where "i < length (snd st)" "todo (snd st ! i) = Update rows f s"
      "l \<in> taken (fst st) rows" "l \<notin> locked (snd st ! i)" "l \<notin> locked_by_others (snd st) i"
      "grab st i l = (fst st, (snd st)[i := (snd st ! i)\<lparr>locked := insert l (locked (snd st ! i))\<rparr>])"
proof -
  obtain d xs where st: "st = (d, xs)" by fastforce
  show thesis
  proof (cases "i < length xs \<and> l \<notin> locked (xs ! i) \<and> l \<notin> locked_by_others xs i")
    case False
    have "(xs ! i)\<lparr>locked := insert l (locked (xs ! i))\<rparr> = xs ! i" if "l \<in> locked (xs ! i)"
      using that by (simp add: insert_absorb)
    with False have "grab st i l = st" by (auto simp: st grab_def split: script.split)
    then show thesis by (rule same)
  next
    case free: True
    show thesis
    proof (cases "\<exists>rows f s. todo (xs ! i) = Update rows f s \<and> l \<in> taken d rows")
      case True
      then obtain rows f s where "todo (xs ! i) = Update rows f s" "l \<in> taken d rows" by blast
      with free grabbed show thesis by (simp add: st grab_def)
    next
      case False
      with free have "grab st i l = st" by (auto simp: st grab_def split: script.split)
      then show thesis by (rule same)
    qed
  qed
qed

lemma waits_iff:
  "(i, j) \<in> waits st \<longleftrightarrow> i < length (snd st) \<and> j < length (snd st) \<and> i \<noteq> j \<and>
     (\<exists>rows f s. todo (snd st ! i) = Update rows f s \<and> taken (fst st) rows \<inter> locked (snd st ! j) \<noteq> {})"
  by (cases st) (auto simp: waits_def waits_for_def split: script.splits)

lemma detect_cases:
  obtains (same) "detect st i = st"
    | (victim) rows f s where "i < length (snd st)" "todo (snd st ! i) = Update rows f s"
      "detect st i = (fst st, (snd st)[i := connect rollback])"
proof (cases "(i, i) \<in> (waits st)\<^sup>+")
  case True
  then obtain j where "(i, j) \<in> waits st" by (meson tranclD)
  with True that show thesis by (auto simp: waits_iff detect_def)
next
  case False
  with that show thesis by (simp add: detect_def)
qed

lemma make_move_simps [simp]:
  "make_move st (Turn i) = turn st i" "make_move st (Grab i l) = grab st i l" "make_move st (Detect i) = detect st i"
  by (simp_all add: make_move_def)

text \<open>
  A move changes the session that makes it, by a statement, a lock or a roll-back, and only a
  statement changes the tables.
\<close>

lemma make_move_cases:
  obtains (same) "make_move st m = st"
    | (statement) d' x where "m = Turn (mover m)" "mover m < length (snd st)"
      "statement (locked_by_others (snd st) (mover m)) (fst st) (snd st ! mover m) = (d', x)"
      "make_move st m = (d', (snd st)[mover m := x])"
    | (lock) rows f s l where "mover m < length (snd st)" "todo (snd st ! mover m) = Update rows f s"
      "l \<in> taken (fst st) rows" "l \<notin> locked (snd st ! mover m)" "l \<notin> locked_by_others (snd st) (mover m)"
      "make_move st m = (fst st, (snd st)[mover m := (snd st ! mover m)\<lparr>locked :=
         insert l (locked (snd st ! mover m))\<rparr>])"
    | (victim) rows f s where "mover m < length (snd st)" "todo (snd st ! mover m) = Update rows f s"
      "make_move st m = (fst st, (snd st)[mover m := connect rollback])"
proof (cases m)
  case (Turn i)
  show thesis
  proof (cases "i < length (snd st)")
    case True
    then obtain d' x where "statement (locked_by_others (snd st) i) (fst st) (snd st ! i) = (d', x)"
      "turn st i = (d', (snd st)[i := x])" by (rule turn_cases)
    with Turn True statement show thesis by simp
  qed (use Turn same in \<open>simp add: turn_outside\<close>)
next
  case (Grab i l)
  show thesis by (cases rule: grab_cases [of st i l]) (use Grab same lock in auto)
next
  case (Detect i)
  show thesis by (cases rule: detect_cases [of st i]) (use Detect same victim in auto)
qed

lemma make_move_length [simp]: "length (snd (make_move st m)) = length (snd st)"
  by (cases rule: make_move_cases [of st m]) simp_all

lemma make_move_others: "j \<noteq> mover m \<Longrightarrow> snd (make_move st m) ! j = snd st ! j"
  by (cases rule: make_move_cases [of st m]) simp_all

lemma interleave_simps [simp]:
  "interleave [] st = st" "interleave (m # ms) st = interleave ms (make_move st m)"
  "interleave (ms @ ns) st = interleave ns (interleave ms st)"
  by (simp_all add: interleave_def)

lemma interleave_length: "length (snd (interleave ms st)) = length (snd st)"
  by (induction ms arbitrary: st) simp_all

lemma interleave_induct:
  assumes "P st" and "\<And>st m. P st \<Longrightarrow> P (make_move st m)"
  shows "P (interleave ms st)"
  using assms by (induction ms arbitrary: st) simp_all

text \<open>A session is replaced by one that is well-formed and has locked nothing of the others.\<close>

lemma replace_ok:
  assumes "overlap_ok hosts (d, xs)" and i: "i < length xs" and new: "db_ok d'" "host_ids d' = hosts" "session_ok x"
    and locks: "locked x \<inter> locked_by_others xs i \<subseteq> locked (xs ! i) \<inter> locked_by_others xs i"
  shows "overlap_ok hosts (d', xs[i := x])"
proof -
  have ok: "\<forall>y \<in> set xs. session_ok y" "locks_exclusive xs" using assms(1) by (simp_all add: overlap_ok_def)
  have apart: "locked x \<inter> locked (xs ! j) = {}" if "j < length xs" "j \<noteq> i" for j
  proof -
    have "locked (xs ! i) \<inter> locked (xs ! j) = {}"
      using ok(2) that i by (simp add: locks_exclusive_def)
    with locks locked_elsewhere [OF that] show ?thesis by blast
  qed
  have "locks_exclusive (xs[i := x])"
    unfolding locks_exclusive_def
  proof (intro allI impI)
    fix a b
    assume "a < length (xs[i := x])" "b < length (xs[i := x])" "a \<noteq> b"
    then show "locked (xs[i := x] ! a) \<inter> locked (xs[i := x] ! b) = {}"
      using apart [of a] apart [of b] ok(2)
      by (cases "a = i"; cases "b = i") (simp_all add: locks_exclusive_def Int_commute)
  qed
  moreover have "\<forall>y \<in> set (xs[i := x]). session_ok y"
    using ok(1) new(3) by (metis insert_iff set_update_subset_insert subsetD)
  ultimately show ?thesis using new(1,2) by (simp add: overlap_ok_def)
qed

lemma make_move_ok:
  assumes "overlap_ok hosts st"
  shows "overlap_ok hosts (make_move st m)"
proof -
  obtain d xs where st: "st = (d, xs)" by fastforce
  let ?i = "mover m"
  have ok: "overlap_ok hosts (d, xs)" "db_ok d" "host_ids d = hosts" "\<And>y. y \<in> set xs \<Longrightarrow> session_ok y"
    using assms st by (simp_all add: overlap_ok_def)
  show ?thesis
  proof (cases rule: make_move_cases [of st m])
    case (statement d' x)
    then have run: "statement (locked_by_others xs ?i) d (xs ! ?i) = (d', x)" and i: "?i < length xs"
      and move: "make_move st m = (d', xs[?i := x])" using st by simp_all
    from statement_ok [OF run ok(2) ok(4)] i ok(3)
    have new: "db_ok d'" "host_ids d' = hosts" "session_ok x"
      "locked x \<inter> locked_by_others xs ?i \<subseteq> locked (xs ! ?i) \<inter> locked_by_others xs ?i" by simp_all
    show ?thesis unfolding move by (rule replace_ok [OF ok(1) i new])
  next
    case (lock rows f s l)
    have "session_ok ((xs ! ?i)\<lparr>locked := insert l (locked (xs ! ?i))\<rparr>)"
      using ok(4) [of "xs ! ?i"] lock(1) st by (simp add: session_ok_def)
    with lock st ok show ?thesis by (auto intro: replace_ok)
  next
    case (victim rows f s)
    have "session_ok (connect rollback)" by (simp add: session_ok_def connect_def)
    with victim st ok show ?thesis by (auto intro!: replace_ok simp: connect_def)
  qed (use assms in simp)
qed

lemma interleave_ok: "overlap_ok hosts st \<Longrightarrow> overlap_ok hosts (interleave schedule st)"
  by (rule interleave_induct) (simp_all add: make_move_ok)

lemma connect_ok:
  "db_ok d \<Longrightarrow> \<forall>s \<in> set scripts. call_script s \<Longrightarrow> overlap_ok (host_ids d) (d, map connect scripts)"
  by (auto simp: overlap_ok_def session_ok_def connect_def locks_exclusive_def call_script_safe)

text \<open>
  C28: However the transactions of the calls that write overlap, the committed database stays
  well-formed, and no two open transactions have locked the same row or the same key.
\<close>

theorem interleavings_well_formed:
  assumes "db_ok d" and "\<forall>s \<in> set scripts. call_script s"
    and "interleave schedule (d, map connect scripts) = (d', xs)"
  shows "db_ok d' \<and> host_ids d' = host_ids d \<and> locks_exclusive xs"
  using interleave_ok [OF connect_ok [OF assms(1,2)], of schedule] assms(3)
  by (simp add: overlap_ok_def)

text \<open>Two leases of one user that overlap; their transactions never lock the same row.\<close>

definition double_lease :: "database \<times> session list" where
  "double_lease = interleave (map Turn [0, 1, 0, 1, 0, 1, 0, 1, 0, 1]) (sample_db, map connect
     [lease_script sample_service 0 (UserId 1) [] [HostId 1] hour,
      lease_script sample_service 0 (UserId 1) [] [HostId 2] hour])"

theorem interleavings_well_formed_witness:
  "db_ok (fst double_lease) \<and> locks_exclusive (snd double_lease)"
proof -
  obtain d' xs where run: "double_lease = (d', xs)" by fastforce
  from interleavings_well_formed [OF db_ok_sample _ run [unfolded double_lease_def]]
  show ?thesis unfolding run by (simp add: call_script.intros)
qed

end
