(* ===== verification/Accounts.thy ===== *)
theory Accounts
  imports Interleaving
begin

text \<open>
  First logins of one person that overlap: the unique name in the directory makes the database
  create at most one account, and of two logins that both found none the later one fails.
\<close>

section \<open>The stages of a first login\<close>

definition logins :: "string \<Rightarrow> string \<Rightarrow> (int \<times> string) list \<Rightarrow> script list" where
  "logins dn email draws = map (\<lambda>(drawn, link). first_login_script drawn dn email link) draws"

definition insertion :: "string \<Rightarrow> string \<Rightarrow> int \<Rightarrow> string \<Rightarrow> script" where
  "insertion dn email drawn link =
     Update {UserKey (UserId (word_of_int drawn)), DnKey dn, LinkKey link}
       (user_insert drawn dn email link) (Look (\<lambda>_. Commit))"

lemma first_login_insertion:
  "first_login_script drawn dn email link =
     Look (\<lambda>d. if find (\<lambda>u. u_dn u = dn) (users_t d) = None then insertion dn email drawn link else rollback)"
  by (auto simp: first_login_script_def insertion_def split: option.split)

text \<open>Before it has inserted its row, and when it has failed, a login has changed nothing.\<close>

definition outside_login :: "string \<Rightarrow> string \<Rightarrow> session \<Rightarrow> bool" where
  "outside_login dn email x \<longleftrightarrow> pending x = id \<and>
     (todo x = rollback \<or> (\<exists>drawn link. todo x = first_login_script drawn dn email link) \<or>
      (\<exists>drawn link. todo x = insertion dn email drawn link))"

lemma outside_cases:
  assumes "outside_login dn email x"
  obtains "todo x = rollback" "pending x = id"
    | drawn link where "todo x = first_login_script drawn dn email link" "pending x = id"
    | drawn link where "todo x = insertion dn email drawn link" "pending x = id"
  using assms by (auto simp: outside_login_def)

lemma outside_connect:
  "outside_login dn email (connect rollback)"
  "outside_login dn email (connect (first_login_script drawn dn email link))"
  by (auto simp: outside_login_def connect_def)

definition inside_login :: "string \<Rightarrow> string \<Rightarrow> database \<Rightarrow> session \<Rightarrow> bool" where
  "inside_login dn email d x \<longleftrightarrow> DnKey dn \<in> locked x \<and> \<not> has_ended (todo x) \<and>
     (todo x = Look (\<lambda>_. Commit) \<or> todo x = Commit) \<and>
     (\<exists>drawn link. pending x = apply_update (user_insert drawn dn email link) \<and>
        user_insert drawn dn email link d \<noteq> None)"

definition done_login :: "session \<Rightarrow> bool" where
  "done_login x \<longleftrightarrow> x = connect (Ended True)"

lemma user_insert_Some:
  assumes "user_insert drawn dn email link d = Some e"
  shows "dn \<notin> u_dn ` set (users_t d)"
    and "\<exists>u. u_dn u = dn \<and> e = d\<lparr>users_t := users_t d @ [u]\<rparr>"
  using assms by (auto simp: user_insert_def Let_def split: if_splits intro!: exI)

text \<open>A statement takes a login to its next stage.\<close>

lemma outside_step:
  assumes "outside_login dn email x" and "statement others d x = (d', x')"
  shows "d' = d \<and> (outside_login dn email x' \<or> inside_login dn email d x' \<and> DnKey dn \<notin> others)"
  using assms(1)
proof (cases rule: outside_cases)
  case 1
  with assms show ?thesis by (auto simp: statement_def)
next
  case (2 drawn link)
  have "d' = d \<and> (x' = connect rollback \<or> x' = x\<lparr>todo := insertion dn email drawn link\<rparr>)"
    using 2 assms(2) by (auto simp: statement_def first_login_insertion insertion_def Let_def split: if_splits)
  moreover have "outside_login dn email (x\<lparr>todo := insertion dn email drawn link\<rparr>)"
    unfolding outside_login_def using 2(2) by (metis session.select_convs(1,2) session.surjective session.update_convs(1))
  ultimately show ?thesis using outside_connect(1) by auto
next
  case (3 drawn link)
  show ?thesis
  proof (cases "user_insert drawn dn email link d")
    case None
    with 3 assms outside_connect show ?thesis
      by (auto simp: statement_def insertion_def split: if_splits)
  next
    case (Some e)
    then have "inside_login dn email d \<lparr>todo = Look (\<lambda>_. Commit),
        pending = apply_update (user_insert drawn dn email link), locked = l\<rparr>" if "DnKey dn \<in> l" for l
      using that by (auto simp: inside_login_def intro!: exI)
    with 3 Some assms show ?thesis
      by (auto simp: statement_def insertion_def split: if_splits)
  qed
qed

lemma inside_step:
  assumes "inside_login dn email d x" and "statement others d x = (d', x')"
  shows "d' = d \<and> inside_login dn email d x' \<or>
    done_login x' \<and> (\<exists>u. u_dn u = dn \<and> d' = d\<lparr>users_t := users_t d @ [u]\<rparr>)"
proof -
  from assms(1) obtain drawn link e where x: "todo x = Look (\<lambda>_. Commit) \<or> todo x = Commit"
    "pending x = apply_update (user_insert drawn dn email link)" "user_insert drawn dn email link d = Some e"
    by (auto simp: inside_login_def)
  show ?thesis
  proof (cases "todo x = Commit")
    case True
    with x(2,3) assms(2) have "x' = connect (Ended True)" "d' = e"
      by (simp_all add: statement_def apply_update_def)
    with user_insert_Some(2) [OF x(3)] show ?thesis by (simp add: done_login_def)
  next
    case False
    with x(1) assms(2) have "d' = d" "x' = x\<lparr>todo := Commit\<rparr>" by (auto simp: statement_def)
    with assms(1) show ?thesis by (simp add: inside_login_def)
  qed
qed

lemma done_step: "done_login x \<Longrightarrow> statement others d x = (d, x)"
  by (simp add: done_login_def statement_def connect_def)

section \<open>At most one account\<close>

text \<open>
  While nobody is done, the accounts are the old ones and at most one login is inside; afterwards
  there is one account more and all the others are outside.
\<close>

definition logins_ok :: "string \<Rightarrow> string \<Rightarrow> database \<Rightarrow> database \<times> session list \<Rightarrow> bool" where
  "logins_ok dn email d0 st \<longleftrightarrow>
     (fst st = d0 \<and> (\<forall>i < length (snd st). outside_login dn email (snd st ! i)) \<or>
      (\<exists>k < length (snd st).
         (fst st = d0 \<and> inside_login dn email d0 (snd st ! k) \<or>
          done_login (snd st ! k) \<and>
          (\<exists>u. u_dn u = dn \<and> fst st = d0\<lparr>users_t := users_t d0 @ [u]\<rparr>)) \<and>
         (\<forall>i < length (snd st). i \<noteq> k \<longrightarrow> outside_login dn email (snd st ! i))))"

lemma logins_okI:
  "fst st = d0 \<Longrightarrow> (\<And>i. i < length (snd st) \<Longrightarrow> outside_login dn email (snd st ! i)) \<Longrightarrow>
   logins_ok dn email d0 st"
  by (simp add: logins_ok_def)

lemma logins_ok_at:
  assumes "k < length (snd st)"
    and "fst st = d0 \<and> inside_login dn email d0 (snd st ! k) \<or>
      done_login (snd st ! k) \<and> (\<exists>u. u_dn u = dn \<and> fst st = d0\<lparr>users_t := users_t d0 @ [u]\<rparr>)"
    and "\<And>i. i < length (snd st) \<Longrightarrow> i \<noteq> k \<Longrightarrow> outside_login dn email (snd st ! i)"
  shows "logins_ok dn email d0 st"
  using assms unfolding logins_ok_def by blast

lemma turn_logins_ok:
  assumes ok: "logins_ok dn email d0 st"
  shows "logins_ok dn email d0 (turn st j)"
proof (cases "j < length (snd st)")
  case True
  let ?xs = "snd st"
  from True obtain d' x where s: "statement (locked_by_others ?xs j) (fst st) (?xs ! j) = (d', x)"
    and t: "turn st j = (d', ?xs[j := x])" by (rule turn_cases)
  from ok consider
      (before) "fst st = d0" "\<And>i. i < length ?xs \<Longrightarrow> outside_login dn email (?xs ! i)"
    | (inside) k where "k < length ?xs" "fst st = d0" "inside_login dn email d0 (?xs ! k)"
        "\<And>i. i < length ?xs \<Longrightarrow> i \<noteq> k \<Longrightarrow> outside_login dn email (?xs ! i)"
    | (after) k u where "k < length ?xs" "done_login (?xs ! k)" "u_dn u = dn"
        "fst st = d0\<lparr>users_t := users_t d0 @ [u]\<rparr>"
        "\<And>i. i < length ?xs \<Longrightarrow> i \<noteq> k \<Longrightarrow> outside_login dn email (?xs ! i)"
    unfolding logins_ok_def by metis
  then show ?thesis
  proof cases
    case before
    from outside_step [OF before(2) [OF True] s] before True t show ?thesis
      unfolding logins_ok_def by (auto simp: nth_list_update)
  next
    case (inside k)
    show ?thesis
    proof (cases "j = k")
      case True
      with inside_step [of dn email d0 "?xs ! k"] inside s t show ?thesis
        by (intro logins_ok_at [of k]) (auto simp: nth_list_update)
    next
      case False
      have "DnKey dn \<in> locked_by_others ?xs j"
        using locked_elsewhere [OF inside(1), of j] False inside(3) by (auto simp: inside_login_def)
      with outside_step [OF inside(4) [OF True False] s] inside False True t show ?thesis
        by (intro logins_ok_at [of k]) (auto simp: nth_list_update)
    qed
  next
    case (after k u)
    show ?thesis
    proof (cases "j = k")
      case True
      with after s t done_step [OF after(2)] show ?thesis
        by (intro logins_ok_at [of k]) (auto simp: nth_list_update)
    next
      case False
      have "\<not> inside_login dn email (fst st) x" for x
        using user_insert_Some(1) after(3,4) by (fastforce simp: inside_login_def)
      with outside_step [OF after(5) [OF True False] s] after False True t show ?thesis
        by (intro logins_ok_at [of k]) (auto simp: nth_list_update)
    qed
  qed
qed (use ok in \<open>simp add: turn_outside\<close>)

text \<open>A login at its insertion is outside, and so it is when it gets a lock or is rolled back.\<close>

lemma logins_ok_update:
  assumes ok: "logins_ok dn email d0 st" and j: "j < length (snd st)" "todo (snd st ! j) = Update rows f s"
    and x: "outside_login dn email (snd st ! j) \<Longrightarrow> outside_login dn email x"
  shows "logins_ok dn email d0 (fst st, (snd st)[j := x])"
proof -
  have "j \<noteq> k" if "inside_login dn email d0 (snd st ! k) \<or> done_login (snd st ! k)" for k
    using that j(2) by (auto simp: inside_login_def done_login_def connect_def)
  then have at: "(snd st)[j := x] ! k = snd st ! k"
    if "inside_login dn email d0 (snd st ! k) \<or> done_login (snd st ! k)" for k using that by auto
  have others: "outside_login dn email ((snd st)[j := x] ! i)"
    if "i < length (snd st)" "outside_login dn email (snd st ! i)" for i
    using that x by (cases "i = j") simp_all
  show ?thesis
    using ok at others unfolding logins_ok_def fst_conv snd_conv length_list_update by metis
qed

lemma move_logins_ok:
  assumes ok: "logins_ok dn email d0 st"
  shows "logins_ok dn email d0 (make_move st m)"
proof (cases rule: make_move_cases [of st m])
  case (statement d' x)
  from statement(1) turn_logins_ok [OF ok, of "mover m"] show ?thesis by (metis make_move_simps(1))
next
  case (lock rows f s l)
  from logins_ok_update [OF ok lock(1,2)] lock(6) show ?thesis by (simp add: outside_login_def)
next
  case (victim rows f s)
  from logins_ok_update [OF ok victim(1,2) outside_connect(1)] victim(3) show ?thesis by simp
qed (use ok in simp)

lemma interleave_logins_ok: "logins_ok dn email d0 st \<Longrightarrow> logins_ok dn email d0 (interleave ms st)"
  by (rule interleave_induct) (simp_all add: move_logins_ok)

text \<open>
  C30: However first logins of one person overlap, at most one of them inserts an account and
  commits; the database then has exactly the one account more, and as long as none has it is
  unchanged. A login that finds the account of another one ends without writing.
\<close>

theorem first_login_once:
  assumes "interleave schedule (d, map connect (logins dn email draws)) = (d', xs)"
  shows "(\<forall>i < length xs. \<not> has_committed (todo (xs ! i))) \<and> d' = d \<or>
    (\<exists>k u. k < length xs \<and> (\<forall>i < length xs. has_committed (todo (xs ! i)) \<longleftrightarrow> i = k) \<and>
       u_dn u = dn \<and> d' = d\<lparr>users_t := users_t d @ [u]\<rparr>)"
proof -
  have stage: "outside_login dn email x \<Longrightarrow> \<not> has_committed (todo x)"
    "inside_login dn email d x \<Longrightarrow> \<not> has_committed (todo x)" "done_login x \<Longrightarrow> has_committed (todo x)" for x
    by (auto simp: outside_login_def inside_login_def done_login_def has_committed_def connect_def
        first_login_insertion insertion_def)
  have "logins_ok dn email d (d, map connect (logins dn email draws))"
    by (rule logins_okI) (auto simp: logins_def outside_connect split: prod.split)
  from interleave_logins_ok [OF this, of schedule] have "logins_ok dn email d (d', xs)"
    by (simp add: assms)
  then show ?thesis
    unfolding logins_ok_def fst_conv snd_conv using stage by metis
qed

text \<open>
  Two logins of which both look first: the second one waits for the first, is refused by the
  unique key, and the person is told that something went wrong.
\<close>

definition both_first :: "database \<times> session list" where
  "both_first = interleave (map Turn [0, 1, 0, 1, 0, 1, 0, 1]) (sample_db, map connect
     (logins ''cn=carol'' ''carol@x'' [(3, ''link-c''), (4, ''link-d'')]))"

theorem first_login_once_witness:
  "map todo (snd both_first) = [Ended True, Ended False] \<and>
   length (users_t (fst both_first)) = length (users_t sample_db) + 1"
proof -
  have stages: "map (has_committed \<circ> todo) (snd both_first) = [True, False]"
    "map (has_ended \<circ> todo) (snd both_first) = [True, True]" by code_simp+
  obtain d' xs where run: "both_first = (d', xs)" by fastforce
  from stages [unfolded run] obtain x y where xs: "xs = [x, y]" "has_committed (todo x)" "has_ended (todo y)"
    "\<not> has_committed (todo y)" by auto
  from xs have "map todo xs = [Ended True, Ended False]"
    by (simp add: has_committed_def has_ended_def split: script.splits)
  moreover from first_login_once [OF run [unfolded both_first_def]] xs
  have "\<exists>u. d' = sample_db\<lparr>users_t := users_t sample_db @ [u]\<rparr>" by force
  ultimately show ?thesis unfolding run by auto
qed

end
