(* ===== verification/Races.thy ===== *)
theory Races
  imports Interleaving
begin

text \<open>
  What transactions that overlap can do to each other: the races that the code leaves open, and the
  one that the database closes.
\<close>

section \<open>The limit can be exceeded\<close>

text \<open>
  C27: Two leases of one user that overlap both look before either has committed, so each sees only
  what was leased before: both go through and the user ends up with the hosts of both, however many
  these are together.
\<close>

theorem lease_limit_race:
  assumes ok: "db_ok d" and u: "u \<in> user_ids d" and apart: "set js \<inter> set ks = {}"
    and limit: "limit_of svc d groups = Some n"
    and each: "lease_permitted d u js n" "lease_permitted d u ks n"
    and until: "date_add now dur = Some until" "timestamptz_ok (to_timestamptz until)"
  shows "\<exists>d' xs. interleave (map Turn [0, 1, 0, 1, 0, 1, 0, 1, 0, 1]) (d, map connect
      [lease_script svc now u groups js dur, lease_script svc now u groups ks dur]) = (d', xs) \<and>
    (\<forall>x \<in> set xs. has_committed (todo x)) \<and>
    held d' u = held d u \<union> (set js \<union> set ks) \<inter> host_ids d"
proof -
  let ?t = "to_timestamptz until"
  have asked: "held d u \<inter> set js = {}" "held d u \<inter> set ks = {}"
    "\<not> n < card (held d u) + card (set js)" "\<not> n < card (held d u) + card (set ks)"
    using each by (simp_all add: lease_permitted_def)
  have upd: "lease_update u ids until e = Some (assign_hosts u ids ?t e)" if "u \<in> user_ids e" for ids e
    using that until by (simp add: lease_update_def)
  have rows: "set ks \<inter> host_ids d \<inter> (set js \<inter> host_ids d) = {}" using apart by blast
  have "held (assign_hosts u ks ?t (assign_hosts u js ?t d)) u =
      held d u \<union> (set js \<union> set ks) \<inter> host_ids d"
    by (auto simp: held_iff holder_assign dest: holder_known split: if_splits)
  then show ?thesis
    using u upd rows asked limit until
    by (simp add: interleave_def turn_def statement_def connect_def lease_script_def
        locked_by_others_def apply_update_def has_committed_def)
qed

text \<open>With a limit of one host the user ends up with two.\<close>

theorem lease_limit_race_witness:
  "limit_of sample_service sample_db [] = Some 1 \<and> card (held (fst double_lease) (UserId 1)) = 2"
proof -
  have sample: "UserId 1 \<in> user_ids sample_db" "limit_of sample_service sample_db [] = Some 1"
    "lease_permitted sample_db (UserId 1) [HostId 1] 1" "lease_permitted sample_db (UserId 1) [HostId 2] 1"
    "date_add 0 hour = Some hour" "timestamptz_ok (to_timestamptz hour)"
    by code_simp+
  have "host_ids sample_db = {HostId 1, HostId 2, HostId 3}" "held sample_db (UserId 1) = {}"
    by code_simp+
  with lease_limit_race [OF db_ok_sample sample(1) _ sample(2-6)]
  have "held (fst double_lease) (UserId 1) = {HostId 1, HostId 2}"
    unfolding double_lease_def by auto
  with sample(2) show ?thesis by simp
qed

section \<open>The timer undoes what came in between\<close>

lemma interleave_other:
  assumes "0 \<notin> mover ` set schedule"
  obtains d' ys where "interleave schedule (d, x # xs) = (d', x # ys)"
proof -
  have first: "snd (interleave schedule st) ! 0 = snd st ! 0" for st
    using assms by (induction schedule arbitrary: st) (simp_all add: make_move_others)
  obtain d' zs where run: "interleave schedule (d, x # xs) = (d', zs)" by fastforce
  have "length zs = length (x # xs)" "zs ! 0 = x"
    using interleave_length [of schedule "(d, x # xs)"] first [of "(d, x # xs)"] by (simp_all add: run)
  then obtain ys where "zs = x # ys" by (cases zs) auto
  with run that show thesis by simp
qed

text \<open>
  C32: The timer looks for the leases that have ended and then frees these hosts by their
  identifiers. Whatever other transactions commit in between, and be it that the user extended the
  lease or another one leased the host, the host is free when the timer has committed.
\<close>

theorem timer_undoes_extension:
  assumes ok: "db_ok d" and ended: "holder d i = Some (u, t)" "t < to_timestamptz now"
    and others: "0 \<notin> mover ` set schedule"
    and run: "interleave (Turn 0 # schedule @ map Turn [0, 0]) (d, map connect (release_script now # scripts)) = (d', xs)"
    and committed: "has_committed (todo (xs ! 0))"
  shows "holder d' i = None"
proof -
  let ?ids = "rows_ending None now d"
  let ?clear = "clear_hosts (\<lambda>h. h_id h \<in> set ?ids)"
  define timer where "timer = (connect (release_script now))\<lparr>todo :=
    if ?ids = [] then rollback else Update (HostRow ` set ?ids) (\<lambda>d. Some (?clear d)) Commit\<rparr>"
  have i: "i \<in> set ?ids" using ended set_rows_ending(2) [OF ok] by (auto simp: ending_def)
  have "turn (d, map connect (release_script now # scripts)) 0 = (d, timer # map connect scripts)"
    by (simp add: turn_def statement_def release_script_def connect_def timer_def Let_def)
  moreover obtain e ys where "interleave schedule (d, timer # map connect scripts) = (e, timer # ys)"
    using interleave_other [OF others] .
  ultimately have "interleave (map Turn [0, 0]) (e, timer # ys) = (d', xs)"
    using run by (simp add: interleave_def)
  then have "d' = ?clear e"
    using committed i
    by (auto simp: interleave_def turn_def statement_def timer_def connect_def apply_update_def
        has_committed_def
        split: if_splits)
  then show ?thesis using i book.book_free_any [of ?ids e i] by simp
qed

text \<open>The third host is extended by eight hours between the two statements of the timer.\<close>

definition between :: "move list" where
  "between = map Turn [1, 1, 1, 1, 1]"

definition late_extension :: "move list \<Rightarrow> database \<times> session list" where
  "late_extension schedule = interleave schedule (committed bob_linked, map connect
     [release_script 1000000, extend_script first_row 1000000 ''43'' 8])"

theorem timer_undoes_extension_witness:
  "holder (fst (late_extension (Turn 0 # between))) (HostId 3) = Some (UserId 2, 500 + 8 * hour_us) \<and>
   holder (fst (late_extension (Turn 0 # between @ map Turn [0, 0]))) (HostId 3) = None"
proof
  show "holder (fst (late_extension (Turn 0 # between))) (HostId 3) = Some (UserId 2, 500 + 8 * hour_us)"
    by code_simp
  have start: "holder (committed bob_linked) (HostId 3) = Some (UserId 2, 500)"
    "(500::timestamptz) < to_timestamptz 1000000" "0 \<notin> mover ` set between" by code_simp+
  obtain d' xs where run: "late_extension (Turn 0 # between @ map Turn [0, 0]) = (d', xs)" by fastforce
  have "has_committed (todo (snd (late_extension (Turn 0 # between @ map Turn [0, 0])) ! 0))" by code_simp
  with timer_undoes_extension [OF db_ok_bob_linked start(1,2,3), where d' = d' and xs = xs
      and scripts = "[extend_script first_row 1000000 ''43'' 8]"] run
  show "holder (fst (late_extension (Turn 0 # between @ map Turn [0, 0]))) (HostId 3) = None"
    by (simp add: late_extension_def)
qed

section \<open>Two users get the same host\<close>

text \<open>
  Two random leases of different users that overlap can be offered the same free host: both are
  told that they have it, and it belongs to the one whose transaction committed last.
\<close>

theorem random_lease_race:
  assumes ok: "db_ok d" and users: "u \<in> user_ids d" "v \<in> user_ids d"
    and limits: "limit_of svc d gs = Some n" "card (held d u) < n"
      "limit_of svc d gs' = Some m" "card (held d v) < m"
    and same: "pick (filter (\<lambda>h. h_user_id h = None \<and> h_group_id h = g) (hosts_t d)) = Some h"
      "h \<in> set (hosts_t d)"
    and until: "date_add now dur = Some until" "timestamptz_ok (to_timestamptz until)"
  shows "\<exists>d' xs. interleave (map Turn [0, 0, 0, 1, 1, 1, 0, 0, 0, 1, 1, 1]) (d, map connect
      [lease_random_script pick svc now u gs dur g, lease_random_script pick svc now v gs' dur g]) =
      (d', xs) \<and>
    (\<forall>x \<in> set xs. has_committed (todo x)) \<and>
    holder d' (h_id h) = Some (v, to_timestamptz until)"
proof -
  let ?t = "to_timestamptz until"
  have below: "\<not> n \<le> card (held d u)" "\<not> m \<le> card (held d v)" using limits by simp_all
  have upd: "lease_update w ids until e = Some (assign_hosts w ids ?t e)" if "w \<in> user_ids e" for w ids e
    using that until by (simp add: lease_update_def)
  have "h_id h \<in> host_ids d" using same(2) by (simp add: host_ids_def)
  then have "holder (assign_hosts v [h_id h] ?t (assign_hosts u [h_id h] ?t d)) (h_id h) = Some (v, ?t)"
    by (simp add: holder_assign)
  then show ?thesis
    using users upd below limits(1,3) same(1) until
    by (simp add: interleave_def turn_def statement_def connect_def lease_random_script_def
        locked_by_others_def apply_update_def has_committed_def)
qed

definition same_host :: "database \<times> session list" where
  "same_host = interleave (map Turn [0, 0, 0, 1, 1, 1, 0, 0, 0, 1, 1, 1]) (sample_db, map connect
     [lease_random_script first_row sample_service 0 (UserId 1) [] hour (GroupId 0),
      lease_random_script first_row sample_service 0 (UserId 2) [''devs''] hour (GroupId 0)])"

theorem random_lease_race_witness:
  "list_all (\<lambda>x. has_committed (todo x)) (snd same_host) \<and>
   holder (fst same_host) (HostId 1) = Some (UserId 2, to_timestamptz hour)"
proof -
  have sample: "UserId 1 \<in> user_ids sample_db" "UserId 2 \<in> user_ids sample_db"
    "limit_of sample_service sample_db [] = Some 1" "card (held sample_db (UserId 1)) < 1"
    "limit_of sample_service sample_db [''devs''] = Some 2" "card (held sample_db (UserId 2)) < 2"
    "date_add 0 hour = Some hour" "timestamptz_ok (to_timestamptz hour)"
    by code_simp+
  let ?free = "filter (\<lambda>h. h_user_id h = None \<and> h_group_id h = GroupId 0) (hosts_t sample_db)"
  have free: "first_row ?free = Some (sample_host 1 None None)" "sample_host 1 None None \<in> set (hosts_t sample_db)"
    by (simp_all add: sample_db_def sample_host_def first_row_def)
  from random_lease_race [where pick = first_row and g = "GroupId 0",
      OF db_ok_sample sample(1-6) free sample(7,8)]
  show ?thesis unfolding same_host_def by (auto simp: sample_host_def list_all_iff)
qed

section \<open>One token too many\<close>

text \<open>
  Two tokens of one user that are created at the same time: both creations count before either has
  committed, so that with one token below the limit the user ends up above it.
\<close>

abbreviation tokens_of :: "database \<Rightarrow> UserId \<Rightarrow> ApiToken list" where
  "tokens_of d u \<equiv> filter (\<lambda>t. t_user_id t = u) (api_tokens_t d)"

lemma token_insert_Some:
  assumes "token_insert i c u nm hash d = Some e"
  shows "token_insert j c' u nm' hash' d \<noteq> None \<Longrightarrow> word_of_int i \<noteq> (word_of_int j :: i32) \<Longrightarrow>
      hash \<noteq> hash' \<Longrightarrow> token_insert j c' u nm' hash' e \<noteq> None"
    and "length (tokens_of e u) = Suc (length (tokens_of d u))"
  using assms by (auto simp: token_insert_def Let_def user_ids_def split: if_splits)

lemma token_limit_race:
  assumes "length (tokens_of d u) < api_token_limit svc"
    and "token_insert i c u nm hash d = Some e1" "token_insert j c' u nm' hash' d = Some e2"
    and "word_of_int i \<noteq> (word_of_int j :: i32)" "hash \<noteq> hash'"
  shows "\<exists>d' xs. interleave (map Turn [0, 1, 0, 1, 0, 1]) (d, map connect
      [create_token_script svc i c u nm hash, create_token_script svc j c' u nm' hash']) = (d', xs) \<and>
    (\<forall>x \<in> set xs. has_committed (todo x)) \<and>
    length (tokens_of d' u) = Suc (Suc (length (tokens_of d u)))"
proof -
  obtain d' where d': "token_insert j c' u nm' hash' e1 = Some d'"
    using token_insert_Some(1) [OF assms(2) _ assms(4,5), of c' nm'] assms(3) by auto
  have "length (tokens_of d' u) = Suc (Suc (length (tokens_of d u)))"
    using token_insert_Some(2) [OF assms(2)] token_insert_Some(2) [OF d'] by simp
  then show ?thesis
    using assms d'
    by (simp add: interleave_def turn_def statement_def connect_def create_token_script_def
        locked_by_others_def apply_update_def has_committed_def)
qed

section \<open>A release stays with its owner, an extension does not\<close>

text \<open>The stages of a script that frees hosts; once it has locked its rows, it looks again.\<close>

definition clear_again :: "HostId set \<Rightarrow> (Host \<Rightarrow> bool) \<Rightarrow> database \<Rightarrow> database" where
  "clear_again ids P = clear_hosts (\<lambda>h. h_id h \<in> ids \<and> P h)"

definition clearing :: "(Host \<Rightarrow> bool) \<Rightarrow> session \<Rightarrow> bool" where
  "clearing P x \<longleftrightarrow>
     x = connect (clear_script P) \<or> (\<exists>b. x = connect (Ended b)) \<or>
     (pending x = id \<and> (\<exists>ids. todo x = Update (HostRow ` ids) (\<lambda>d. Some (clear_again ids P d)) Commit)) \<or>
     (todo x = Commit \<and> (\<exists>ids. pending x = clear_again ids P))"

lemma clearing_step:
  assumes "clearing P x" and "statement others d x = (d', x')"
  shows "clearing P x' \<and> (d' = d \<or> (\<exists>ids. d' = clear_again ids P d))"
proof -
  from assms(1) consider "x = connect (clear_script P)" | b where "x = connect (Ended b)"
    | ids where "pending x = id" "todo x = Update (HostRow ` ids) (\<lambda>d. Some (clear_again ids P d)) Commit"
    | ids where "todo x = Commit" "pending x = clear_again ids P"
    unfolding clearing_def by blast
  then show ?thesis
  proof cases
    case 1
    with assms(2) show ?thesis
      by (auto simp: statement_def connect_def clear_script_def clear_again_def clearing_def Let_def)
  next
    case (2 b)
    with assms show ?thesis by (auto simp: statement_def connect_def)
  next
    case (3 ids)
    with assms show ?thesis
      by (auto simp: statement_def connect_def clearing_def apply_update_def comp_def split: if_splits)
  next
    case (4 ids)
    with assms show ?thesis by (auto simp: statement_def clearing_def)
  qed
qed

lemma clearing_waits:
  assumes "clearing P x" and "todo x = Update rows f s"
  shows "clearing P (x\<lparr>locked := l\<rparr>)"
  using assms unfolding clearing_def by (elim disjE exE) (simp_all add: connect_def clear_script_def)

lemma clearing_move:
  assumes "clearing P (snd st ! i)" and "i < length (snd st)"
  shows "clearing P (snd (make_move st m) ! i)"
proof (cases "mover m = i")
  case True
  show ?thesis
  proof (cases rule: make_move_cases [of st m])
    case (statement d' x)
    with True assms clearing_step show ?thesis by fastforce
  next
    case (victim rows f s)
    have "clearing P (connect rollback)" by (auto simp: clearing_def)
    with victim True assms(2) show ?thesis by simp
  qed (use True assms clearing_waits in auto)
qed (use assms in \<open>simp add: make_move_others\<close>)

lemma clearing_interleave:
  "clearing P (snd st ! i) \<Longrightarrow> i < length (snd st) \<Longrightarrow> clearing P (snd (interleave ms st) ! i)"
  by (induction ms arbitrary: st) (simp_all add: clearing_move)

text \<open>
  C29: However a release by name or of everything overlaps with other transactions, and whatever
  these do, it only ever frees hosts that at that moment are leased to its user.
\<close>

theorem release_overlap_own:
  assumes i: "i < length scripts" and s: "scripts ! i = free_script u ids \<or> scripts ! i = free_all_script u"
    and st: "st = interleave schedule (d, map connect scripts)"
    and changed: "holder (fst (turn st i)) h \<noteq> holder (fst st) h"
  shows "(\<exists>t. holder (fst st) h = Some (u, t)) \<and> holder (fst (turn st i)) h = None"
proof -
  from s obtain Q where Q: "scripts ! i = clear_script (\<lambda>h. Q (h_id h) \<and> h_user_id h = Some u)"
    using that [of "\<lambda>i. i \<in> set ids"] that [of "\<lambda>_. True"]
    by (auto simp: free_script_def free_all_script_def)
  let ?P = "\<lambda>h. Q (h_id h) \<and> h_user_id h = Some u"
  have len: "i < length (snd st)" using i by (simp add: st interleave_length)
  have "clearing ?P (snd st ! i)"
    unfolding st by (rule clearing_interleave) (use i Q in \<open>simp_all add: clearing_def\<close>)
  moreover obtain d' x where "statement (locked_by_others (snd st) i) (fst st) (snd st ! i) = (d', x)"
    and t: "turn st i = (d', (snd st)[i := x])" using len by (rule turn_cases)
  ultimately obtain js where "d' = fst st \<or> d' = clear_again js ?P (fst st)"
    using clearing_step by blast
  with changed t have "d' = clear_hosts (\<lambda>h. (h_id h \<in> js \<and> Q (h_id h)) \<and> h_user_id h = Some u) (fst st)"
    by (auto simp: clear_again_def conj_assoc)
  with changed t holder_clear_user [of "\<lambda>i. i \<in> js \<and> Q i" u "fst st" h] show ?thesis
    by (auto simp: held_iff split: if_splits)
qed

text \<open>
  The second user gives two hosts back of which the other one is leased by the first user between
  the two statements: it stays with him.
\<close>

definition late_release :: "database \<times> session list" where
  "late_release = interleave (map Turn [0, 1, 1, 1, 1, 1, 0]) (sample_db, map connect
     [free_script (UserId 2) [HostId 3, HostId 1],
      lease_script sample_service 0 (UserId 1) [] [HostId 1] hour])"

theorem release_overlap_own_witness:
  "holder (fst late_release) (HostId 3) = Some (UserId 2, 500) \<and>
   holder (fst (turn late_release 0)) (HostId 3) = None \<and>
   holder (fst (turn late_release 0)) (HostId 1) = Some (UserId 1, to_timestamptz hour)"
proof -
  have "holder (fst (turn late_release 0)) (HostId 3) \<noteq> holder (fst late_release) (HostId 3)"
    "holder (fst late_release) (HostId 3) = Some (UserId 2, 500)"
    "holder (fst (turn late_release 0)) (HostId 1) = Some (UserId 1, to_timestamptz hour)"
    by code_simp+
  with release_overlap_own [OF _ _ late_release_def, of 0 "UserId 2" "[HostId 3, HostId 1]" "HostId 3"]
  show ?thesis by simp
qed

text \<open>
  An extension looks for the leases of its user that end soon and then extends these hosts by
  their identifiers: if in between another user has leased one of them, it is his lease that is
  extended.
\<close>

theorem extension_race:
  assumes ok: "db_ok d" and user: "pick (filter (\<lambda>u. u_tg_handle u = Some tg) (users_t d)) = Some user"
    and soon: "date_add now EXPIRATION_NOTIFY_WINDOW = Some before"
      "holder d i = Some (u_id user, t0)" "t0 < to_timestamptz before"
    and others: "0 \<notin> mover ` set schedule"
      "interleave schedule (interleave (map Turn [0, 0]) (d, map connect (extend_script pick now tg hours # scripts))) = (e, ys)"
    and leased: "holder e i = Some (v, t)"
    and run: "interleave (map Turn [0, 0, 0]) (e, ys) = (d', xs)" "has_committed (todo (xs ! 0))"
  shows "holder d' i = Some (v, t + sint hours * hour_us)"
proof -
  let ?ids = "rows_ending (Some (u_id user)) before d"
  define ready where "ready = connect (if ?ids = [] then rollback
    else Update (HostRow ` set ?ids) (extend_update ?ids (sint hours)) (Look (\<lambda>_. Commit)))"
  have i: "i \<in> set ?ids" using soon set_rows_ending(1) [OF ok] by (auto simp: ending_def)
  have "interleave (map Turn [0, 0]) (d, map connect (extend_script pick now tg hours # scripts)) =
      (d, ready # map connect scripts)"
    using user soon(1)
    by (auto simp: interleave_def turn_def statement_def extend_script_def connect_def ready_def Let_def)
  moreover obtain e' zs where "interleave schedule (d, ready # map connect scripts) = (e', ready # zs)"
    using interleave_other [OF others(1)] .
  ultimately have ys: "ys = ready # zs" using others(2) by simp
  then have "d' = prolong_hosts ?ids (sint hours) e"
    using run i
    by (auto simp: interleave_def turn_def statement_def ready_def connect_def apply_update_def
        has_committed_def extend_update_def split: if_splits option.splits)
  then show ?thesis using leased i by (simp add: holder_prolong)
qed

text \<open>The first user takes the third host over while the second one extends it.\<close>

definition taken_over :: "move list \<Rightarrow> database \<times> session list" where
  "taken_over schedule = interleave schedule (committed bob_linked, map connect
     [extend_script first_row 1000000 ''43'' 8,
      lease_script sample_service 1000000 (UserId 1) [] [HostId 3] hour])"

theorem extension_race_witness:
  "holder (fst (taken_over (map Turn [0, 0] @ between @ map Turn [0, 0, 0]))) (HostId 3) =
     Some (UserId 1, to_timestamptz (1000000 + hour) + 8 * hour_us)"
proof -
  let ?d = "committed bob_linked"
  let ?bob = "bob\<lparr>u_tg_handle := Some ''43''\<rparr>"
  obtain before where start: "date_add 1000000 EXPIRATION_NOTIFY_WINDOW = Some before" "500 < to_timestamptz before"
  proof
    show "date_add 1000000 EXPIRATION_NOTIFY_WINDOW = Some (1000000 + EXPIRATION_NOTIFY_WINDOW)"
      "500 < to_timestamptz (1000000 + EXPIRATION_NOTIFY_WINDOW)" by code_simp+
  qed
  have found: "first_row (filter (\<lambda>u. u_tg_handle u = Some ''43'') (users_t ?d)) = Some ?bob"
    "holder ?d (HostId 3) = Some (u_id ?bob, 500)" "0 \<notin> mover ` set between" by code_simp+
  obtain e ys where e: "interleave between (taken_over (map Turn [0, 0])) = (e, ys)" by fastforce
  obtain d' xs where run: "interleave (map Turn [0, 0, 0]) (e, ys) = (d', xs)" by fastforce
  then have whole: "taken_over (map Turn [0, 0] @ between @ map Turn [0, 0, 0]) = (d', xs)"
    using e by (simp add: taken_over_def interleave_def)
  have "holder (fst (interleave between (taken_over (map Turn [0, 0])))) (HostId 3) =
      Some (UserId 1, to_timestamptz (1000000 + hour))"
    "has_committed (todo (snd (taken_over (map Turn [0, 0] @ between @ map Turn [0, 0, 0])) ! 0))" by code_simp+
  then have "holder e (HostId 3) = Some (UserId 1, to_timestamptz (1000000 + hour))"
    "has_committed (todo (xs ! 0))" by (simp_all only: e whole prod.sel)
  from extension_race [where pick = first_row and tg = "''43''" and user = ?bob and hours = 8
      and scripts = "[lease_script sample_service 1000000 (UserId 1) [] [HostId 3] hour]",
      OF db_ok_bob_linked found(1) start(1) found(2) start(2) found(3) _ this(1) run this(2)]
  have "holder d' (HostId 3) = Some (UserId 1, to_timestamptz (1000000 + hour) + sint (8 :: i32) * hour_us)"
    using e by (simp add: taken_over_def)
  then show ?thesis unfolding whole by simp
qed

end
