(* ===== verification/Progress.thy ===== *)
theory Progress
  imports Races
begin

text \<open>
  Overlapping transactions come to an end: each has only so many rows to lock and statements to
  execute, and when all that are open wait for each other the detector rolls one of them back.
\<close>

section \<open>How far a script is from its end\<close>

text \<open>
  Of the rows that an update names it locks those that exist: hosts out of \<open>hosts\<close>, which no call
  adds or deletes, and anything that is no host.
\<close>

definition possible :: "HostId set \<Rightarrow> lock set" where
  "possible hosts = {l. \<forall>i. l = HostRow i \<longrightarrow> i \<in> hosts}"

lemma taken_possible: "host_ids d = hosts \<Longrightarrow> taken d rows \<subseteq> rows \<inter> possible hosts"
  by (auto simp: taken_def possible_def)

text \<open>A script that ends within \<open>n\<close> moves, each of which locks a row or finishes a statement.\<close>

primrec ends_within :: "HostId set \<Rightarrow> script \<Rightarrow> nat \<Rightarrow> bool" where
  "ends_within hosts (Look k) n \<longleftrightarrow> 0 < n \<and> (\<forall>d. ends_within hosts (k d) (n - 1))"
| "ends_within hosts (Update rows f s) n \<longleftrightarrow> finite rows \<and> \<not> has_ended s \<and>
     card (rows \<inter> possible hosts) < n \<and> ends_within hosts s (n - 1 - card (rows \<inter> possible hosts))"
| "ends_within hosts Commit n \<longleftrightarrow> 0 < n"
| "ends_within hosts (Ended b) n \<longleftrightarrow> True"

lemma ends_within_mono: "ends_within hosts s n \<Longrightarrow> n \<le> m \<Longrightarrow> ends_within hosts s m"
proof (induction s arbitrary: n m)
  case (Look k)
  then show ?case by (auto intro: Look.IH [OF rangeI, of _ "n - 1"])
next
  case (Update rows f s)
  then show ?case by (auto intro: Update.IH [of "n - 1 - card (rows \<inter> possible hosts)"])
qed auto

lemma few_rows:
  assumes "finite hosts"
  shows "card (HostRow ` ids \<inter> possible hosts) \<le> card hosts"
proof -
  have "card (HostRow ` ids \<inter> possible hosts) \<le> card (HostRow ` hosts)"
    using assms by (intro card_mono) (auto simp: possible_def)
  also have "\<dots> \<le> card hosts" using assms by (rule card_image_le)
  finally show ?thesis .
qed

lemma few_keys:
  "card ({a} \<inter> A) \<le> 1" "card ({a, b} \<inter> A) \<le> 2" "card ({a, b, c} \<inter> A) \<le> 3"
  using card_mono [of "{a}" "{a} \<inter> A"] card_mono [of "{a, b}" "{a, b} \<inter> A"]
    card_mono [of "{a, b, c}" "{a, b, c} \<inter> A"]
  by (auto intro: order_trans simp: card_insert_if)

lemma update_within:
  assumes "finite rows" and "card (rows \<inter> possible hosts) \<le> c" and "c < n"
    and "\<not> has_ended s" and "ends_within hosts s (n - 1 - c)"
  shows "ends_within hosts (Update rows f s) n"
  using assms by (auto intro: ends_within_mono)

lemma clear_script_within: "finite hosts \<Longrightarrow> ends_within hosts (clear_script P) (card hosts + 3)"
  by (simp add: clear_script_def Let_def update_within [OF _ few_rows] del: ends_within.simps(2))

lemma call_script_within:
  assumes fin: "finite hosts"
  shows "call_script s \<Longrightarrow> ends_within hosts s (card hosts + 7)"
proof (induction rule: call_script.induct)
  note row_update = update_within [OF _ few_rows [OF fin]]
  case (lease svc now u groups ids dur)
  show ?case
    by (simp add: lease_script_def row_update del: ends_within.simps(2) split: option.split)
next
  note row_update = update_within [OF _ few_rows [OF fin]]
  case (extend pick now tg hours)
  show ?case
    by (simp add: extend_script_def row_update Let_def del: ends_within.simps(2) split: option.split)
next
  note row_update = update_within [OF _ few_rows [OF fin]]
  case (release now)
  show ?case by (simp add: release_script_def row_update Let_def del: ends_within.simps(2))
next
  case (lease_random pick svc now u groups dur g)
  show ?case
    by (simp add: lease_random_script_def update_within [OF _ few_keys(1)] del: ends_within.simps(2) split: option.split)
next
  case (link link tg)
  show ?case
    by (simp add: link_script_def update_within [OF _ few_keys(1)] del: ends_within.simps(2) split: option.split)
next
  case (first_login drawn dn email link)
  show ?case
    by (simp add: first_login_script_def update_within [OF _ few_keys(3)] del: ends_within.simps(2) split: option.split)
next
  case (create_token tsvc drawn created u name hash)
  show ?case
    by (simp add: create_token_script_def update_within [OF _ few_keys(2)] del: ends_within.simps(2))
next
  case (revoke_token k u)
  show ?case
    by (simp add: revoke_token_script_def update_within [OF _ few_keys(1)] del: ends_within.simps(2))
qed (auto simp: free_script_def free_all_script_def intro: ends_within_mono [OF clear_script_within [OF fin]])

section \<open>How far the sessions are from their end\<close>

text \<open>An update that is on its way need not lock again what it has locked.\<close>

definition session_within :: "HostId set \<Rightarrow> session \<Rightarrow> nat \<Rightarrow> bool" where
  "session_within hosts x n =
     (case todo x of
        Update rows f s \<Rightarrow> finite rows \<and> \<not> has_ended s \<and> card (rows \<inter> possible hosts - locked x) < n \<and>
          ends_within hosts s (n - 1 - card (rows \<inter> possible hosts - locked x))
      | Ended b \<Rightarrow> locked x = {}
      | _ \<Rightarrow> ends_within hosts (todo x) n)"

definition blocked :: "lock set \<Rightarrow> database \<Rightarrow> session \<Rightarrow> bool" where
  "blocked others d x \<longleftrightarrow>
     (case todo x of Update rows f s \<Rightarrow> taken d rows \<inter> others \<noteq> {} | _ \<Rightarrow> False)"

lemma session_within_ended: "session_within hosts x 0 \<Longrightarrow> has_ended (todo x)"
  by (cases "todo x") (simp_all add: session_within_def)

lemma within_session:
  assumes "ends_within hosts (todo x) n" and "\<not> has_ended (todo x)"
  shows "session_within hosts x n"
proof (cases "todo x")
  case (Update rows f s)
  have "card (rows \<inter> possible hosts - locked x) \<le> card (rows \<inter> possible hosts)"
    using assms(1) Update by (auto intro: card_mono)
  with assms(1) Update show ?thesis
    by (auto simp: session_within_def intro: ends_within_mono)
qed (use assms in \<open>simp_all add: session_within_def\<close>)

lemma connect_within: "ends_within hosts s n \<Longrightarrow> session_within hosts (connect s) n"
  by (cases "has_ended s"; cases s) (auto simp: session_within_def connect_def)

text \<open>A move that does something brings its session closer to the end.\<close>

lemma statement_within:
  assumes run: "statement others d x = (d', x')" and within: "session_within hosts x (Suc n)"
    and "\<not> has_ended (todo x)" and "\<not> blocked others d x"
  shows "session_within hosts x' n"
proof (cases "todo x")
  case (Look k)
  with run have "x' = (if has_ended (k (pending x d)) then connect (k (pending x d)) else x\<lparr>todo := k (pending x d)\<rparr>)"
    by (auto simp: statement_def Let_def)
  moreover have "ends_within hosts (k (pending x d)) n"
    using within Look by (simp add: session_within_def)
  ultimately show ?thesis by (auto intro: within_session connect_within)
next
  case (Update rows f s)
  with run assms(4) have "x' = connect rollback \<or> todo x' = s"
    by (auto simp: statement_def blocked_def split: option.splits)
  moreover have "ends_within hosts s n" "\<not> has_ended s"
    using within Update by (auto simp: session_within_def intro: ends_within_mono)
  ultimately show ?thesis by (auto intro: within_session connect_within)
next
  case Commit
  with run show ?thesis by (auto simp: statement_def intro: connect_within)
qed (use assms(3) in simp)

lemma lock_within:
  assumes "session_within hosts x (Suc n)" and "todo x = Update rows f s"
    and "l \<in> rows \<inter> possible hosts" and "l \<notin> locked x"
  shows "session_within hosts (x\<lparr>locked := insert l (locked x)\<rparr>) n"
proof -
  let ?left = "rows \<inter> possible hosts - locked x"
  have "rows \<inter> possible hosts - insert l (locked x) = ?left - {l}" by blast
  moreover have "card ?left = Suc (card (?left - {l}))"
    using assms by (intro card.remove) (auto simp: session_within_def)
  ultimately show ?thesis using assms(1,2) by (auto simp: session_within_def)
qed

text \<open>All sessions together have at most \<open>N\<close> moves to go.\<close>

definition to_go :: "HostId set \<Rightarrow> nat \<Rightarrow> session list \<Rightarrow> bool" where
  "to_go hosts N xs \<longleftrightarrow> (\<exists>ns. length ns = length xs \<and>
     (\<forall>i < length xs. session_within hosts (xs ! i) (ns ! i)) \<and> sum_list ns \<le> N)"

lemma to_go_0: "to_go hosts 0 xs \<Longrightarrow> \<forall>x \<in> set xs. has_ended (todo x)"
  by (auto simp: to_go_def in_set_conv_nth) (metis nth_mem session_within_ended)

lemma to_go_mono: "to_go hosts N xs \<Longrightarrow> N \<le> M \<Longrightarrow> to_go hosts M xs"
  by (auto simp: to_go_def intro: order_trans)

lemma to_go_ended:
  assumes "to_go hosts N xs" and "i < length xs" and "has_ended (todo (xs ! i))"
  shows "locked (xs ! i) = {}"
  using assms by (cases "todo (xs ! i)") (force simp: to_go_def session_within_def)+

lemma to_go_progress:
  assumes "to_go hosts (Suc N) xs" and i: "i < length xs" and "\<not> has_ended (todo (xs ! i))"
    and "\<And>n. session_within hosts (xs ! i) (Suc n) \<Longrightarrow> session_within hosts x n"
  shows "to_go hosts N (xs[i := x])"
proof -
  obtain ns where ns: "length ns = length xs" "\<forall>j < length xs. session_within hosts (xs ! j) (ns ! j)"
    "sum_list ns \<le> Suc N" using assms(1) by (auto simp: to_go_def)
  have "ns ! i \<noteq> 0" using ns(2) i assms(3) session_within_ended by metis
  then obtain n where n: "ns ! i = Suc n" by (cases "ns ! i") auto
  then have "session_within hosts x n" using ns(2) i assms(4) by metis
  moreover have "sum_list (ns[i := n]) \<le> N"
    using sum_list_update [of i ns n] ns(1,3) i n by simp
  ultimately show ?thesis
    unfolding to_go_def using ns(1,2) i
    by (intro exI [of _ "ns[i := n]"]) (auto simp: nth_list_update)
qed

lemma to_go_connect:
  "\<forall>s \<in> set scripts. ends_within hosts s k \<Longrightarrow> to_go hosts (k * length scripts) (map connect scripts)"
  unfolding to_go_def
  by (rule exI [of _ "replicate (length scripts) k"])
    (simp add: sum_list_replicate connect_within mult.commute)

section \<open>Somebody can always go on\<close>

definition progress :: "HostId set \<Rightarrow> database \<times> session list \<Rightarrow> move \<Rightarrow> bool" where
  "progress hosts st m \<longleftrightarrow> (\<forall>N. to_go hosts (Suc N) (snd st) \<longrightarrow> to_go hosts N (snd (make_move st m)))"

lemma turn_progress:
  assumes "i < length (snd st)" and "\<not> has_ended (todo (snd st ! i))"
    and "\<not> blocked (locked_by_others (snd st) i) (fst st) (snd st ! i)"
  shows "progress hosts st (Turn i)"
proof -
  from assms(1) obtain d' x where s: "statement (locked_by_others (snd st) i) (fst st) (snd st ! i) = (d', x)"
    and t: "turn st i = (d', (snd st)[i := x])" by (rule turn_cases)
  from to_go_progress [OF _ assms(1,2) statement_within [OF s _ assms(2,3)]] t
  show ?thesis by (simp add: progress_def)
qed

lemma rollback_progress:
  assumes "i < length (snd st)" and "todo (snd st ! i) = Update rows f s"
    and "make_move st m = (fst st, (snd st)[i := connect rollback])"
  shows "progress hosts st m"
proof -
  have "session_within hosts (connect rollback) n" for n by (simp add: connect_within)
  with to_go_progress [OF _ assms(1), of hosts _ "connect rollback"] assms(2,3)
  show ?thesis by (simp add: progress_def)
qed

lemma statement_idle: "has_ended (todo x) \<or> blocked others d x \<Longrightarrow> statement others d x = (d, x)"
  by (auto simp: statement_def blocked_def split: script.splits)

lemma move_progress:
  assumes "host_ids (fst st) = hosts"
  shows "make_move st m = st \<or> progress hosts st m"
proof (cases rule: make_move_cases [of st m])
  case (statement d' x)
  show ?thesis
  proof (cases "has_ended (todo (snd st ! mover m)) \<or>
      blocked (locked_by_others (snd st) (mover m)) (fst st) (snd st ! mover m)")
    case True
    from statement(3) statement_idle [OF this] have "d' = fst st" "x = snd st ! mover m" by simp_all
    with statement(4) have "make_move st m = st" by simp
    then show ?thesis ..
  next
    case False
    with statement(1,2) turn_progress [of "mover m" st hosts] show ?thesis by metis
  qed
next
  case (lock rows f s l)
  have "l \<in> rows \<inter> possible hosts" using lock(3) taken_possible [OF assms] by blast
  with to_go_progress [OF _ lock(1) _ lock_within [OF _ lock(2) _ lock(4)]] lock(2,6)
  show ?thesis by (simp add: progress_def)
next
  case (victim rows f s)
  from rollback_progress [OF this] show ?thesis by simp
qed simp

text \<open>A session that waits has somebody to wait for; where all of them wait there is a cycle.\<close>

lemma locked_by_whom:
  assumes "l \<in> locked_by_others xs i"
  obtains j where "j < length xs" "j \<noteq> i" "l \<in> locked (xs ! j)"
proof -
  from assms consider x where "x \<in> set (take i xs)" "l \<in> locked x" | x where "x \<in> set (drop (Suc i) xs)" "l \<in> locked x"
    by (auto simp: locked_by_others_def)
  then show thesis
  proof cases
    case (1 x)
    then obtain j where "j < i" "j < length xs" "xs ! j = x" by (auto simp: in_set_conv_nth)
    with 1(2) that show thesis by blast
  next
    case (2 x)
    then obtain k where "k < length xs - Suc i" "xs ! Suc (i + k) = x" by (auto simp: in_set_conv_nth)
    with 2(2) that [of "Suc (i + k)"] show thesis by simp
  qed
qed

lemma blocked_waits:
  assumes "blocked (locked_by_others (snd st) i) (fst st) (snd st ! i)" and "i < length (snd st)"
  obtains j where "(i, j) \<in> waits st"
proof -
  from assms(1) obtain rows f s l where up: "todo (snd st ! i) = Update rows f s" "l \<in> taken (fst st) rows"
    and "l \<in> locked_by_others (snd st) i" by (auto simp: blocked_def split: script.splits)
  from this(3) obtain j where "j < length (snd st)" "j \<noteq> i" "l \<in> locked (snd st ! j)"
    by (rule locked_by_whom)
  with up assms(2) that show thesis by (auto simp: waits_iff)
qed

lemma waits_finite: "finite (waits st)"
  by (simp add: waits_def)

lemma someone_goes_on:
  assumes go: "to_go hosts N (snd st)" and unended: "i < length (snd st)" "\<not> has_ended (todo (snd st ! i))"
  shows "\<exists>j < length (snd st). progress hosts st (Turn j) \<or> progress hosts st (Detect j)"
proof (cases "acyclic (waits st)")
  case False
  then obtain j where cycle: "(j, j) \<in> (waits st)\<^sup>+" by (auto simp: acyclic_def)
  then obtain k where "(j, k) \<in> waits st" by (meson tranclD)
  with cycle rollback_progress [of j st _ _ _ "Detect j" hosts] show ?thesis
    by (auto simp: waits_iff detect_def)
next
  case True
  then have "wf ((waits st)\<inverse>)" by (rule finite_acyclic_wf_converse [OF waits_finite])
  then obtain j where j: "j < length (snd st)" "\<not> has_ended (todo (snd st ! j))"
    and last: "\<And>k. (j, k) \<in> waits st \<Longrightarrow> k < length (snd st) \<Longrightarrow> has_ended (todo (snd st ! k))"
    using unended wfE_min [of "(waits st)\<inverse>" i "{j. j < length (snd st) \<and> \<not> has_ended (todo (snd st ! j))}"]
    by auto
  have "\<not> blocked (locked_by_others (snd st) j) (fst st) (snd st ! j)"
  proof
    assume "blocked (locked_by_others (snd st) j) (fst st) (snd st ! j)"
    then obtain k where k: "(j, k) \<in> waits st" using blocked_waits j(1) by blast
    then have "k < length (snd st)" "locked (snd st ! k) \<noteq> {}" by (auto simp: waits_iff)
    with last [OF k] to_go_ended [OF go] show False by blast
  qed
  from turn_progress [OF j this] j(1) show ?thesis by blast
qed

section \<open>Rounds\<close>

lemma interleave_to_go:
  assumes "overlap_ok hosts st" and "to_go hosts N (snd st)"
  shows "to_go hosts N (snd (interleave ms st))"
proof -
  have "overlap_ok hosts (interleave ms st) \<and> to_go hosts N (snd (interleave ms st))"
  proof (rule interleave_induct)
    fix st m
    assume st: "overlap_ok hosts st \<and> to_go hosts N (snd st)"
    then have "make_move st m = st \<or> progress hosts st m" by (intro move_progress) (simp add: overlap_ok_def)
    with st to_go_mono [of hosts N "snd st" "Suc N"] make_move_ok [of hosts st m]
    show "overlap_ok hosts (make_move st m) \<and> to_go hosts N (snd (make_move st m))"
      by (auto simp: progress_def)
  qed (use assms in simp)
  then show ?thesis ..
qed

lemma moves_progress:
  assumes "overlap_ok hosts st" and "to_go hosts (Suc N) (snd st)" and "m \<in> set ms" "progress hosts st m"
  shows "to_go hosts N (snd (interleave ms st))"
  using assms
proof (induction ms)
  case (Cons m' ms)
  show ?case
  proof (cases "progress hosts st m'")
    case True
    with Cons.prems interleave_to_go [OF make_move_ok [OF Cons.prems(1)], of N m' ms] show ?thesis
      by (simp add: progress_def)
  next
    case False
    then have "make_move st m' = st" using move_progress [of st hosts m'] Cons.prems(1) by (simp add: overlap_ok_def)
    moreover have "m \<in> set ms" using False Cons.prems(3,4) by auto
    ultimately show ?thesis using Cons by simp
  qed
qed simp

text \<open>In a fair round every session has a turn and the detector looks at it.\<close>

definition fair :: "nat \<Rightarrow> move list \<Rightarrow> bool" where
  "fair n moves \<longleftrightarrow> (\<forall>i < n. Turn i \<in> set moves \<and> Detect i \<in> set moves)"

lemma fair_progress:
  assumes ok: "overlap_ok hosts st" and go: "to_go hosts (Suc N) (snd st)" and fair: "fair (length (snd st)) ms"
  shows "to_go hosts N (snd (interleave ms st))"
proof (cases "\<forall>x \<in> set (snd st). has_ended (todo x)")
  case True
  then have "\<forall>i < length (snd st). session_within hosts (snd st ! i) 0"
    using to_go_ended [OF go] by (auto simp: session_within_def all_set_conv_all_nth split: script.splits)
  then have "to_go hosts N (snd st)"
    unfolding to_go_def by (intro exI [of _ "replicate (length (snd st)) 0"]) (simp add: sum_list_replicate)
  then show ?thesis by (rule interleave_to_go [OF ok])
next
  case False
  then obtain i where "i < length (snd st)" "\<not> has_ended (todo (snd st ! i))" by (auto simp: in_set_conv_nth)
  from someone_goes_on [OF go this] obtain j where "j < length (snd st)"
    "progress hosts st (Turn j) \<or> progress hosts st (Detect j)" by blast
  with fair moves_progress [OF ok go] show ?thesis by (auto simp: fair_def)
qed

lemma fair_end:
  assumes "overlap_ok hosts st" and "to_go hosts (length rounds) (snd st)"
    and "\<forall>moves \<in> set rounds. fair (length (snd st)) moves"
  shows "\<forall>x \<in> set (snd (interleave (concat rounds) st)). has_ended (todo x)"
  using assms
proof (induction rounds arbitrary: st)
  case Nil
  then show ?case by (simp add: to_go_0)
next
  case (Cons moves rounds)
  let ?st = "interleave moves st"
  have "overlap_ok hosts ?st" "to_go hosts (length rounds) (snd ?st)"
    using Cons.prems by (simp_all add: interleave_ok fair_progress)
  from Cons.IH [OF this] Cons.prems(3) show ?case by (simp add: interleave_length)
qed

text \<open>
  C31: The calls that write come to an end when they overlap, even where two updates lock the same
  rows in opposite orders: whatever has been executed of them, they are all committed or rolled back
  once every open transaction has had its turn and been looked at by the detector of deadlocks
  often enough. For each transaction there are at most as many such rounds as there are hosts and
  seven more, whatever rows are locked in between and in whatever order.
\<close>

theorem overlaps_finish:
  assumes "db_ok d" and calls: "\<forall>s \<in> set scripts. call_script s"
    and fair: "\<forall>moves \<in> set rounds. fair (length scripts) moves"
    and enough: "(card (host_ids d) + 7) * length scripts \<le> length rounds"
  shows "\<forall>x \<in> set (snd (interleave (schedule @ concat rounds) (d, map connect scripts))). has_ended (todo x)"
proof -
  let ?st = "interleave schedule (d, map connect scripts)" and ?hosts = "host_ids d"
  have start: "overlap_ok ?hosts (d, map connect scripts)" using assms(1) calls by (rule connect_ok)
  have "finite ?hosts" by (simp add: host_ids_def)
  then have "to_go ?hosts ((card ?hosts + 7) * length scripts) (map connect scripts)"
    using calls call_script_within by (intro to_go_connect) blast
  from to_go_mono [OF this enough] have "to_go ?hosts (length rounds) (snd ?st)"
    using interleave_to_go [OF start] by simp
  moreover have "length (snd ?st) = length scripts" by (simp add: interleave_length)
  ultimately show ?thesis using fair_end [OF interleave_ok [OF start]] fair by simp
qed

text \<open>
  Two leases of two hosts that lock them in opposite orders wait for each other; no turn of theirs
  changes anything, and the detector rolls one of them back.
\<close>

definition deadlock :: "database \<times> session list" where
  "deadlock = interleave [Turn 0, Turn 0, Turn 1, Turn 1, Grab 0 (HostRow (HostId 1)), Grab 1 (HostRow (HostId 2))]
     (sample_db, map connect
        [lease_script \<lparr>lease_limit = 5\<rparr> 0 (UserId 1) [] [HostId 1, HostId 2] hour,
         lease_script \<lparr>lease_limit = 5\<rparr> 0 (UserId 2) [] [HostId 2, HostId 1] hour])"

theorem overlaps_finish_witness:
  "waits deadlock = {(0, 1), (1, 0)} \<and>
   map (has_committed \<circ> todo) (snd (interleave (Detect 0 # map Turn [1, 1, 1]) deadlock)) = [False, True] \<and>
   list_all (\<lambda>x. has_ended (todo x)) (snd (interleave
     (concat (replicate 20 [Turn 0, Turn 1, Detect 0, Detect 1])) deadlock))"
proof (intro conjI)
  show "waits deadlock = {(0, 1), (1, 0)}"
    "map (has_committed \<circ> todo) (snd (interleave (Detect 0 # map Turn [1, 1, 1]) deadlock)) = [False, True]"
    by code_simp+
  let ?rounds = "replicate 20 [Turn 0, Turn 1, Detect 0, Detect 1]"
  let ?scripts = "[lease_script \<lparr>lease_limit = 5\<rparr> 0 (UserId 1) [] [HostId 1, HostId 2] hour,
    lease_script \<lparr>lease_limit = 5\<rparr> 0 (UserId 2) [] [HostId 2, HostId 1] hour]"
  have "\<forall>s \<in> set ?scripts. call_script s" "\<forall>moves \<in> set ?rounds. fair (length ?scripts) moves"
    "(card (host_ids sample_db) + 7) * length ?scripts \<le> length ?rounds"
    by (auto simp: call_script.intros fair_def less_Suc_eq numeral_2_eq_2 host_ids_def sample_db_def sample_host_def)
  from overlaps_finish [OF db_ok_sample this] show "list_all (\<lambda>x. has_ended (todo x))
      (snd (interleave (concat ?rounds) deadlock))"
    by (simp only: deadlock_def list_all_iff interleave_simps(3))
qed

end
