(* ===== verification/Config.thy ===== *)
theory Config
  imports World
begin

text \<open>
  The configuration, \<open>src/src/configuration.rs\<close>: the settings, how they are read from the values
  that the \<open>config\<close> crate has merged, the profile and its files, and the options made from them.
  The values and their conversions belong to the \<open>config\<close> crate and are parameters.
\<close>

section \<open>Settings\<close>

type_synonym u16 = "16 word"

record TelegramSettings =
  tg_token :: string

record LdapSettings =
  ldap_url :: string
  ldap_use_tls :: bool
  ldap_no_tls_verify :: bool
  ldap_login :: string
  ldap_password :: string
  ldap_users_query :: string
  ldap_reconnect_interval :: duration

record AppSettings =
  app_host :: IpAddr
  app_port :: u16
  app_lease_limit :: nat
  app_api_token_limit :: nat
  app_hmac_secret :: string
  app_mcp_allowed_hosts :: "string list"

record DatabaseSettings =
  db_username :: string
  db_password :: string
  db_port :: u16
  db_host :: string
  db_database_name :: string
  db_require_ssl :: bool

record Settings =
  database_settings :: DatabaseSettings
  ldap_settings :: LdapSettings
  app_settings :: AppSettings
  telegram_settings :: "TelegramSettings option"

section \<open>Reading the settings\<close>

text \<open>
  What a value of the \<open>config\<close> crate can be read as; \<open>number_or_string\<close> is the untagged choice of
  \<open>deserialize_number_from_string\<close>.
\<close>

record ('v, 'e) readers =
  field :: "'v \<Rightarrow> string \<Rightarrow> 'v option"
  as_string :: "'v \<Rightarrow> 'e + string"
  as_bool :: "'v \<Rightarrow> 'e + bool"
  as_ip :: "'v \<Rightarrow> 'e + IpAddr"
  as_duration :: "'v \<Rightarrow> 'e + duration"
  as_strings :: "'v \<Rightarrow> 'e + string list"
  number_or_string :: "'v \<Rightarrow> 'e + (int + string)"
  custom :: "string \<Rightarrow> 'e"

definition bind_sum :: "'e + 'a \<Rightarrow> ('a \<Rightarrow> 'e + 'b) \<Rightarrow> 'e + 'b" where
  "bind_sum x k = (case x of Inl e \<Rightarrow> Inl e | Inr a \<Rightarrow> k a)"

lemma bind_sum_Inr [simp]: "bind_sum x k = Inr b \<longleftrightarrow> (\<exists>a. x = Inr a \<and> k a = Inr b)"
  by (simp add: bind_sum_def split: sum.split)

definition required_field :: "('v, 'e) readers \<Rightarrow> 'v \<Rightarrow> string \<Rightarrow> 'e + 'v" where
  "required_field vs v name =
     (case field vs v name of
        None \<Rightarrow> Inl (custom vs (''missing field `'' @ name @ ''`''))
      | Some x \<Rightarrow> Inr x)"

definition read_field ::
  "('v, 'e) readers \<Rightarrow> 'v \<Rightarrow> string \<Rightarrow> ('v \<Rightarrow> 'e + 'a) \<Rightarrow> ('a \<Rightarrow> 'e + 'b) \<Rightarrow> 'e + 'b" where
  "read_field vs v name conv k =
     bind_sum (required_field vs v name) (\<lambda>x. bind_sum (conv x) k)"

text \<open>A number up to \<open>bound\<close>, or a text that is one.\<close>

definition deserialize_number_from_string :: "('v, 'e) readers \<Rightarrow> int \<Rightarrow> 'v \<Rightarrow> 'e + int" where
  "deserialize_number_from_string vs bound v =
     bind_sum (number_or_string vs v) (\<lambda>x.
       case x of
         Inl n \<Rightarrow> if 0 \<le> n \<and> n \<le> bound then Inr n else Inl (custom vs ''invalid value'')
       | Inr s \<Rightarrow> (case parse_int 0 bound s of
           None \<Rightarrow> Inl (custom vs ''invalid digit'') | Some n \<Rightarrow> Inr n))"

definition deserialize_key_secret :: "('v, 'e) readers \<Rightarrow> 'v \<Rightarrow> 'e + string" where
  "deserialize_key_secret vs v =
     bind_sum (as_string vs v) (\<lambda>secret.
       if length secret < 32 then Inl (custom vs ''Secret string must be at least 32 bytes long'')
       else Inr secret)"

definition u16_of :: "('v, 'e) readers \<Rightarrow> 'v \<Rightarrow> 'e + u16" where
  "u16_of vs v = bind_sum (deserialize_number_from_string vs 65535 v) (\<lambda>n. Inr (word_of_int n))"

definition usize_of :: "('v, 'e) readers \<Rightarrow> 'v \<Rightarrow> 'e + nat" where
  "usize_of vs v =
     bind_sum (deserialize_number_from_string vs (2 ^ 64 - 1) v) (\<lambda>n. Inr (nat n))"

definition TelegramSettings_deserialize :: "('v, 'e) readers \<Rightarrow> 'v \<Rightarrow> 'e + TelegramSettings" where
  "TelegramSettings_deserialize vs v =
     read_field vs v ''token'' (as_string vs) (\<lambda>token. Inr \<lparr>tg_token = token\<rparr>)"

definition LdapSettings_deserialize :: "('v, 'e) readers \<Rightarrow> 'v \<Rightarrow> 'e + LdapSettings" where
  "LdapSettings_deserialize vs v =
     read_field vs v ''url'' (as_string vs) (\<lambda>url.
     read_field vs v ''use_tls'' (as_bool vs) (\<lambda>use_tls.
     read_field vs v ''no_tls_verify'' (as_bool vs) (\<lambda>no_tls_verify.
     read_field vs v ''login'' (as_string vs) (\<lambda>login.
     read_field vs v ''password'' (as_string vs) (\<lambda>password.
     read_field vs v ''users_query'' (as_string vs) (\<lambda>users_query.
     read_field vs v ''reconnect_interval'' (as_duration vs) (\<lambda>reconnect_interval.
       Inr \<lparr>ldap_url = url, ldap_use_tls = use_tls, ldap_no_tls_verify = no_tls_verify,
         ldap_login = login, ldap_password = password, ldap_users_query = users_query,
         ldap_reconnect_interval = reconnect_interval\<rparr>)))))))"

definition AppSettings_deserialize :: "('v, 'e) readers \<Rightarrow> 'v \<Rightarrow> 'e + AppSettings" where
  "AppSettings_deserialize vs v =
     read_field vs v ''host'' (as_ip vs) (\<lambda>host.
     read_field vs v ''port'' (u16_of vs) (\<lambda>port.
     read_field vs v ''lease_limit'' (usize_of vs) (\<lambda>lease_limit.
     read_field vs v ''api_token_limit'' (usize_of vs) (\<lambda>api_token_limit.
     read_field vs v ''hmac_secret'' (deserialize_key_secret vs) (\<lambda>hmac_secret.
     bind_sum (case field vs v ''mcp_allowed_hosts'' of None \<Rightarrow> Inr [] | Some x \<Rightarrow> as_strings vs x)
       (\<lambda>mcp_allowed_hosts.
       Inr \<lparr>app_host = host, app_port = port, app_lease_limit = lease_limit,
         app_api_token_limit = api_token_limit, app_hmac_secret = hmac_secret,
         app_mcp_allowed_hosts = mcp_allowed_hosts\<rparr>))))))"

definition DatabaseSettings_deserialize :: "('v, 'e) readers \<Rightarrow> 'v \<Rightarrow> 'e + DatabaseSettings" where
  "DatabaseSettings_deserialize vs v =
     read_field vs v ''username'' (as_string vs) (\<lambda>username.
     read_field vs v ''password'' (as_string vs) (\<lambda>password.
     read_field vs v ''port'' (u16_of vs) (\<lambda>port.
     read_field vs v ''host'' (as_string vs) (\<lambda>host.
     read_field vs v ''database_name'' (as_string vs) (\<lambda>database_name.
     read_field vs v ''require_ssl'' (as_bool vs) (\<lambda>require_ssl.
       Inr \<lparr>db_username = username, db_password = password, db_port = port, db_host = host,
         db_database_name = database_name, db_require_ssl = require_ssl\<rparr>))))))"

definition Settings_deserialize :: "('v, 'e) readers \<Rightarrow> 'v \<Rightarrow> 'e + Settings" where
  "Settings_deserialize vs v =
     read_field vs v ''database'' (DatabaseSettings_deserialize vs) (\<lambda>database.
     read_field vs v ''ldap'' (LdapSettings_deserialize vs) (\<lambda>ldap.
     read_field vs v ''app'' (AppSettings_deserialize vs) (\<lambda>app.
     bind_sum (case field vs v ''telegram'' of
         None \<Rightarrow> Inr None
       | Some x \<Rightarrow> bind_sum (TelegramSettings_deserialize vs x) (\<lambda>t. Inr (Some t))) (\<lambda>telegram.
       Inr \<lparr>database_settings = database, ldap_settings = ldap, app_settings = app,
         telegram_settings = telegram\<rparr>))))"

section \<open>Options made from the settings\<close>

datatype LdapConnSettings = LdapConnSettings (conn_no_tls_verify: bool) (conn_starttls: bool)

definition LdapConnSettings_from :: "LdapSettings \<Rightarrow> LdapConnSettings" where
  "LdapConnSettings_from val = LdapConnSettings (ldap_no_tls_verify val) (ldap_use_tls val)"

definition socket_addr :: "AppSettings \<Rightarrow> IpAddr \<times> u16" where
  "socket_addr s = (app_host s, app_port s)"

datatype PgSslMode = Require | Prefer

record PgConnectOptions =
  pg_username :: string
  pg_password :: string
  pg_host :: string
  pg_ssl_mode :: PgSslMode
  pg_port :: u16
  pg_database :: "string option"
  pg_trace_statements :: bool

definition without_db :: "DatabaseSettings \<Rightarrow> PgConnectOptions" where
  "without_db s = \<lparr>pg_username = db_username s, pg_password = db_password s, pg_host = db_host s,
     pg_ssl_mode = (if db_require_ssl s then Require else Prefer), pg_port = db_port s,
     pg_database = None, pg_trace_statements = False\<rparr>"

definition with_db :: "DatabaseSettings \<Rightarrow> PgConnectOptions" where
  "with_db s = (without_db s)\<lparr>pg_database := Some (db_database_name s), pg_trace_statements := True\<rparr>"

section \<open>The profile and its files\<close>

datatype Environment = Local | Production

definition Environment_as_str :: "Environment \<Rightarrow> string" where
  "Environment_as_str e = (case e of Local \<Rightarrow> ''local'' | Production \<Rightarrow> ''production'')"

text \<open>
  \<open>to_lowercase\<close> on the ASCII letters. Of the other characters none has a lower case that occurs in
  the names of the profiles, so that they only matter for the text of the error.
\<close>

definition ascii_lowercase :: "char \<Rightarrow> char" where
  "ascii_lowercase c =
     (if of_char c \<ge> (65::nat) \<and> of_char c \<le> (90::nat) then char_of (of_char c + (32::nat)) else c)"

definition Environment_try_from :: "string \<Rightarrow> string + Environment" where
  "Environment_try_from val =
     (let other = map ascii_lowercase val
      in if other = ''local'' then Inr Local
         else if other = ''production'' then Inr Production
         else Inl (''Unsupported environment type: '' @ other @ ''. Use `local` or `production`''))"

datatype source = File string bool | EnvironmentVariables string

text \<open>\<open>PathBuf::join\<close> with a relative name.\<close>

definition path_join :: "string \<Rightarrow> string \<Rightarrow> string" where
  "path_join dir name =
     (if dir = [] \<or> last dir = CHR ''/'' then dir @ name else dir @ ''/'' @ name)"

definition config_sources :: "string \<Rightarrow> Environment \<Rightarrow> source list" where
  "config_sources dir e =
     [File (path_join dir ''base'') True, File (path_join dir (Environment_as_str e)) True,
      EnvironmentVariables ''app'']"

text \<open>
  \<open>var\<close> reads an environment variable, \<open>load\<close> is \<open>build\<close> of the \<open>config\<close> crate.
\<close>

definition get_config ::
  "(string \<Rightarrow> string option) \<Rightarrow> (source list \<Rightarrow> 'e + 'v) \<Rightarrow> ('v, 'e) readers \<Rightarrow>
   (Settings, 'e) outcome" where
  "get_config var load vs =
     (case Environment_try_from (case var ''APP_ENVIRONMENT'' of None \<Rightarrow> ''local'' | Some e \<Rightarrow> e) of
        Inl _ \<Rightarrow> Panic
      | Inr environment \<Rightarrow>
          (let config_dir = (case var ''CONFIG_DIR'' of
                 Some dir \<Rightarrow> dir
               | None \<Rightarrow> (case environment of Local \<Rightarrow> ''configuration'' | Production \<Rightarrow> ''/etc/tachikoma''))
           in case bind_sum (load (config_sources config_dir environment)) (Settings_deserialize vs) of
                Inl e \<Rightarrow> Err e
              | Inr settings \<Rightarrow> Ok settings))"

section \<open>What is accepted\<close>

lemma Environment_roundtrip: "Environment_try_from (Environment_as_str e) = Inr e"
  by (cases e) (simp_all add: Environment_try_from_def Environment_as_str_def, code_simp+)

lemma deserialize_number_bounds:
  assumes "deserialize_number_from_string vs bound v = Inr n"
  shows "0 \<le> n \<and> n \<le> bound"
proof -
  obtain x where x: "(case x of
         Inl n \<Rightarrow> if 0 \<le> n \<and> n \<le> bound then Inr n else Inl (custom vs ''invalid value'')
       | Inr s \<Rightarrow> (case parse_int 0 bound s of
           None \<Rightarrow> Inl (custom vs ''invalid digit'') | Some n \<Rightarrow> Inr n)) = Inr n"
    using assms by (auto simp: deserialize_number_from_string_def)
  show ?thesis
    using x by (cases x) (auto split: if_splits option.splits dest: parse_int_bounds)
qed

lemma accepted_app_settings:
  assumes "AppSettings_deserialize vs v = Inr a"
  shows "32 \<le> length (app_hmac_secret a) \<and> app_lease_limit a < 2 ^ 64 \<and>
    app_api_token_limit a < 2 ^ 64"
  using assms
  by (auto simp: AppSettings_deserialize_def read_field_def deserialize_key_secret_def usize_of_def
      dest!: deserialize_number_bounds split: if_splits)

lemma accepted_settings:
  assumes "Settings_deserialize vs v = Inr s"
  obtains w where "AppSettings_deserialize vs w = Inr (app_settings s)"
  using assms by (auto simp: Settings_deserialize_def read_field_def)

end
