(* ===== verification/Startup.thy ===== *)
theory Startup
  imports Config System_Props
begin

text \<open>
  How the program comes up, \<open>src/src/bin/tachikoma.rs\<close> and \<open>Application::build\<close> of
  \<open>src/src/web/mod.rs\<close>: from the configuration to the state of the web layer and the tasks that
  run side by side. The libraries that are asked on the way are parameters.
\<close>

section \<open>What is asked on the way\<close>

text \<open>
  \<open>connect_pool\<close> knows the number of the connection; \<open>env_file\<close> is the content of the file \<open>.env\<close>,
  when there is one, as the dotenv library parses it; \<open>client_from_env\<close> whether the HTTP client of
  the bot library can be made in an environment, which by its documentation fails, with a panic, when
  \<open>TELOXIDE_PROXY\<close> is set to a malformed address.
\<close>

record ('k, 'a) outside =
  env_var :: "string \<Rightarrow> string option"
  env_file :: "(anyhow_error + (string \<times> string) list) option"
  parse_filter :: "string \<Rightarrow> bool"
  connect_pool :: "nat \<Rightarrow> PgConnectOptions \<Rightarrow> anyhow_error + unit"
  migrate :: "anyhow_error + unit"
  client_from_env :: "(string \<Rightarrow> string option) \<Rightarrow> bool"
  get_me :: "string \<Rightarrow> anyhow_error + string option"
  derive_key :: "string \<Rightarrow> 'k option"
  bind_listener :: "IpAddr \<times> u16 \<Rightarrow> anyhow_error + 'a"

text \<open>A variable of the file counts only if the process does not have it; the first line wins.\<close>

definition set_env :: "('k, 'a) outside \<Rightarrow> (string \<Rightarrow> string option, unit) outcome" where
  "set_env out =
     (case env_file out of
        None \<Rightarrow> Ok (env_var out)
      | Some (Inl e) \<Rightarrow> Panic
      | Some (Inr vars) \<Rightarrow>
          Ok (\<lambda>v. case env_var out v of Some x \<Rightarrow> Some x | None \<Rightarrow> map_of vars v))"

record tracing =
  span_events :: bool
  tracing_filter :: string

definition init_tracing ::
  "('k, 'a) outside \<Rightarrow> (string \<Rightarrow> string option) \<Rightarrow> (tracing, unit) outcome" where
  "init_tracing out var =
     (let events = (case var ''INCLUDE_SPAN_EVENTS'' of
            None \<Rightarrow> False | Some v \<Rightarrow> map ascii_lowercase v = ''true'');
          chosen = (case var ''RUST_LOG'' of
            None \<Rightarrow> ''info'' | Some f \<Rightarrow> if parse_filter out f then f else ''info'')
      in if parse_filter out chosen then Ok \<lparr>span_events = events, tracing_filter = chosen\<rparr> else Panic)"

definition run_migrations :: "('k, 'a) outside \<Rightarrow> DatabaseSettings \<Rightarrow> anyhow_error + unit" where
  "run_migrations out settings =
     (case connect_pool out 0 (with_db settings) of Inl e \<Rightarrow> Inl e | Inr _ \<Rightarrow> migrate out)"

definition Registry_new :: "('k, 'a) outside \<Rightarrow> DatabaseSettings \<Rightarrow> anyhow_error + unit" where
  "Registry_new out settings = connect_pool out 1 (with_db settings)"

section \<open>The application\<close>

text \<open>
  \<open>parts\<close> carries what the program does not decide: the servers, the digest, the order of hash
  sets; the rest of the state comes from the settings.
\<close>

definition build_state :: "AppState \<Rightarrow> Settings \<Rightarrow> string option \<Rightarrow> AppState" where
  "build_state parts settings auth_link = parts
     \<lparr>hosts_service := \<lparr>lease_limit = app_lease_limit (app_settings settings)\<rparr>,
      api_tokens_service := \<lparr>api_token_limit = app_api_token_limit (app_settings settings)\<rparr>,
      app_auth_link := auth_link, app_version := ''1.0.2'',
      app_directory := (app_directory parts)
        \<lparr>users_query := ldap_users_query (ldap_settings settings)\<rparr>\<rparr>"

record ('k, 'a) application =
  app_state :: AppState
  flash_key :: 'k
  mcp_policy :: McpHostPolicy
  listening_addr :: 'a

definition build ::
  "('k, 'a) outside \<Rightarrow> AppState \<Rightarrow> Settings \<Rightarrow> string option \<Rightarrow>
   (('k, 'a) application, anyhow_error) outcome" where
  "build out parts settings auth_link =
     (case derive_key out (app_hmac_secret (app_settings settings)) of
        None \<Rightarrow> Panic
      | Some key \<Rightarrow> (case bind_listener out (socket_addr (app_settings settings)) of
          Inl e \<Rightarrow> Err e
        | Inr addr \<Rightarrow> Ok \<lparr>app_state = build_state parts settings auth_link, flash_key = key,
            mcp_policy = resolve_mcp_host_policy (app_mcp_allowed_hosts (app_settings settings)),
            listening_addr = addr\<rparr>))"

section \<open>The program\<close>

datatype task = ServerTask | UsersInfoTask | ReleaseTimerTask | BotTask

text \<open>The bot is known by its token.\<close>

definition from_config ::
  "('k, 'a) outside \<Rightarrow> (string \<Rightarrow> string option) \<Rightarrow> TelegramSettings \<Rightarrow> (string, anyhow_error) outcome" where
  "from_config out var config = (if client_from_env out var then Ok (tg_token config) else Panic)"

definition start_bot ::
  "('k, 'a) outside \<Rightarrow> (string \<Rightarrow> string option) \<Rightarrow> TelegramSettings option \<Rightarrow>
   (string option, anyhow_error) outcome" where
  "start_bot out var conf =
     (case conf of
        None \<Rightarrow> Ok None
      | Some telegram_conf \<Rightarrow> (case from_config out var telegram_conf of
          Ok tg_bot \<Rightarrow> (case get_me out tg_bot of
            Inl e \<Rightarrow> Err (Context ''Unable to get bot username'' e)
          | Inr None \<Rightarrow> Err (Message (''Bot hasn'' @ [CHR 0x27] @ ''t username?!''))
          | Inr (Some username) \<Rightarrow> Ok (Some username))
        | Err e \<Rightarrow> Err e
        | Panic \<Rightarrow> Panic))"

definition started_tasks :: "string option \<Rightarrow> task list" where
  "started_tasks tg_bot =
     [ServerTask, UsersInfoTask, ReleaseTimerTask] @ (if tg_bot = None then [] else [BotTask])"

definition main_startup ::
  "(string \<Rightarrow> string option) \<Rightarrow> (source list \<Rightarrow> 'e + 'v) \<Rightarrow> ('v, 'e) readers \<Rightarrow>
   ('k, 'a) outside \<Rightarrow> AppState \<Rightarrow> (('k, 'a) application \<times> task list, anyhow_error) outcome" where
  "main_startup var load vs out parts =
     (case get_config var load vs of
        Ok settings \<Rightarrow>
          (case run_migrations out (database_settings settings) of
             Inl e \<Rightarrow> Err (Context ''Migration failed'' e)
           | Inr _ \<Rightarrow> (case Registry_new out (database_settings settings) of
             Inl e \<Rightarrow> Err e
           | Inr _ \<Rightarrow> (case start_bot out var (telegram_settings settings) of
               Ok username \<Rightarrow>
                 (case build out parts settings
                    (map_option (\<lambda>name. ''https://t.me/'' @ name) username) of
                    Ok app \<Rightarrow> Ok (app, started_tasks username)
                  | Err e \<Rightarrow> Err e
                  | Panic \<Rightarrow> Panic)
             | Err e \<Rightarrow> Err e
             | Panic \<Rightarrow> Panic)))
      | Err _ \<Rightarrow> Panic
      | Panic \<Rightarrow> Panic)"

definition main_program ::
  "(source list \<Rightarrow> (string \<Rightarrow> string option) \<Rightarrow> 'e + 'v) \<Rightarrow> ('v, 'e) readers \<Rightarrow> ('k, 'a) outside \<Rightarrow>
   AppState \<Rightarrow> (('k, 'a) application \<times> task list, anyhow_error) outcome" where
  "main_program load vs out parts =
     (case set_env out of
        Ok var \<Rightarrow> (case init_tracing out var of
          Ok _ \<Rightarrow> main_startup var (\<lambda>sources. load sources var) vs out parts
        | Err _ \<Rightarrow> Panic | Panic \<Rightarrow> Panic)
      | Err _ \<Rightarrow> Panic | Panic \<Rightarrow> Panic)"

section \<open>Properties\<close>

text \<open>
  C36: With an environment file that can be read and a configuration that is accepted the program
  panics on the way up only when a bot is configured whose HTTP client cannot be made in the
  environment (which includes the variables of the file), given that the key derivation accepts every
  secret of at least 32 bytes and the tracing library the filter \<open>info\<close>; and where it gets to the bot
  it does panic then. Once it is up it enforces the limits of the configuration, which fit their
  machine type, answers to the hosts it names, searches the configured part of the directory, and runs
  the bot exactly if one is configured.
\<close>

theorem startup_sound:
  assumes derive: "\<And>secret. 32 \<le> length secret \<Longrightarrow> derive_key out secret \<noteq> None"
    and info: "parse_filter out ''info''" and env: "set_env out = Ok var"
    and config: "get_config var (\<lambda>sources. load sources var) vs = Ok settings"
  shows "case main_program load vs out parts of
      Panic \<Rightarrow> telegram_settings settings \<noteq> None \<and> \<not> client_from_env out var
    | Err e \<Rightarrow> telegram_settings settings \<noteq> None \<and> \<not> client_from_env out var \<longrightarrow>
        (\<exists>e. run_migrations out (database_settings settings) = Inl e) \<or>
        (\<exists>e. Registry_new out (database_settings settings) = Inl e)
    | Ok (app, ts) \<Rightarrow>
        (telegram_settings settings \<noteq> None \<longrightarrow> client_from_env out var) \<and>
        lease_limit (hosts_service (app_state app)) = app_lease_limit (app_settings settings) \<and>
        api_token_limit (api_tokens_service (app_state app)) =
          app_api_token_limit (app_settings settings) \<and>
        lease_limit (hosts_service (app_state app)) < 2 ^ 64 \<and>
        users_query (app_directory (app_state app)) = ldap_users_query (ldap_settings settings) \<and>
        mcp_policy app = resolve_mcp_host_policy (app_mcp_allowed_hosts (app_settings settings)) \<and>
        (BotTask \<in> set ts \<longleftrightarrow> telegram_settings settings \<noteq> None) \<and>
        (app_auth_link (app_state app) = None \<longleftrightarrow> telegram_settings settings = None)"
proof -
  obtain v where "Settings_deserialize vs v = Inr settings"
    using config by (auto simp: get_config_def Let_def bind_sum_def split: sum.splits)
  then obtain w where "AppSettings_deserialize vs w = Inr (app_settings settings)"
    by (rule accepted_settings)
  note app = accepted_app_settings [OF this]
  obtain key where key: "derive_key out (app_hmac_secret (app_settings settings)) = Some key"
    using derive app by blast
  have bot: "start_bot out var (telegram_settings settings) = Ok u \<Longrightarrow>
      (u = None \<longleftrightarrow> telegram_settings settings = None) \<and>
      (telegram_settings settings \<noteq> None \<longrightarrow> client_from_env out var)"
    "start_bot out var (telegram_settings settings) = Err e \<Longrightarrow> client_from_env out var"
    "start_bot out var (telegram_settings settings) = Panic \<Longrightarrow>
      telegram_settings settings \<noteq> None \<and> \<not> client_from_env out var" for u e
    by (auto simp: start_bot_def from_config_def split: option.splits sum.splits if_splits)
  have "\<exists>tr. init_tracing out var = Ok tr"
    using info by (auto simp: init_tracing_def Let_def split: option.split)
  then have "main_program load vs out parts = main_startup var (\<lambda>sources. load sources var) vs out parts"
    using env by (auto simp: main_program_def)
  then show ?thesis
    using app key
    by (auto simp: main_startup_def config build_def build_state_def started_tasks_def
        dest: bot split: sum.split outcome.split)
qed

text \<open>A configuration whose values are named by their paths.\<close>

definition path_readers :: "(string, string) readers" where
  "path_readers = \<lparr>field = (\<lambda>v name. Some (v @ ''.'' @ name)), as_string = (\<lambda>v. Inr (replicate 40 CHR ''k'')),
     as_bool = (\<lambda>v. Inr True), as_ip = (\<lambda>v. Inr (V4 0)), as_duration = (\<lambda>v. Inr second),
     as_strings = (\<lambda>v. Inr [''*'']), number_or_string = (\<lambda>v. Inr (Inl 10)), custom = id\<rparr>"

definition fine_outside :: "(string, nat) outside" where
  "fine_outside = \<lparr>env_var = (\<lambda>v. None), env_file = Some (Inr [(''RUST_LOG'', ''debug'')]),
     parse_filter = (\<lambda>f. True), connect_pool = (\<lambda>n opts. Inr ()), migrate = Inr (),
     client_from_env = (\<lambda>var. var ''TELOXIDE_PROXY'' = None),
     get_me = (\<lambda>t. Inr (Some ''tachikoma_bot'')),
     derive_key = (\<lambda>s. if length s < 32 then None else Some s), bind_listener = (\<lambda>a. Inr 0)\<rparr>"

definition path_config :: "(Settings, string) outcome" where
  "path_config = get_config (map_of [(''RUST_LOG'', ''debug'')]) (\<lambda>s. Inr ''root'') path_readers"

theorem startup_sound_witness:
  "\<exists>settings app ts. path_config = Ok settings \<and>
     main_program (\<lambda>s var. Inr ''root'') path_readers fine_outside (sample_app sample_env) = Ok (app, ts) \<and>
     BotTask \<in> set ts \<and> lease_limit (hosts_service (app_state app)) = 10"
proof -
  let ?main = "main_program (\<lambda>s var. Inr ''root'') path_readers fine_outside (sample_app sample_env)"
  have "case path_config of Ok s \<Rightarrow> app_lease_limit (app_settings s) = 10 \<and> telegram_settings s \<noteq> None
      | _ \<Rightarrow> False" by code_simp
  then obtain settings where config: "path_config = Ok settings" "app_lease_limit (app_settings settings) = 10"
    "telegram_settings settings \<noteq> None"
    by (auto split: outcome.splits)
  have "case ?main of Ok _ \<Rightarrow> True | _ \<Rightarrow> False" by code_simp
  then obtain app ts where main: "?main = Ok (app, ts)" by (auto split: outcome.splits)
  have "derive_key fine_outside secret \<noteq> None" if "32 \<le> length secret" for secret
    using that by (simp add: fine_outside_def)
  moreover have "parse_filter fine_outside ''info''"
    "set_env fine_outside = Ok (map_of [(''RUST_LOG'', ''debug'')])" by (auto simp: fine_outside_def set_env_def)
  ultimately show ?thesis
    using startup_sound [where load = "\<lambda>s var. Inr ''root''" and parts = "sample_app sample_env",
        OF _ _ _ config(1) [unfolded path_config_def], of fine_outside] config main
    by (simp add: path_config_def)
qed

end
