(* ===== verification/Disclosure.thy ===== *)
theory Disclosure
  imports System_Props
begin

text \<open>
  What the answers of the web layer disclose. A user row holds details that are nobody else's
  business: the directory name, the Telegram chat and the link code, which proves to the bot who one
  is; so do the name and the date of a token. \<open>visible us\<close> blanks them for all but the users \<open>us\<close>. A
  call is \<open>oblivious\<close> of what is blanked when it does on the blanked state what it does on the state
  itself, up to a conversion \<open>f\<close> of its result; the rules follow the combinators.
\<close>

section \<open>What is visible\<close>

definition hide_user :: "UserId set \<Rightarrow> User \<Rightarrow> User" where
  "hide_user us u = (if u_id u \<in> us then u else u\<lparr>u_dn := [], u_tg_handle := None, u_link := []\<rparr>)"

definition hide_token :: "UserId set \<Rightarrow> ApiToken \<Rightarrow> ApiToken" where
  "hide_token us k = (if t_user_id k \<in> us then k else k\<lparr>t_name := None, t_created_at := 0\<rparr>)"

definition visible :: "UserId set \<Rightarrow> database \<Rightarrow> database" where
  "visible us d = d\<lparr>users_t := map (hide_user us) (users_t d),
     api_tokens_t := map (hide_token us) (api_tokens_t d)\<rparr>"

definition visible_pg :: "UserId set \<Rightarrow> pg \<Rightarrow> pg" where
  "visible_pg us s = s\<lparr>committed := visible us (committed s), working := visible us (working s)\<rparr>"

definition visible_to :: "UserId set \<Rightarrow> 'z world_scheme \<Rightarrow> 'z world_scheme" where
  "visible_to us w = w\<lparr>db := visible_pg us (db w)\<rparr>"

definition hide_leased :: "UserId set \<Rightarrow> LeasedHost \<Rightarrow> LeasedHost" where
  "hide_leased us l = l\<lparr>lh_user := hide_user us (lh_user l)\<rparr>"

definition hide_listing :: "UserId set \<Rightarrow> HostListing \<Rightarrow> HostListing" where
  "hide_listing us l =
     (case hl_user_id l of
        Some u \<Rightarrow> if u \<in> us then l
          else l\<lparr>hl_dn := map_option (\<lambda>_. []) (hl_dn l), hl_tg_handle := None,
                 hl_link := map_option (\<lambda>_. []) (hl_link l)\<rparr>
      | None \<Rightarrow> l)"

lemma hide_simps [simp]:
  "u_id (hide_user us u) = u_id u" "u_email (hide_user us u) = u_email u"
  "t_id (hide_token us k) = t_id k" "t_user_id (hide_token us k) = t_user_id k"
  "t_token_hash (hide_token us k) = t_token_hash k"
  "lh_id (hide_leased us l) = lh_id l" "lh_user (hide_leased us l) = hide_user us (lh_user l)"
  "u_id u \<in> us \<Longrightarrow> hide_user us u = u" "t_user_id k \<in> us \<Longrightarrow> hide_token us k = k"
  by (simp_all add: hide_user_def hide_token_def hide_leased_def)

lemma visible_simps [simp]:
  "users_t (visible us d) = map (hide_user us) (users_t d)"
  "api_tokens_t (visible us d) = map (hide_token us) (api_tokens_t d)"
  "groups_t (visible us d) = groups_t d" "hosts_t (visible us d) = hosts_t d"
  "lease_limits_t (visible us d) = lease_limits_t d" "user_ids (visible us d) = user_ids d"
  by (simp_all add: visible_def user_ids_def image_image)

lemma hide_comp [simp]:
  "u_id \<circ> hide_user us = u_id" "lh_id \<circ> hide_leased us = lh_id"
  "t_id ` hide_token us ` S = t_id ` S" "t_token_hash ` hide_token us ` S = t_token_hash ` S"
  by (auto simp: image_image)

lemma hide_option [simp]:
  "map_option t_user_id (map_option (hide_token us) x) = map_option t_user_id x"
  by (cases x) simp_all

section \<open>Oblivious calls\<close>

definition oblivious ::
  "('s \<Rightarrow> 's) \<Rightarrow> ('a \<Rightarrow> 'b) \<Rightarrow> ('s, 'a, 'e) io \<Rightarrow> ('s, 'b, 'e) io \<Rightarrow> 's \<Rightarrow> bool" where
  "oblivious v f m m' s \<longleftrightarrow> m' (v s) = map_prod (map_outcome f id) v (m s)"

named_theorems oblivious_intros "calls that do not look at what is hidden"

lemma oblivious_basic [oblivious_intros]:
  "oblivious v id (return x) (return x) s" "oblivious v f (throw e) (throw e) s"
  "oblivious v f panic panic s" "oblivious v id (unwrap y) (unwrap y) s"
  by (simp_all add: oblivious_def io_defs split: option.split)

lemma oblivious_return: "y = f x \<Longrightarrow> oblivious v f (return x) (return y) s"
  by (simp add: oblivious_def io_defs)

lemma oblivious_qmark [oblivious_intros]:
  assumes "oblivious v f m m' s"
    and "\<And>x t. m s = (Ok x, t) \<Longrightarrow> oblivious v g (k x) (k' (f x)) t"
  shows "oblivious v g (qmark h m k) (qmark h m' k') s"
  using assms
  by (cases "m s"; cases "fst (m s)") (auto simp: oblivious_def qmark_def)

lemma oblivious_handle [oblivious_intros]:
  assumes "oblivious v f m m' s"
    and "\<And>x t. m s = (Ok x, t) \<Longrightarrow> oblivious v g (k (Inr x)) (k' (Inr (f x))) t"
    and "\<And>e t. m s = (Err e, t) \<Longrightarrow> oblivious v g (k (Inl e)) (k' (Inl e)) t"
  shows "oblivious v g (handle m k) (handle m' k') s"
  using assms
  by (cases "m s"; cases "fst (m s)") (auto simp: oblivious_def handle_def)

lemma oblivious_cases [oblivious_intros]:
  "(b \<Longrightarrow> oblivious v f m m' s) \<Longrightarrow> (\<not> b \<Longrightarrow> oblivious v f n n' s) \<Longrightarrow>
   oblivious v f (if b then m else n) (if b then m' else n') s"
  "(x = None \<Longrightarrow> oblivious v f m m' s) \<Longrightarrow>
   (\<And>a. x = Some a \<Longrightarrow> oblivious v f (k a) (k' a) s) \<Longrightarrow>
   oblivious v f (case x of None \<Rightarrow> m | Some a \<Rightarrow> k a) (case x of None \<Rightarrow> m' | Some a \<Rightarrow> k' a) s"
  "(\<And>e. y = Inl e \<Longrightarrow> oblivious v f (p e) (p' e) s) \<Longrightarrow>
   (\<And>a. y = Inr a \<Longrightarrow> oblivious v f (q a) (q' a) s) \<Longrightarrow>
   oblivious v f (case y of Inl e \<Rightarrow> p e | Inr a \<Rightarrow> q a) (case y of Inl e \<Rightarrow> p' e | Inr a \<Rightarrow> q' a) s"
  by (simp_all split: option.split sum.split)

section \<open>Statements\<close>

lemma oblivious_tx [oblivious_intros]:
  "oblivious (visible_pg us) id (begin_tx srv) (begin_tx srv) s"
  "oblivious (visible_pg us) id (commit_tx srv) (commit_tx srv) s"
  by (simp_all add: oblivious_def begin_tx_def commit_tx_def visible_pg_def Let_def split: reply.split)

lemma oblivious_query:
  assumes "\<And>n d. q' n (visible us d) = map_outcome f id (q n d)"
  shows "oblivious (visible_pg us) f (query srv q) (query srv q') s"
  by (simp add: oblivious_def query_def stmt_def visible_pg_def Let_def assms split: reply.split)

lemma oblivious_execute:
  assumes "\<And>d. F (visible us d) = map_outcome (visible us) id (F d)"
  shows "oblivious (visible_pg us) id (execute srv F) (execute srv F) s"
  by (simp add: oblivious_def execute_def stmt_def visible_pg_def Let_def assms
      split: reply.split outcome.split)

text \<open>Joins and selections meet the blanked rows where they met the rows.\<close>

lemma find_map_same: "(\<And>x. P (f x) = P x) \<Longrightarrow> find P (map f xs) = map_option f (find P xs)"
  by (induction xs) simp_all

lemma sort_key_map_same:
  assumes "\<And>x. k (f x) = k' x"
  shows "sort_key k (map f xs) = map f (sort_key k' xs)"
proof -
  have "insort_key k (f x) (map f ys) = map f (insort_key k' x ys)" for x ys
    using assms by (induction ys) simp_all
  then show ?thesis by (induction xs) simp_all
qed

lemma find_hidden [simp]:
  "find (\<lambda>u. u_id u = i) (map (hide_user us) xs) = map_option (hide_user us) (find (\<lambda>u. u_id u = i) xs)"
  "find (\<lambda>u. j = Some (u_id u)) (map (hide_user us) xs) =
     map_option (hide_user us) (find (\<lambda>u. j = Some (u_id u)) xs)"
  "find (\<lambda>k. t_token_hash k = h) (map (hide_token us) ks) =
     map_option (hide_token us) (find (\<lambda>k. t_token_hash k = h) ks)"
  by (rule find_map_same, simp)+

lemma join_hidden [simp]:
  "join_users (visible us d) hs = map (\<lambda>(h, u). (h, hide_user us u)) (join_users d hs)"
  by (simp add: join_users_def map_concat filter_map o_def)

lemma decode_hidden [simp]:
  "decode_LeasedHost (h, hide_user us u) = map_option (hide_leased us) (decode_LeasedHost (h, u))"
  by (simp add: decode_LeasedHost_def hide_leased_def split: option.split)

lemma decode_all_hidden [simp]:
  "decode_LeasedHosts (map (\<lambda>(h, u). (h, hide_user us u)) rows) =
     map_outcome (map (hide_leased us)) id (decode_LeasedHosts rows)"
proof -
  have "those (map decode_LeasedHost (map (\<lambda>(h, u). (h, hide_user us u)) rows)) =
      map_option (map (hide_leased us)) (those (map decode_LeasedHost rows))"
    by (induction rows) (auto simp: option.map_comp o_def split: option.split)
  then show ?thesis by (simp add: decode_LeasedHosts_def split: option.split)
qed

lemma listing_hidden [simp]:
  "left_join_user (visible us d) h = map_option (hide_user us) (left_join_user d h)"
  "listing_row (visible us d) h (map_option (hide_user us) x) = hide_listing us (listing_row d h x)"
  "map_option u_email (map_option (hide_user us) x) = map_option u_email x"
  by (cases x; simp add: left_join_user_def listing_row_def hide_listing_def hide_user_def)+

lemma oblivious_host_queries [oblivious_intros]:
  "oblivious (visible_pg us) id (tx_get_all_hosts srv) (tx_get_all_hosts srv) s"
  "oblivious (visible_pg us) id (tx_get_available_group_hosts srv g) (tx_get_available_group_hosts srv g) s"
  "oblivious (visible_pg us) id (tx_get_first_available_group_host srv g)
     (tx_get_first_available_group_host srv g) s"
  "oblivious (visible_pg us) id (tx_get_groups srv) (tx_get_groups srv) s"
  "oblivious (visible_pg us) id (tx_get_ad_groups_lease_limits srv gs) (tx_get_ad_groups_lease_limits srv gs) s"
  unfolding tx_query_defs by (rule oblivious_query, simp)+

lemma oblivious_leased [oblivious_intros]:
  "oblivious (visible_pg us) (map (hide_leased us)) (tx_get_leased_hosts srv u) (tx_get_leased_hosts srv u) s"
  "oblivious (visible_pg us) (hide_leased us) (tx_get_leased_host srv i) (tx_get_leased_host srv i) s"
  "oblivious (visible_pg us) (map (hide_listing us)) (tx_get_hosts_filtered srv email g)
     (tx_get_hosts_filtered srv email g) s"
  subgoal unfolding tx_query_defs by (rule oblivious_query) simp
  subgoal unfolding tx_query_defs
    by (rule oblivious_query) (auto simp: fetch_one_def first_row_def decode_hidden split: list.split option.split)
  subgoal unfolding tx_query_defs by (rule oblivious_query) simp
  done

lemma oblivious_users [oblivious_intros]:
  "i \<in> us \<Longrightarrow> oblivious (visible_pg us) id (tx_get_user_by_id srv i) (tx_get_user_by_id srv i) s"
  "oblivious (visible_pg us) (map (hide_user us)) (tx_get_all_users srv) (tx_get_all_users srv) s"
  subgoal unfolding tx_query_defs
    by (rule oblivious_query) (auto intro!: option.map_ident_strong dest: find_SomeD)
  subgoal unfolding tx_query_defs by (rule oblivious_query) (simp add: scan_users_def sort_key_map_same)
  done

lemma oblivious_host_updates [oblivious_intros]:
  "oblivious (visible_pg us) id (tx_lease_hosts srv u is until) (tx_lease_hosts srv u is until) s"
  "oblivious (visible_pg us) id (tx_free_hosts_for_user srv is u) (tx_free_hosts_for_user srv is u) s"
  "oblivious (visible_pg us) id (tx_free_all srv u) (tx_free_all srv u) s"
  unfolding tx_update_defs
  by (rule oblivious_execute, simp add: assign_hosts_def clear_hosts_def visible_def user_ids_def image_image)+

text \<open>The statements about tokens, for a user among those who see their own.\<close>

lemma visible_tokens [simp]:
  "filter (\<lambda>k. t_user_id k = u) (map (hide_token us) ks) =
     map (hide_token us) (filter (\<lambda>k. t_user_id k = u) ks)"
  by (simp add: filter_map o_def)

lemma own_tokens:
  assumes "u \<in> us"
  shows "map (hide_token us) (filter (\<lambda>k. t_user_id k = u) ks) = filter (\<lambda>k. t_user_id k = u) ks"
  using assms by (intro map_idI) auto

lemma oblivious_token_queries [oblivious_intros]:
  "u \<in> us \<Longrightarrow> oblivious (visible_pg us) id (tx_list_api_tokens_for_user srv u)
     (tx_list_api_tokens_for_user srv u) s"
  "oblivious (visible_pg us) (map_option (hide_token us)) (tx_get_api_token_by_hash srv h)
     (tx_get_api_token_by_hash srv h) s"
  unfolding tx_query_defs by (rule oblivious_query, simp add: own_tokens)+

lemma oblivious_stmt:
  assumes "\<And>n s. f n (visible_pg us s) = map_prod (map_outcome g id) (visible_pg us) (f n s)"
  shows "oblivious (visible_pg us) g (stmt srv f) (stmt srv f) s"
proof -
  have "(visible_pg us s)\<lparr>calls := n\<rparr> = visible_pg us (s\<lparr>calls := n\<rparr>)" "calls (visible_pg us s) = calls s" for n
    by (simp_all add: visible_pg_def)
  then show ?thesis
    by (simp add: oblivious_def stmt_def Let_def assms split: reply.split)
qed

lemma oblivious_token_updates [oblivious_intros]:
  assumes "u \<in> us"
  shows "oblivious (visible_pg us) id (tx_create_api_token srv u name h) (tx_create_api_token srv u name h) s"
    and "oblivious (visible_pg us) id (tx_delete_api_token_for_user srv i u)
      (tx_delete_api_token_for_user srv i u) s"
  unfolding tx_create_api_token_def tx_delete_api_token_for_user_def
  using assms
  by (rule_tac [!] oblivious_stmt) (auto simp: visible_pg_def visible_def Let_def user_ids_def image_image filter_map o_def)

section \<open>The services\<close>

lemmas visible_results = id_apply length_map map_map hide_comp  hide_option


lemma oblivious_read_only [oblivious_intros]:
  "(\<And>t. oblivious (visible_pg us) f q q' t) \<Longrightarrow>
   oblivious (visible_pg us) f (read_only srv from q) (read_only srv from q') s"
  unfolding read_only_def
  by (rule oblivious_intros oblivious_return | assumption | simp only: visible_results)+

lemma oblivious_get_lease_limit [oblivious_intros]:
  "oblivious (visible_pg us) id (hosts_get_lease_limit srv svc gs) (hosts_get_lease_limit srv svc gs) s"
  unfolding hosts_get_lease_limit_def by (rule oblivious_intros | assumption | simp only: visible_results)+

lemma oblivious_hosts_calls [oblivious_intros]:
  "oblivious (visible_pg us) id (hosts_get_all_hosts srv) (hosts_get_all_hosts srv) s"
  "oblivious (visible_pg us) id (hosts_get_available_group_hosts srv g)
     (hosts_get_available_group_hosts srv g) s"
  "oblivious (visible_pg us) (map (hide_leased us)) (hosts_get_leased_hosts srv u)
     (hosts_get_leased_hosts srv u) s"
  "oblivious (visible_pg us) (map (hide_listing us)) (hosts_get_hosts_filtered srv email gopt)
     (hosts_get_hosts_filtered srv email gopt) s"
  "oblivious (visible_pg us) (map (hide_user us)) (users_get_all_users srv) (users_get_all_users srv) s"
  "oblivious (visible_pg us) id (groups_get_all_groups srv) (groups_get_all_groups srv) s"
  "oblivious (visible_pg us) id (hosts_free srv u is) (hosts_free srv u is) s"
  "oblivious (visible_pg us) id (hosts_free_all srv u) (hosts_free_all srv u) s"
  unfolding hosts_get_all_hosts_def hosts_get_available_group_hosts_def hosts_get_leased_hosts_def
    hosts_get_hosts_filtered_def users_get_all_users_def groups_get_all_groups_def
    hosts_free_def hosts_free_all_def
  by (rule oblivious_intros oblivious_return | assumption | simp only: visible_results)+

lemma oblivious_lease [oblivious_intros]:
  "oblivious (visible_pg us) (map (hide_leased us)) (hosts_lease srv svc hash now u gs is dur)
     (hosts_lease srv svc hash now u gs is dur) s"
  unfolding hosts_lease_def Let_def
  by (rule oblivious_intros oblivious_return | assumption | simp only: visible_results)+

lemma oblivious_lease_random [oblivious_intros]:
  "oblivious (visible_pg us) (hide_leased us) (hosts_lease_random srv svc now u gs dur g)
     (hosts_lease_random srv svc now u gs dur g) s"
  unfolding hosts_lease_random_def Let_def
  by (rule oblivious_intros oblivious_return | assumption | simp only: visible_results)+

lemma oblivious_tokens_calls [oblivious_intros]:
  assumes "u \<in> us"
  shows "oblivious (visible_pg us) id (tokens_create srv tsvc sha bytes u name)
      (tokens_create srv tsvc sha bytes u name) s"
    and "oblivious (visible_pg us) id (tokens_list_for_user srv u) (tokens_list_for_user srv u) s"
    and "oblivious (visible_pg us) id (tokens_revoke srv i u) (tokens_revoke srv i u) s"
  unfolding tokens_create_def tokens_list_for_user_def tokens_revoke_def Let_def
  by (rule oblivious_intros assms | assumption | simp only: visible_results)+

lemma oblivious_find_token [oblivious_intros]:
  "oblivious (visible_pg us) id (tokens_find_user_id_by_plaintext srv sha p)
     (tokens_find_user_id_by_plaintext srv sha p) s"
  unfolding tokens_find_user_id_by_plaintext_def Let_def
  by (rule oblivious_intros oblivious_return | assumption | simp only: visible_results)+

section \<open>The web layer\<close>

lemma oblivious_in_db [oblivious_intros]:
  "oblivious (visible_pg us) f m m' (db w) \<Longrightarrow> oblivious (visible_to us) f (in_db m) (in_db m') w"
  by (cases "m (db w)") (simp add: oblivious_def in_db_def visible_to_def)

lemma oblivious_surroundings [oblivious_intros]:
  "oblivious (visible_to us) id (utc_now env) (utc_now env) w"
  "oblivious (visible_to us) id (in_ldap m) (in_ldap m) v"
  by (auto simp: oblivious_def utc_now_def in_ldap_def visible_to_def outcome.map_id split: prod.split)

text \<open>What is shown of a user is his e-mail address.\<close>

lemma shown_user [simp]:
  "LeaseInfo_from env (hide_user us u, until) = LeaseInfo_from env (u, until)"
  by (simp add: LeaseInfo_from_def)

lemma shown_conversions [simp]:
  "lease_info_of env (map_option (hide_user us) x) until = lease_info_of env x until"
  "HostInfo_from_pair env (h, map_option (hide_user us) x) = HostInfo_from_pair env (h, x)"
  "HostInfo_from_leased env (hide_leased us l) = HostInfo_from_leased env l"
proof -
  show info: "lease_info_of env (map_option (hide_user us) x) until = lease_info_of env x until"
    for env :: env and x until
    by (cases x) (simp_all add: lease_info_of_def split: option.split)
  show "HostInfo_from_pair env (h, map_option (hide_user us) x) = HostInfo_from_pair env (h, x)"
    by (simp add: HostInfo_from_pair_def info)
  show "HostInfo_from_leased env (hide_leased us l) = HostInfo_from_leased env l"
    by (simp add: HostInfo_from_leased_def hide_leased_def)
qed

lemma shown_listing [simp]: "HostInfo_from_listing env (hide_listing us l) = HostInfo_from_listing env l"
proof -
  have "listing_user (hide_listing us l) = listing_user l \<or>
      listing_user (hide_listing us l) = map_option (hide_user us) (listing_user l)"
    by (auto simp: listing_user_def hide_listing_def hide_user_def split: option.split)
  then show ?thesis
    by (auto simp: HostInfo_from_listing_def hide_listing_def split: option.split)
qed

lemma shown_with_user [simp]:
  "with_user (map (hide_user us) xs) h = (h, map_option (hide_user us) (snd (with_user xs h)))"
proof -
  have "rev (map (\<lambda>u. (u_id u, u)) (map (hide_user us) xs)) =
      map (\<lambda>(i, u). (i, hide_user us u)) (rev (map (\<lambda>u. (u_id u, u)) xs))"
    by (simp add: rev_map)
  then have "users_by_id (map (hide_user us) xs) i = map_option (hide_user us) (users_by_id xs i)" for i
    by (simp only: users_by_id_def map_of_map o_apply)
  then show ?thesis by (cases "h_user_id h") (simp_all add: with_user_def)
qed

lemma map_each_map [simp]: "map_each f (map g xs) = map_each (\<lambda>x. f (g x)) xs"
  by (induction xs) simp_all

lemma oblivious_map_each [oblivious_intros]:
  "(\<And>x w. oblivious v id (f x) (f x) w) \<Longrightarrow> oblivious v id (map_each f xs) (map_each f xs) w"
  by (induction xs arbitrary: w) (simp_all, (rule oblivious_intros | assumption | simp only: visible_results)+)

lemma oblivious_conversions [oblivious_intros]:
  "oblivious (visible_to us) id (HostInfo_from_pair env hu) (HostInfo_from_pair env hu) w"
  "oblivious (visible_to us) id (HostInfo_from_host env h) (HostInfo_from_host env h) w"
  "oblivious (visible_to us) id (HostInfo_from_leased env l) (HostInfo_from_leased env l) w"
  "oblivious (visible_to us) id (HostInfo_from_listing env hl) (HostInfo_from_listing env hl) w"
proof -
  have lease: "oblivious (visible_to us) id (LeaseInfo_from env v) (LeaseInfo_from env v) w"
    for env v and w :: "'z world_scheme"
    unfolding LeaseInfo_from_def case_prod_unfold
    by (rule oblivious_intros | simp only: visible_results)+
  have info: "oblivious (visible_to us) id (lease_info_of env x until) (lease_info_of env x until) w"
    for env x until and w :: "'z world_scheme"
    unfolding lease_info_of_def case_prod_conv
    by (rule lease oblivious_intros | simp only: visible_results)+
  show pair: "oblivious (visible_to us) id (HostInfo_from_pair env hu) (HostInfo_from_pair env hu) w"
    for env hu and w :: "'z world_scheme"
    unfolding HostInfo_from_pair_def case_prod_unfold
    by (rule info oblivious_intros | simp only: visible_results)+
  show "oblivious (visible_to us) id (HostInfo_from_host env h) (HostInfo_from_host env h) w"
    unfolding HostInfo_from_host_def by (rule pair)
  show "oblivious (visible_to us) id (HostInfo_from_leased env l) (HostInfo_from_leased env l) w"
    "oblivious (visible_to us) id (HostInfo_from_listing env hl) (HostInfo_from_listing env hl) w"
    unfolding HostInfo_from_leased_def HostInfo_from_listing_def
    by (rule lease info oblivious_intros | simp only: visible_results)+
qed

lemmas shown_results = visible_results shown_conversions shown_listing shown_with_user map_each_map
  prod.collapse

lemma with_user_parts: "HostInfo_from_pair env (h, snd (with_user xs h)) = HostInfo_from_pair env (with_user xs h)"
  by (simp add: with_user_def)

lemma oblivious_unwrap_call [oblivious_intros]:
  "oblivious v f m m' s \<Longrightarrow>
   (\<And>x t. m s = (Ok x, t) \<Longrightarrow> oblivious v g (k x) (k' (f x)) t) \<Longrightarrow>
   oblivious v g (unwrap_call m k) (unwrap_call m' k') s"
  unfolding unwrap_call_def by (rule oblivious_handle) (simp_all add: oblivious_basic)

lemma oblivious_with_form [oblivious_intros]:
  "(\<And>data w. oblivious v id (k data) (k data) w) \<Longrightarrow> oblivious v id (with_form p k) (with_form p k) s"
  unfolding with_form_def by (rule oblivious_intros | assumption)+

text \<open>The pages and the forms, for a user among those who see their own.\<close>

lemmas page_defs = get_hosts_def get_all_hosts_def web_lease_hosts_def web_lease_random_def
  web_release_hosts_def web_release_all_def tokens_page_def create_token_def revoke_token_def
  login_page_def get_hosts_json_def json_hosts_def

lemma oblivious_pages:
  assumes "app_user user \<in> us"
  shows "oblivious (visible_to us) id (get_hosts st user param cookie incoming) (get_hosts st user param cookie incoming) w"
    and "oblivious (visible_to us) id (get_all_hosts st user) (get_all_hosts st user) w"
    and "oblivious (visible_to us) id (tokens_page st user incoming) (tokens_page st user incoming) w"
  unfolding page_defs Let_def case_prod_unfold
  by (simp only: shown_results with_user_parts sum.case | rule assms oblivious_intros)+

lemma oblivious_forms:
  assumes "app_user user \<in> us"
  shows "oblivious (visible_to us) id (web_lease_hosts st user data) (web_lease_hosts st user data) w"
    and "oblivious (visible_to us) id (web_lease_random st user g data) (web_lease_random st user g data) w"
    and "oblivious (visible_to us) id (web_release_hosts st user is) (web_release_hosts st user is) w"
    and "oblivious (visible_to us) id (web_release_all st user) (web_release_all st user) w"
    and "oblivious (visible_to us) id (create_token st user bytes name) (create_token st user bytes name) w"
    and "oblivious (visible_to us) id (revoke_token st user i) (revoke_token st user i) w"
  unfolding page_defs lease_now_def lease_random_now_def back_to_hosts_def
  by (simp only: shown_results sum.case | rule assms oblivious_intros oblivious_return refl)+

lemma oblivious_serve_session:
  assumes "app_user user \<in> us"
  shows "oblivious (visible_to us) id (serve_session st e user) (serve_session st e user) w"
  unfolding serve_session_def as_answer_def
  by (cases e; simp only: session_endpoint.case;
      (simp only: shown_results | rule oblivious_pages oblivious_forms assms oblivious_intros)+)

lemma oblivious_listing_json:
  "oblivious (visible_to us) id (get_hosts_json st mail g) (get_hosts_json st mail g) w"
  unfolding page_defs
  by (simp only: shown_results sum.case | rule oblivious_intros)+

lemmas api_defs = list_groups_def list_available_hosts_def list_my_leased_hosts_def
  list_all_hosts_def api_lease_hosts_def api_lease_random_def api_release_hosts_def
  api_release_all_def json_hosts_def lease_now_def lease_random_now_def

lemma oblivious_api:
  "oblivious (visible_to us) id (list_groups st) (list_groups st) w"
  "oblivious (visible_to us) id (list_available_hosts st g) (list_available_hosts st g) w"
  "oblivious (visible_to us) id (list_my_leased_hosts st user) (list_my_leased_hosts st user) w"
  "oblivious (visible_to us) id (list_all_hosts st) (list_all_hosts st) w"
  "oblivious (visible_to us) id (api_lease_hosts st user req) (api_lease_hosts st user req) w"
  "oblivious (visible_to us) id (api_lease_random st user rreq) (api_lease_random st user rreq) w"
  "oblivious (visible_to us) id (api_release_hosts st user is) (api_release_hosts st user is) w"
  "oblivious (visible_to us) id (api_release_all st user) (api_release_all st user) w"
  unfolding api_defs
  by (simp only: shown_results with_user_parts sum.case | rule oblivious_intros)+

lemmas tool_defs = mcp_list_groups_def mcp_list_available_hosts_def mcp_list_my_leased_hosts_def
  mcp_list_all_hosts_def mcp_lease_hosts_def mcp_lease_random_host_def mcp_release_hosts_def
  mcp_release_all_hosts_def json_result_def lease_now_def lease_random_now_def try_value_def

lemma oblivious_tools:
  "oblivious (visible_to us) id (call_tool st ctx c) (call_tool st ctx c) w"
  unfolding call_tool_def tool_defs
  by (cases c; simp only: tool_call.case;
      (simp only: shown_results with_user_parts sum.case | rule oblivious_intros)+)

lemma oblivious_serve_bearer:
  "oblivious (visible_to us) id (serve_bearer st e user) (serve_bearer st e user) w"
  unfolding serve_bearer_def as_answer_def tool_answer_def
  by (cases e; simp only: bearer_endpoint.case;
      (simp only: shown_results | rule oblivious_api oblivious_tools oblivious_intros)+)

section \<open>The guards\<close>

lemma oblivious_get_user [oblivious_intros]:
  "UserId i \<in> us \<Longrightarrow> oblivious (visible_to us) id (get_user srv dir i) (get_user srv dir i) w"
  unfolding get_user_def
  by (simp only: visible_results | rule oblivious_intros | assumption)+

section \<open>Logins\<close>

text \<open>
  A person \<open>dn\<close> of the directory is expected among the users \<open>us\<close>: whoever has that name is one of
  them, and if nobody has it, so is the account that the sequence would give it; the random link
  codes of the server are new.
\<close>

definition expected :: "UserId set \<Rightarrow> server \<Rightarrow> string \<Rightarrow> pg \<Rightarrow> bool" where
  "expected us srv dn s \<longleftrightarrow> dn \<noteq> [] \<and>
     (\<forall>u \<in> set (users_t (committed s)). u_dn u = dn \<longrightarrow> u_id u \<in> us) \<and>
     (dn \<notin> u_dn ` set (users_t (committed s)) \<longrightarrow> UserId (word_of_int (users_seq s)) \<in> us \<and>
       (\<forall>n \<ge> calls s. gen_uuid srv n \<notin> insert [] (u_link ` set (users_t (committed s)))))"

lemma expected_later:
  "expected us srv dn s \<Longrightarrow> committed t = committed s \<Longrightarrow> users_seq t = users_seq s \<Longrightarrow>
   calls s \<le> calls t \<Longrightarrow> expected us srv dn t"
  by (auto simp: expected_def)

lemma hidden_attribute:
  assumes "x \<noteq> []" and "\<And>u. u \<in> set xs \<Longrightarrow> u_dn u = x \<Longrightarrow> u_id u \<in> us"
  shows "find (\<lambda>u. u_dn u = x) (map (hide_user us) xs) = find (\<lambda>u. u_dn u = x) xs"
    and "x \<in> u_dn ` hide_user us ` set xs \<longleftrightarrow> x \<in> u_dn ` set xs"
proof -
  have same: "u_dn (hide_user us u) = x \<longleftrightarrow> u_dn u = x" if "u \<in> set xs" for u
    using assms(1) assms(2) [OF that] by (auto simp: hide_user_def)
  show "find (\<lambda>u. u_dn u = x) (map (hide_user us) xs) = find (\<lambda>u. u_dn u = x) xs"
    using same assms(2) by (induction xs) auto
  have "x \<in> u_dn ` hide_user us ` set xs \<longleftrightarrow> (\<exists>u \<in> set xs. u_dn (hide_user us u) = x)" by auto
  also have "\<dots> \<longleftrightarrow> x \<in> u_dn ` set xs" using same by (auto simp: image_iff)
  finally show "x \<in> u_dn ` hide_user us ` set xs \<longleftrightarrow> x \<in> u_dn ` set xs" .
qed

lemma oblivious_stmt_at:
  assumes "f (calls s) (visible_pg us (s\<lparr>calls := Suc (calls s)\<rparr>)) =
    map_prod (map_outcome g id) (visible_pg us) (f (calls s) (s\<lparr>calls := Suc (calls s)\<rparr>))"
  shows "oblivious (visible_pg us) g (stmt srv f) (stmt srv f) s"
proof -
  have "(visible_pg us s)\<lparr>calls := n\<rparr> = visible_pg us (s\<lparr>calls := n\<rparr>)" "calls (visible_pg us s) = calls s" for n
    by (simp_all add: visible_pg_def)
  with assms show ?thesis by (simp add: oblivious_def stmt_def Let_def split: reply.split)
qed

lemma oblivious_by_dn:
  assumes "dn \<noteq> []" and "\<And>u. u \<in> set (users_t (working s)) \<Longrightarrow> u_dn u = dn \<Longrightarrow> u_id u \<in> us"
  shows "oblivious (visible_pg us) id (tx_get_user_by_dn srv dn) (tx_get_user_by_dn srv dn) s"
  unfolding tx_get_user_by_dn_def query_def
  by (rule oblivious_stmt_at) (simp add: visible_pg_def hidden_attribute(1) [OF assms] outcome.map_id)

lemma visible_append:
  "visible us (d\<lparr>users_t := users_t d @ [u]\<rparr>) =
   (visible us d)\<lparr>users_t := map (hide_user us) (users_t d) @ [hide_user us u]\<rparr>"
  by (simp add: visible_def)

lemma oblivious_add_user:
  assumes "dn \<noteq> []" "dn \<notin> u_dn ` set (users_t (working s))" "UserId (word_of_int (users_seq s)) \<in> us"
    and "gen_uuid srv (calls s) \<notin> insert [] (u_link ` set (users_t (working s)))"
  shows "oblivious (visible_pg us) id (tx_add_user srv dn tg email) (tx_add_user srv dn tg email) s"
proof -
  have "dn \<notin> u_dn ` hide_user us ` set (users_t (working s))"
    using assms(2) by (subst hidden_attribute(2) [OF assms(1)]) (auto simp: image_iff)
  moreover have "gen_uuid srv (calls s) \<notin> u_link ` hide_user us ` set (users_t (working s))"
    using assms(4) by (auto simp: hide_user_def)
  ultimately show ?thesis
    using assms(2-4) unfolding tx_add_user_def
    by (intro oblivious_stmt_at) (simp add: visible_pg_def Let_def visible_append)
qed

lemma begin_at:
  fixes w :: "'z site_scheme"
  assumes "in_db (begin_tx srv) w = (Ok x, v)"
  shows "db v = (db w)\<lparr>calls := Suc (calls (db w)), working := stored w\<rparr>"
  using assms by (auto simp: begin_tx_def Let_def elim!: in_dbE split: reply.splits)

lemma by_dn_at:
  fixes w :: "'z site_scheme"
  assumes "in_db (tx_get_user_by_dn srv dn) w = (Ok x, v)"
  shows "db v = (db w)\<lparr>calls := Suc (calls (db w))\<rparr>" "x = find (\<lambda>u. u_dn u = dn) (users_t (working (db w)))"
  using assms by (auto simp: tx_get_user_by_dn_def elim!: in_dbE query_OkE)

lemma oblivious_create_user:
  fixes w :: "'z site_scheme"
  assumes expected: "expected us srv (ad_dn info) (db w)"
    and new: "ad_dn info \<notin> u_dn ` set (users_t (stored w))"
  shows "oblivious (visible_to us) id (create_user srv info) (create_user srv info) w"
  unfolding create_user_def
proof (rule oblivious_qmark [OF oblivious_in_db [OF oblivious_tx(1)]])
  fix x v
  assume "in_db (begin_tx srv) w = (Ok x, v)"
  note v = begin_at [OF this]
  have dn: "ad_dn info \<noteq> []" and id: "UserId (word_of_int (users_seq (db w))) \<in> us"
    and links: "\<And>n. n \<ge> calls (db w) \<Longrightarrow> gen_uuid srv n \<notin> insert [] (u_link ` set (users_t (stored w)))"
    using expected new by (auto simp: expected_def)
  show "oblivious (visible_to us) id
      (qmark DbError (in_db (tx_add_user srv (ad_dn info) None (ad_email info))) (\<lambda>_.
        qmark DbError (in_db (tx_get_user_by_dn srv (ad_dn info))) (\<lambda>user.
        qmark DbError (in_db (commit_tx srv)) (\<lambda>_. unwrap user))))
      (qmark DbError (in_db (tx_add_user srv (ad_dn info) None (ad_email info))) (\<lambda>_.
        qmark DbError (in_db (tx_get_user_by_dn srv (ad_dn info))) (\<lambda>user.
        qmark DbError (in_db (commit_tx srv)) (\<lambda>_. unwrap user)))) v"
  proof (rule oblivious_qmark [OF oblivious_in_db [OF oblivious_add_user]])
    fix i u
    assume "in_db (tx_add_user srv (ad_dn info) None (ad_email info)) v = (Ok i, u)"
    then obtain t where t: "tx_add_user srv (ad_dn info) None (ad_email info) (db v) = (Ok i, t)" "u = v\<lparr>db := t\<rparr>"
      by (rule in_dbE)
    have old: "u_dn x \<noteq> ad_dn info" if "x \<in> set (users_t (stored w))" for x
      using new that by (metis image_eqI)
    from t(1) have "\<And>x. x \<in> set (users_t (working (db u))) \<Longrightarrow> u_dn x = ad_dn info \<Longrightarrow> u_id x \<in> us"
      using v id t(2)
      by (auto simp: tx_add_user_def stmt_def Let_def dest: old split: reply.splits if_splits)
    then show "oblivious (visible_to us) id
        (qmark DbError (in_db (tx_get_user_by_dn srv (ad_dn info))) (\<lambda>user.
          qmark DbError (in_db (commit_tx srv)) (\<lambda>_. unwrap user)))
        (qmark DbError (in_db (tx_get_user_by_dn srv (ad_dn info))) (\<lambda>user.
          qmark DbError (in_db (commit_tx srv)) (\<lambda>_. unwrap user))) u"
      by (rule oblivious_qmark [OF oblivious_in_db [OF oblivious_by_dn [OF dn]]])
        (assumption, (rule oblivious_intros | simp only: id_apply)+)
  qed (use v dn new id links in simp_all)
qed

lemma oblivious_find_or_create:
  fixes w :: "'z site_scheme"
  assumes expected: "expected us srv (ad_dn info) (db w)"
  shows "oblivious (visible_to us) id
    (qmark DbError (in_db (begin_tx srv)) (\<lambda>_.
      qmark DbError (in_db (tx_get_user_by_dn srv (ad_dn info))) (\<lambda>user.
      qmark id (case user of Some u \<Rightarrow> return u | None \<Rightarrow> create_user srv info) (\<lambda>user.
      return (Some (WebUser_from (user, ad_groups info)))))))
    (qmark DbError (in_db (begin_tx srv)) (\<lambda>_.
      qmark DbError (in_db (tx_get_user_by_dn srv (ad_dn info))) (\<lambda>user.
      qmark id (case user of Some u \<Rightarrow> return u | None \<Rightarrow> create_user srv info) (\<lambda>user.
      return (Some (WebUser_from (user, ad_groups info))))))) w"
proof (rule oblivious_qmark [OF oblivious_in_db [OF oblivious_tx(1)]], goal_cases)
  case (1 x v)
  note v = begin_at [OF 1]
  show ?case
  proof (rule oblivious_qmark [OF oblivious_in_db [OF oblivious_by_dn]], goal_cases)
    case (3 y u)
    note u = by_dn_at [OF 3]
    have "oblivious (visible_to us) id (case y of Some u \<Rightarrow> return u | None \<Rightarrow> create_user srv info)
        (case y of Some u \<Rightarrow> return u | None \<Rightarrow> create_user srv info) u"
    proof (cases y)
      case None
      with u v have "ad_dn info \<notin> u_dn ` set (users_t (stored u))"
        by (auto simp: find_None_iff find_None_iff2)
      moreover have "expected us srv (ad_dn info) (db u)"
        using expected by (rule expected_later) (simp_all add: u v)
      ultimately show ?thesis using None by (simp add: oblivious_create_user)
    qed (simp add: oblivious_basic)
    then show ?case
      by (simp only: id_apply) (rule oblivious_qmark, assumption, simp only: id_apply, rule oblivious_basic)
  qed (use expected v in \<open>simp_all add: expected_def\<close>)
qed

lemma oblivious_authenticate:
  fixes w :: "'z site_scheme"
  assumes expected: "\<And>info. accepted dir (dir_calls (users_info w)) username password info \<Longrightarrow>
    expected us srv (ad_dn info) (db w)"
  shows "oblivious (visible_to us) id (authenticate srv dir username password)
    (authenticate srv dir username password) w"
  unfolding authenticate_def
proof (rule oblivious_qmark [OF oblivious_surroundings(2)], goal_cases)
  case (1 found w0)
  from 1 obtain t0 where t0: "find_user_info dir username (users_info w) = (Ok found, t0)"
    "w0 = w\<lparr>users_info := t0\<rparr>" by (rule in_ldapE)
  show ?case
  proof (cases found)
    case (Some info)
    have passed: "expected us srv (ad_dn info) (db w1)"
      if "in_ldap (check_authentication dir (ad_dn info) password) w0 = (Ok x, w1)" for x w1
    proof -
      from that obtain t1 where t1: "check_authentication dir (ad_dn info) password t0 = (Ok x, t1)"
        "w1 = w0\<lparr>users_info := t1\<rparr>" by (rule in_ldapE) (simp add: t0)
      from t0(1) Some t1(1) have "accepted dir (dir_calls (users_info w)) username password info"
        by (auto simp: accepted_def elim!: find_user_info_OkE check_authentication_OkE)
      from expected [OF this] show ?thesis by (simp add: t0 t1)
    qed
    show ?thesis
      unfolding Some id_apply [of "Some info"] option.case
    proof (rule oblivious_handle [OF oblivious_surroundings(2)], goal_cases)
      case (1 x w1)
      show ?case
        unfolding id_apply [of x] sum.case by (rule oblivious_find_or_create [OF passed [OF 1]])
    qed (simp add: oblivious_basic)
  qed (simp add: oblivious_basic)
qed

section \<open>Requests\<close>

text \<open>
  The token a request sends, and the requests that speak for one of the users or for nobody: those
  that come in a session of one of them or in none, with a token of one of them or with one that
  nobody has, and with a password that is refused or that of one of them.
\<close>

definition sent_token :: "('h \<Rightarrow> string option) \<Rightarrow> 'h option \<Rightarrow> string option" where
  "sent_token to_str auth_header =
     Option.bind (Option.bind auth_header to_str) (\<lambda>h. map_option trim (strip_prefix ''Bearer '' h))"

definition token_owner_in ::
  "UserId set \<Rightarrow> digest \<Rightarrow> ('h \<Rightarrow> string option) \<Rightarrow> 'h option \<Rightarrow> database \<Rightarrow> bool" where
  "token_owner_in us sha256 to_str auth_header d \<longleftrightarrow>
     (case Option.bind (sent_token to_str auth_header) (\<lambda>p. find_token d (hash_token sha256 p)) of
        None \<Rightarrow> True | Some k \<Rightarrow> t_user_id k \<in> us)"

definition speaks_for ::
  "UserId set \<Rightarrow> 'h http \<Rightarrow> AppState \<Rightarrow> session_data \<times> 'h request \<Rightarrow> 'z site_scheme \<Rightarrow> bool" where
  "speaks_for us ht st visit w \<longleftrightarrow>
     (case fst visit of None \<Rightarrow> True | Some (i, _) \<Rightarrow> UserId i \<in> us) \<and>
     (case snd visit of
        Public e \<Rightarrow> (case e of
            PostLogin name password \<Rightarrow>
              (let v = snd (resume_session (app_server st) (app_directory st) (fst visit) w)
               in \<forall>info. accepted (app_directory st) (dir_calls (users_info v)) name password info \<longrightarrow>
                    expected us (app_server st) (ad_dn info) (db v))
          | _ \<Rightarrow> True)
      | Session _ \<Rightarrow> True
      | Bearer auth_header _ \<Rightarrow> token_owner_in us (sha2 st) (header_to_str ht) auth_header (stored w))"

lemma oblivious_bearer:
  assumes owner: "token_owner_in us sha to_str auth_header (stored w)"
  shows "oblivious (visible_to us) id (authenticate_bearer srv dir sha to_str auth_header)
    (authenticate_bearer srv dir sha to_str auth_header) w"
proof (cases "sent_token to_str auth_header")
  case None
  then show ?thesis
    by (auto simp: authenticate_bearer_def sent_token_def bind_eq_None_conv oblivious_basic split: option.split)
next
  case (Some p)
  then obtain v h rest where sent: "auth_header = Some v" "to_str v = Some h"
      "strip_prefix ''Bearer '' h = Some rest" "p = trim rest"
    by (auto simp: sent_token_def bind_eq_Some_conv)
  have own: "i \<in> us" if "in_db (tokens_find_user_id_by_plaintext srv sha p) w = (Ok (Some i), t)" for i t
    using that owner Some
    by (cases "find_token (stored w) (hash_token sha p)")
      (auto simp: token_owner_in_def elim!: in_dbE dest!: tokens_find_cases(1))
  show ?thesis
    unfolding authenticate_bearer_def sent(1-3) option.case Let_def sent(4) [symmetric]
    by (simp only: visible_results | rule own oblivious_intros | assumption)+
qed

lemma resumed_user:
  assumes "resume_session srv dir data w = (Ok (Some wu), w')"
  obtains hash where "data = Some (wu_id wu, hash)"
  using resume_session_Some [OF assms] by (auto simp: session_accepted_def WebUser_from_def)

lemma oblivious_serve:
  assumes "speaks_for us ht st (data, req) w"
  shows "oblivious (visible_to us) id (serve ht st data req) (serve ht st data req) w"
proof -
  have data: "UserId i \<in> us" if "data = Some (i, hash)" for i hash
    using assms that by (simp add: speaks_for_def)
  have resume: "oblivious (visible_to us) id (resume_session srv dir data) (resume_session srv dir data) w"
    for srv dir and w :: "'z site_scheme"
    unfolding resume_session_def
    by (cases data) (auto simp: oblivious_basic dest: data intro!: oblivious_qmark oblivious_get_user)
  have routes: "oblivious (visible_to us) id (dispatch ht st req found) (dispatch ht st req found) t"
    if run: "resume_session (app_server st) (app_directory st) data w = (Ok found, t)" for found t
  proof (cases req)
    case (Public e)
    show ?thesis
    proof (cases e)
      case (PostLogin name password)
      have "oblivious (visible_to us) id (authenticate (app_server st) (app_directory st) name password)
          (authenticate (app_server st) (app_directory st) name password) t"
        using assms by (intro oblivious_authenticate) (simp add: speaks_for_def Public PostLogin run)
      then show ?thesis
        unfolding PostLogin Public dispatch_def serve_public_def login_def as_answer_def
          request.case public_endpoint.case
        by (intro oblivious_qmark [where f = id] oblivious_handle [where f = id])
          (auto simp: oblivious_basic split: option.split)
    qed (use Public in \<open>auto simp: dispatch_def serve_public_def as_answer_def login_page_def
          intro!: oblivious_qmark oblivious_basic oblivious_listing_json\<close>)
  next
    case (Session e)
    have "app_user user \<in> us" if "found = Some user" for user
      using run that data by (auto elim!: resumed_user)
    with Session show ?thesis
      by (auto simp: dispatch_def auth_middleware_def oblivious_basic oblivious_serve_session
          split: option.split)
  next
    case (Bearer auth_header e)
    have "stored t = stored w" using keepsD [OF keeps_resume_session run] .
    with assms Bearer have owner: "token_owner_in us (sha2 st) (header_to_str ht) auth_header (stored t)"
      by (simp add: speaks_for_def)
    show ?thesis
      unfolding dispatch_def Bearer request.case bearer_auth_middleware_def
      by (rule oblivious_handle [OF oblivious_bearer [OF owner]])
        (auto simp: oblivious_basic oblivious_serve_bearer split: option.split)
  qed
  show ?thesis
    unfolding serve_def auth_layer_def
    by (rule oblivious_handle [OF resume]) (simp_all add: routes oblivious_basic)
qed

section \<open>Sequences of requests\<close>

text \<open>The answers to a sequence of requests, and the state after it.\<close>

fun exchange ::
  "'h http \<Rightarrow> AppState \<Rightarrow> (session_data \<times> 'h request) list \<Rightarrow> 'z site_scheme \<Rightarrow>
   (answer_body response, unit) outcome list \<times> 'z site_scheme" where
  "exchange ht st [] w = ([], w)"
| "exchange ht st (visit # visits) w =
     (let (answer, v) = serve ht st (fst visit) (snd visit) w;
          (answers, u) = exchange ht st visits v
      in (answer # answers, u))"

fun speak_for ::
  "UserId set \<Rightarrow> 'h http \<Rightarrow> AppState \<Rightarrow> (session_data \<times> 'h request) list \<Rightarrow> 'z site_scheme \<Rightarrow> bool" where
  "speak_for us ht st [] w \<longleftrightarrow> True"
| "speak_for us ht st (visit # visits) w \<longleftrightarrow> speaks_for us ht st visit w \<and>
     speak_for us ht st visits (snd (serve ht st (fst visit) (snd visit) w))"

lemma exchange_visible:
  assumes "speak_for us ht st visits w"
  shows "exchange ht st visits (visible_to us w) = map_prod id (visible_to us) (exchange ht st visits w)"
  using assms
proof (induction visits arbitrary: w)
  case (Cons visit visits)
  obtain answer v where run: "serve ht st (fst visit) (snd visit) w = (answer, v)" by fastforce
  with Cons.prems oblivious_serve [of us ht st "fst visit" "snd visit" w]
  have "serve ht st (fst visit) (snd visit) (visible_to us w) = (answer, visible_to us v)"
    by (simp add: oblivious_def outcome.map_id)
  with Cons.IH [of v] Cons.prems run show ?case by (simp split: prod.split)
qed simp

text \<open>
  C5: the web layer discloses nothing of a user but his e-mail address: two states that differ only
  in the directory names, Telegram chats and link codes of other users, and in the names and dates
  of their tokens, answer any sequence of requests of the users \<open>us\<close> in the same way, logins
  included, whatever the server, the directory and the clock do, and differ in nothing else
  afterwards. A request is one of theirs if it comes in a session of one of \<open>us\<close> or in none, with a
  token of one of \<open>us\<close> or with one that nobody has, and, if it is a login, with a password that the
  directory refuses or accepts for one of \<open>us\<close>, be it that he has no account yet.
\<close>

theorem details_undisclosed:
  assumes same: "visible_to us w = visible_to us w'"
    and "speak_for us ht st visits w" "speak_for us ht st visits w'"
  shows "fst (exchange ht st visits w) = fst (exchange ht st visits w') \<and>
    visible_to us (snd (exchange ht st visits w)) = visible_to us (snd (exchange ht st visits w'))"
proof -
  have "map_prod id (visible_to us) (exchange ht st visits w) =
      map_prod id (visible_to us) (exchange ht st visits w')"
    using assms by (metis exchange_visible)
  then show ?thesis by (simp add: prod_eq_iff)
qed

text \<open>
  Bob's link code does not show in what Alice, a stranger who does not know a password, and Carol, who
  logs in for the first time, can ask for.
\<close>

definition sample_relinked :: pg where
  "sample_relinked =
     (let d = sample_db\<lparr>users_t := [alice, bob\<lparr>u_link := ''link-c'', u_tg_handle := Some ''7''\<rparr>]\<rparr>
      in sample_pg\<lparr>committed := d, working := d\<rparr>)"

definition sample_visits :: "(session_data \<times> string request) list" where
  "sample_visits = [(None, Public (PostLogin ''carol'' ''secret'')),
     (None, Bearer (Some ''Bearer x'') ApiHosts), (None, Public (PostLogin ''bob'' [])),
     (Some (1, as_bytes ''link-a''), Session GetHostsAll),
     (Some (1, as_bytes ''link-a''), Session (GetTokens [])),
     (None, Public (GetHostsLeased None None))]"

theorem details_undisclosed_witness:
  "sample_site sample_relinked \<noteq> sample_site sample_pg \<and>
   fst (exchange (http_of (sample_process sample_env)) (sample_app sample_env) sample_visits
     (sample_site sample_relinked)) =
   fst (exchange (http_of (sample_process sample_env)) (sample_app sample_env) sample_visits
     (sample_site sample_pg))"
proof -
  let ?ht = "http_of (sample_process sample_env)" and ?st = "sample_app sample_env"
  have same: "visible_to {UserId 1, UserId 3} (sample_site sample_pg) =
      visible_to {UserId 1, UserId 3} (sample_site sample_relinked)"
    by (simp add: visible_to_def visible_pg_def visible_def hide_user_def sample_relinked_def
        sample_site_def sample_world_def sample_pg_def sample_db_def bob_def alice_def Let_def)
  have speak: "speak_for {UserId 1, UserId 3} ?ht ?st sample_visits (sample_site s)"
    if s: "s = sample_pg \<or> s = sample_relinked" for s
  proof -
    let ?v = "snd (serve ?ht ?st None (Public (PostLogin ''carol'' ''secret'')) (sample_site s))"
    have "api_tokens_t (stored (snd (serve ?ht ?st None (Public (PostLogin ''carol'' ''secret''))
        (sample_site sample_pg)))) = []"
      "api_tokens_t (stored (snd (serve ?ht ?st None (Public (PostLogin ''carol'' ''secret''))
        (sample_site sample_relinked)))) = []" by code_simp+
    with s have tokens: "api_tokens_t (stored ?v) = []" by blast
    have "ad_dn info = ''cn=carol''" if "accepted sample_directory n name password info" for n name password info
      using that
      by (auto simp: accepted_def sample_directory_def AdUserInfo_try_from_def sample_entry_def Let_def
          split: option.splits list.splits)
    then have "speaks_for {UserId 1, UserId 3} ?ht ?st (None, Public (PostLogin ''carol'' ''secret'')) (sample_site s)"
      using s
      by (auto simp: speaks_for_def sample_app_def expected_def resume_session_def return_def sample_server_def
          sample_relinked_def sample_pg_def sample_db_def alice_def bob_def Let_def)
    moreover have "\<not> accepted dir n name [] info" for dir n name info by (simp add: accepted_def)
    ultimately show ?thesis
      using tokens
      by (simp add: sample_visits_def speaks_for_def token_owner_in_def find_token_def Let_def
          split: Option.bind_split)
  qed
  have "sample_site sample_relinked \<noteq> sample_site sample_pg"
    by (simp add: sample_site_def sample_relinked_def Let_def sample_pg_def sample_db_def bob_def)
  with details_undisclosed [OF same speak speak] show ?thesis by simp
qed

end
