(* ===== verification/Pages.thy ===== *)
theory Pages
  imports System_Props
begin

text \<open>
  The page of \<open>GET /hosts\<close> and its forms: what the page lists, what its form sends
  (\<open>src/templates/hosts_lease.html\<close>), and that the two fit together with the handler that
  receives the form.
\<close>

section \<open>The form of the page\<close>

text \<open>
  The boxes a user ticks: \<open>name="hosts_ids" value="{{host.id}}"\<close>, and the bounds of the number
  fields.
\<close>

definition ticked :: "HostInfo list \<Rightarrow> string list" where
  "ticked picked = map (\<lambda>host. show_HostId (hi_id host)) picked"

definition offered_period :: "u8 \<Rightarrow> u8 \<Rightarrow> bool" where
  "offered_period days hours \<longleftrightarrow> days \<le> 62 \<and> hours \<le> 23"

section \<open>Rows in some order\<close>

definition same_rows :: "'a list \<Rightarrow> 'a list \<Rightarrow> bool" where
  "same_rows xs ys \<longleftrightarrow> (\<forall>x. count_list xs x = count_list ys x)"

lemma same_rows_sort [simp]: "same_rows (sort_key f xs) ys \<longleftrightarrow> same_rows xs ys"
proof -
  have "count_list (insort_key f x xs) y = count_list (x # xs) y" for x xs y by (induction xs) auto
  then have "count_list (sort_key f xs) y = count_list xs y" for y by (induction xs) simp_all
  then show ?thesis by (simp add: same_rows_def)
qed

lemma same_rows_refl [simp]: "same_rows xs xs"
  by (simp add: same_rows_def)

lemma same_rows_set: "same_rows xs ys \<Longrightarrow> set xs = set ys"
  unfolding same_rows_def by (metis count_list_0_iff set_eqI)

lemma same_rows_Nil: "same_rows xs [] \<Longrightarrow> xs = []"
  by (drule same_rows_set) simp

section \<open>Evaluation on a server that answers\<close>

definition free_info :: "Host \<Rightarrow> HostInfo" where
  "free_info h = \<lparr>hi_id = h_id h, hi_hostname = h_hostname h,
     hi_ip_address = show_ip (net_ip (h_ip_address h)), hi_lease_info = None, hi_group = None\<rparr>"

lemma free_infos: "map_each (HostInfo_from_host env) hs w = (Ok (map free_info hs), w)"
  by (induction hs) (simp_all add: HostInfo_from_host_def HostInfo_from_pair_def lease_info_of_def
      free_info_def qmark_def return_def)

text \<open>
  An entry shows a lease: the host, whose lease it is and until when, and how long that was at some
  reading of the clock.
\<close>

definition shows_lease :: "env \<Rightarrow> HostInfo \<Rightarrow> LeasedHost \<Rightarrow> bool" where
  "shows_lease env i l \<longleftrightarrow> hi_id i = lh_id l \<and> hi_hostname i = lh_hostname l \<and>
     hi_ip_address i = show_ip (net_ip (lh_ip_address l)) \<and>
     hi_group i = map_option GroupInfo_from (lh_group l) \<and>
     (\<exists>li n. hi_lease_info i = Some li \<and> li_leased_by li = u_email (lh_user l) \<and>
       li_leased_until li = of_timestamptz (lh_leased_until l) \<and>
       li_valid_for li = format_duration (li_leased_until li - clock env n))"

lemma leased_info:
  "\<exists>i v. HostInfo_from_leased env l w = (Ok i, v) \<and> db v = db w \<and> shows_lease env i l"
  by (auto simp: HostInfo_from_leased_def LeaseInfo_from_def utc_now_def qmark_def return_def
      shows_lease_def)

lemma leased_infos:
  fixes w :: "'z world_scheme" and env :: env
  defines "info \<equiv> HostInfo_from_leased env :: LeasedHost \<Rightarrow> ('z world_scheme, HostInfo, 'e) io"
  shows "\<exists>infos v. map_each info ls w = (Ok infos, v) \<and> db v = db w \<and> list_all2 (shows_lease env) infos ls"
proof (induction ls arbitrary: w)
  case (Cons l ls)
  obtain i v where i: "info l w = (Ok i, v)" "db v = db w" "shows_lease env i l"
    unfolding info_def using leased_info by blast
  obtain infos u where "map_each info ls v = (Ok infos, u)" "db u = db v" "list_all2 (shows_lease env) infos ls"
    using Cons.IH by blast
  with i show ?case by (intro exI [of _ "i # infos"] exI [of _ u]) (simp add: qmark_def return_def)
qed (simp add: return_def)

lemma unwrap_in_db: "m (db w) = (Ok x, t) \<Longrightarrow> unwrap_call (in_db m) k w = k x (w\<lparr>db := t\<rparr>)"
  by (simp add: unwrap_call_def handle_def in_db_run)

lemma qmark_unwrap: "qmark f (unwrap (Some x)) k w = k x w"
  by (simp add: qmark_def unwrap_def)

lemma read_only_fine:
  assumes "fine srv" and "q (s\<lparr>calls := Suc (calls s), working := committed s\<rparr>) = (Ok x, t)"
    and "committed t = committed s" "working t = committed s"
  obtains v where "read_only srv from q s = (Ok x, v)" "committed v = committed s"
  using assms by (simp add: read_only_def qmark_def fine_simps return_def)

text \<open>
  The group that is asked for: the one of the query, else the one of the cookie if that can be read.
\<close>

definition wanted_group :: "GroupId option \<Rightarrow> string option \<Rightarrow> GroupId option" where
  "wanted_group param cookie =
     (case (param, cookie) of
        (Some g, _) \<Rightarrow> Some g
      | (None, Some val) \<Rightarrow> (case GroupId_from_str val of Inr g \<Rightarrow> Some g | Inl _ \<Rightarrow> None)
      | (None, None) \<Rightarrow> None)"

definition chosen_group :: "Group list \<Rightarrow> GroupId option \<Rightarrow> GroupId \<Rightarrow> Group \<Rightarrow> bool" where
  "chosen_group gs wanted gid g \<longleftrightarrow> gid = (case wanted of Some i \<Rightarrow> i | None \<Rightarrow> g_id (hd gs)) \<and>
     (if gid \<in> g_id ` set gs then g \<in> set gs \<and> g_id g = gid else g = hd gs)"

lemma selected_groups:
  assumes "gs \<noteq> []"
  obtains gid g where "selected_group_id gs param cookie = Some gid" "selected_group gs gid = Some g"
    "chosen_group gs (wanted_group param cookie) gid g"
proof -
  obtain first rest where gs: "gs = first # rest" using assms by (cases gs) auto
  define gid where "gid = (case wanted_group param cookie of Some i \<Rightarrow> i | None \<Rightarrow> g_id (hd gs))"
  have selected: "selected_group_id gs param cookie = Some gid"
    by (simp add: gid_def gs selected_group_id_def wanted_group_def first_row_def split: option.split sum.split)
  show thesis
  proof (cases "find (\<lambda>g. g_id g = gid) gs")
    case None
    then have "gid \<notin> g_id ` set gs" by (auto simp: find_None_iff)
    then have "chosen_group gs (wanted_group param cookie) gid first"
      unfolding chosen_group_def gid_def [symmetric] by (simp add: gs)
    moreover have "selected_group gs gid = Some first"
      using None by (simp add: selected_group_def gs first_row_def)
    ultimately show thesis using selected that by blast
  next
    case (Some g)
    from find_SomeD [OF Some] have "g \<in> set gs" "g_id g = gid" by simp_all
    moreover from this have "gid \<in> g_id ` set gs" by (metis image_eqI)
    ultimately have "chosen_group gs (wanted_group param cookie) gid g"
      unfolding chosen_group_def gid_def [symmetric] by simp
    moreover have "selected_group gs gid = Some g"
      using Some by (simp add: selected_group_def gs first_row_def)
    ultimately show thesis using selected that by blast
  qed
qed

text \<open>The three listings of the page.\<close>

lemma groups_fine:
  assumes "fine srv"
  obtains gs t where "groups_get_all_groups srv s = (Ok gs, t)" "committed t = committed s"
    "same_rows gs (groups_t (committed s))" "sorted (map (\<lambda>g. text_key srv (g_name g)) gs)"
  using assms
  by (auto simp: groups_get_all_groups_def read_only_def tx_get_groups_def qmark_def fine_simps return_def)

lemma available_fine:
  assumes "fine srv"
  obtains hs t where "hosts_get_available_group_hosts srv g s = (Ok hs, t)" "committed t = committed s"
    "same_rows hs (filter (\<lambda>h. h_user_id h = None \<and> h_group_id h = g) (hosts_t (committed s)))"
    "sorted (map (\<lambda>h. inet_key srv (h_ip_address h)) hs)"
  using assms
  by (auto simp: hosts_get_available_group_hosts_def read_only_def tx_get_available_group_hosts_def
      qmark_def fine_simps return_def by_address_def scan_hosts_def)

lemma leased_fine:
  assumes "fine srv" and "db_ok (committed s)"
  obtains rs t where "hosts_get_leased_hosts srv u s = (Ok (map (leased_of (committed s)) rs), t)"
    "committed t = committed s" "same_rows rs (filter (\<lambda>h. h_user_id h = Some u) (hosts_t (committed s)))"
    "sorted (map (\<lambda>h. the (h_leased_until h)) rs)"
proof -
  let ?d = "committed s"
  obtain k t where run: "hosts_get_leased_hosts srv u s = (Ok (map (leased_of ?d) (rows_of srv k ?d u)), t)"
      "committed t = ?d"
    using assms by (auto simp: hosts_get_leased_hosts_def read_only_def qmark_def fine_simps return_def)
  have "sorted (map (\<lambda>h. the (h_leased_until h)) (rows_of srv k ?d u))"
    unfolding rows_of_def using db_okD(4) [OF assms(2)] by (intro sorted_map_leased) fastforce
  moreover have "same_rows (rows_of srv k ?d u) (filter (\<lambda>h. h_user_id h = Some u) (hosts_t ?d))"
    by (simp add: rows_of_def by_lease_end_def by_address_def scan_hosts_def)
  ultimately show thesis using run by (intro that)
qed

text \<open>
  What the page is to show of the tables \<open>d\<close> to the user \<open>u\<close>: all groups by their names, of which one
  is chosen, that which was asked for if it exists and otherwise the first, together with the
  identifier to be remembered; the hosts of the chosen group that nobody holds, by their addresses
  and without a lease; the hosts that the user holds, by the ends of their leases, each with its
  lease; the first message.
\<close>

definition lists_hosts ::
  "server \<Rightarrow> env \<Rightarrow> UserId \<Rightarrow> GroupId option \<Rightarrow> flash list \<Rightarrow> database \<Rightarrow> GroupId \<Rightarrow> HostsLeasePage \<Rightarrow> bool" where
  "lists_hosts srv env u wanted incoming d gid p \<longleftrightarrow>
     (\<exists>gs g. gs \<noteq> [] \<and> same_rows gs (groups_t d) \<and> sorted (map (\<lambda>g. text_key srv (g_name g)) gs) \<and>
       hp_groups p = map GroupInfo_from gs \<and>
       chosen_group gs wanted gid g \<and> hp_selected_group p = GroupInfo_from g \<and>
       (\<exists>hs. hp_hosts p = map free_info hs \<and> sorted (map (\<lambda>h. inet_key srv (h_ip_address h)) hs) \<and>
         same_rows hs (filter (\<lambda>h. h_user_id h = None \<and> h_group_id h = g_id g) (hosts_t d)))) \<and>
     (\<exists>rs. list_all2 (shows_lease env) (hp_leased p) (map (leased_of d) rs) \<and>
       sorted (map (\<lambda>h. the (h_leased_until h)) rs) \<and>
       same_rows rs (filter (\<lambda>h. h_user_id h = Some u) (hosts_t d))) \<and>
     hp_error p = map_option flash_text (first_row incoming)"

text \<open>The page, as the handler makes it.\<close>

lemma get_hosts_run:
  fixes w :: "'z site_scheme"
  assumes fine: "fine (app_server st)" and ok: "db_ok (stored w)" and some: "groups_t (stored w) \<noteq> []"
  obtains gid p v where
    "get_hosts st user param cookie incoming w =
      (Ok (HtmlPage [(''group_id'', show_GroupId gid)] (hosts_page st user (LeasePage p))), v)"
    "stored v = stored w"
    "lists_hosts (app_server st) (surroundings st) (app_user user) (wanted_group param cookie) incoming
      (stored w) gid p"
proof -
  obtain gs t where gs: "groups_get_all_groups (app_server st) (db w) = (Ok gs, t)" "committed t = stored w"
    "same_rows gs (groups_t (stored w))" "sorted (map (\<lambda>g. text_key (app_server st) (g_name g)) gs)"
    by (rule groups_fine [OF fine])
  with some have "gs \<noteq> []" using same_rows_set by fastforce
  from selected_groups [OF this, of param cookie] obtain gid g where g:
    "selected_group_id gs param cookie = Some gid" "selected_group gs gid = Some g"
    "chosen_group gs (wanted_group param cookie) gid g" by blast
  obtain hs t1 where hs: "hosts_get_available_group_hosts (app_server st) (g_id g) t = (Ok hs, t1)"
    "committed t1 = committed t"
    "same_rows hs (filter (\<lambda>h. h_user_id h = None \<and> h_group_id h = g_id g) (hosts_t (committed t)))"
    "sorted (map (\<lambda>h. inet_key (app_server st) (h_ip_address h)) hs)"
    by (rule available_fine [OF fine])
  have "db_ok (committed t1)" using ok gs hs by simp
  then obtain rs t2 where ls: "hosts_get_leased_hosts (app_server st) (app_user user) t1 =
      (Ok (map (leased_of (committed t1)) rs), t2)" "committed t2 = committed t1"
    "same_rows rs (filter (\<lambda>h. h_user_id h = Some (app_user user)) (hosts_t (committed t1)))"
    "sorted (map (\<lambda>h. the (h_leased_until h)) rs)"
    by (rule leased_fine [OF fine])
  let ?w1 = "w\<lparr>db := t\<rparr>" and ?ls = "map (leased_of (committed t1)) rs"
  let ?w2 = "?w1\<lparr>db := t1\<rparr>"
  let ?v = "?w2\<lparr>db := t2\<rparr>"
  have now: "hosts_get_available_group_hosts (app_server st) (g_id g) (db ?w1) = (Ok hs, t1)"
    "hosts_get_leased_hosts (app_server st) (app_user user) (db ?w2) = (Ok ?ls, t2)"
    using hs(1) ls(1) by simp_all
  let ?info = "HostInfo_from_leased (surroundings st) :: LeasedHost \<Rightarrow> ('z site_scheme, HostInfo, unit) io"
  obtain infos v where infos: "map_each ?info ?ls ?v = (Ok infos, v)" "db v = t2"
    "list_all2 (shows_lease (surroundings st)) infos ?ls"
    using leased_infos [of "surroundings st" ?ls ?v] by auto
  let ?p = "\<lparr>hp_groups = map GroupInfo_from gs, hp_selected_group = GroupInfo_from g,
    hp_hosts = map free_info hs, hp_leased = infos,
    hp_error = map_option flash_text (first_row incoming)\<rparr>"
  show thesis
  proof (rule that)
    show "get_hosts st user param cookie incoming w =
      (Ok (HtmlPage [(''group_id'', show_GroupId gid)] (hosts_page st user (LeasePage ?p))), v)"
      by (simp only: get_hosts_def g(1,2) qmark_unwrap return_def unwrap_in_db gs(1) now
          qmark_Ok free_infos infos(1) prod.inject)
    show "stored v = stored w" using gs(2) hs(2) ls(2) infos(2) by simp
    show "lists_hosts (app_server st) (surroundings st) (app_user user) (wanted_group param cookie) incoming
        (stored w) gid ?p"
      unfolding lists_hosts_def HostsLeasePage.simps
      using \<open>gs \<noteq> []\<close> g(3) gs(3,4) hs(3,4) ls(3,4) infos(3) unfolding hs(2) gs(2) by blast
  qed
qed

lemma get_hosts_panics:
  fixes w :: "'z site_scheme"
  assumes fine: "fine (app_server st)" and none: "groups_t (stored w) = []"
  shows "fst (get_hosts st user param cookie incoming w) = Panic"
proof -
  obtain gs t where "groups_get_all_groups (app_server st) (db w) = (Ok gs, t)" "gs = []"
    using groups_fine [OF fine] none by (metis same_rows_Nil)
  then show ?thesis
    unfolding get_hosts_def
    by (cases param) (simp_all add: unwrap_in_db qmark_def unwrap_def
        selected_group_id_def selected_group_def first_row_def)
qed

lemma page_shown:
  fixes w :: "'z site_scheme"
  assumes "fine (app_server st)" and "db_ok (stored w)"
    and page: "get_hosts st user param cookie incoming w =
      (Ok (HtmlPage cookies (hosts_page st user (LeasePage p))), v)"
  shows "stored v = stored w" "\<exists>gid. lists_hosts (app_server st) (surroundings st) (app_user user)
    (wanted_group param cookie) incoming (stored w) gid p"
proof -
  have "groups_t (stored w) \<noteq> []"
    using get_hosts_panics [OF assms(1), of w user param cookie incoming] page by auto
  from get_hosts_run [OF assms(1,2) this, of user param cookie incoming]
  have "stored v = stored w \<and> (\<exists>gid. lists_hosts (app_server st) (surroundings st) (app_user user)
      (wanted_group param cookie) incoming (stored w) gid p)"
    unfolding page by (auto simp: hosts_page_def)
  then show "stored v = stored w" "\<exists>gid. lists_hosts (app_server st) (surroundings st) (app_user user)
      (wanted_group param cookie) incoming (stored w) gid p"
    by simp_all
qed

lemma listed_free:
  assumes "db_ok d" "\<exists>gid. lists_hosts srv env u wanted incoming d gid p" "x \<in> set (hp_hosts p)"
  shows "holder d (hi_id x) = None" "hi_id x \<in> host_ids d"
proof -
  obtain h where h: "h \<in> set (hosts_t d)" "h_user_id h = None" "x = free_info h"
    using assms(2,3) unfolding lists_hosts_def by (fastforce dest: same_rows_set)
  with host_row_unique [OF db_okD(2) [OF assms(1)] h(1)]
  show "holder d (hi_id x) = None" "hi_id x \<in> host_ids d"
    by (simp_all add: holder_def row_holder_def free_info_def host_ids_def)
qed

section \<open>What the page shows\<close>

text \<open>
  C16: what \<open>GET /hosts\<close> answers on a server that answers. Where there is a group, it is the page with
  all groups by their names and one of them chosen: the one of the query, else the one of the cookie,
  if it exists, and otherwise the first; the identifier asked for goes back into the cookie. It lists
  the free hosts of the chosen group and no others, without a lease and by their addresses; all hosts
  that the user holds, each with its lease; and the first of the messages left for it. Nothing is
  changed. The handler panics exactly where there is no group.
\<close>

theorem hosts_page_lists:
  fixes w :: "'z site_scheme"
  assumes "fine (app_server st)" and "db_ok (stored w)"
  shows "case get_hosts st user param cookie incoming w of
      (Ok answer, v) \<Rightarrow> stored v = stored w \<and>
        (\<exists>gid p. answer = HtmlPage [(''group_id'', show_GroupId gid)] (hosts_page st user (LeasePage p)) \<and>
          lists_hosts (app_server st) (surroundings st) (app_user user) (wanted_group param cookie) incoming
            (stored w) gid p)
    | (Err e, v) \<Rightarrow> False
    | (Panic, v) \<Rightarrow> groups_t (stored w) = []"
proof (cases "groups_t (stored w) = []")
  case True
  with get_hosts_panics [OF assms(1), of w user param cookie incoming] show ?thesis
    by (simp add: case_prod_unfold)
next
  case False
  show ?thesis
    by (rule get_hosts_run [OF assms False, of user param cookie incoming])
      (simp only: prod.case outcome.case, blast)
qed

text \<open>
  The page of Bob, who holds the third host of the group that the other two are free in; his cookie
  names a group that is no more.
\<close>

definition bob_page :: "(body response, unit) outcome \<times> site" where
  "bob_page = get_hosts (sample_app sample_env) (WebUser_from (bob, [])) None (Some ''7'') []
     (sample_site sample_pg)"

theorem hosts_page_lists_witness:
  "\<exists>gid p. fst bob_page = Ok (HtmlPage [(''group_id'', show_GroupId gid)]
     (hosts_page (sample_app sample_env) (WebUser_from (bob, [])) (LeasePage p))) \<and> gid = GroupId 7 \<and>
     lists_hosts sample_server sample_env (UserId 2) (Some (GroupId 7)) [] sample_db gid p"
proof -
  have "app_user (WebUser_from (bob, [])) = UserId 2" "groups_t sample_db \<noteq> []"
    "wanted_group None (Some ''7'') = Some (GroupId 7)"
    by (simp_all add: WebUser_from_def bob_def sample_db_def) code_simp
  with hosts_page_lists [where st = "sample_app sample_env" and w = "sample_site sample_pg" and
      user = "WebUser_from (bob, [])" and param = None and cookie = "Some ''7''" and incoming = "[]"]
  have "case bob_page of (Ok answer, v) \<Rightarrow> (\<exists>gid p. answer = HtmlPage [(''group_id'', show_GroupId gid)]
      (hosts_page (sample_app sample_env) (WebUser_from (bob, [])) (LeasePage p)) \<and>
      lists_hosts sample_server sample_env (UserId 2) (Some (GroupId 7)) [] sample_db gid p)
    | _ \<Rightarrow> False"
    unfolding bob_page_def [symmetric]
    by (cases "fst bob_page") (auto simp: case_prod_unfold)
  then obtain gid p where page: "fst bob_page = Ok (HtmlPage [(''group_id'', show_GroupId gid)]
      (hosts_page (sample_app sample_env) (WebUser_from (bob, [])) (LeasePage p)))"
    "lists_hosts sample_server sample_env (UserId 2) (Some (GroupId 7)) [] sample_db gid p"
    by (auto simp: case_prod_unfold split: outcome.splits)
  then have "gid = GroupId 7" by (auto simp: lists_hosts_def chosen_group_def)
  with page show ?thesis by blast
qed

section \<open>From the page to the lease\<close>

lemma lease_run_done:
  assumes "fine (app_server st)" "db_ok (stored w)" "app_user user \<in> user_ids (stored w)"
    and "limit_of (hosts_service st) (stored w) (wu_groups user) = Some n"
    and "lease_permitted (stored w) (app_user user) is n"
    and "date_add (clock (surroundings st) (clock_reads w)) dur = Some until"
    and "timestamptz_ok (to_timestamptz until)"
  obtains ls t where "lease_run st user is dur w = (Ok ls, t)"
    "committed t = assign_hosts (app_user user) is (to_timestamptz until) (stored w)"
proof -
  obtain ls t where run: "lease_run st user is dur w = (Ok ls, t)"
    using lease_succeeds [OF assms(1-7), of "hash_order st"] unfolding lease_run_def
    by (metis prod.collapse)
  moreover have "committed t = assign_hosts (app_user user) is (to_timestamptz until) (stored w)"
    using run [unfolded lease_run_def] assms(2) by (rule hosts_lease_cases) (use assms(6) in auto)
  ultimately show thesis by (rule that)
qed

text \<open>
  C15: the page and the form fit together. Whoever gets the page from a server that answers, ticks
  some of the hosts it offers, chooses a period within the bounds of its fields and sends the form
  before anything else happens: the form is read as what he chose, and if his limit allows that many
  hosts the lease is accepted, the ticked hosts are his until the end of the period, and nobody, he
  included, loses or gains anything else.
\<close>

theorem page_then_lease:
  fixes w :: "'z site_scheme"
  assumes fine: "fine (app_server st)" and ok: "db_ok (stored w)"
    and page: "get_hosts st user param cookie incoming w =
      (Ok (HtmlPage cookies (hosts_page st user (LeasePage p))), v)"
    and picked: "set picked \<subseteq> set (hp_hosts p)" and period: "offered_period d h"
    and known: "app_user user \<in> user_ids (stored w)"
    and limit: "limit_of (hosts_service st) (stored w) (wu_groups user) = Some n"
      "card (held (stored w) (app_user user)) + card (hi_id ` set picked) \<le> n"
    and until: "date_add (clock (surroundings st) (clock_reads v)) ((uint h + uint d * 24) * hour) = Some until"
      "timestamptz_ok (to_timestamptz until)"
  shows "\<exists>form u. LeaseForm_try_from (show_int (uint d)) (show_int (uint h)) (ticked picked) = Inr form \<and>
    web_lease_hosts st user form v = (Ok (Redirect ''/hosts'' []), u) \<and>
    (\<forall>i. holder (stored u) i = (if i \<in> hi_id ` set picked
       then Some (app_user user, to_timestamptz until) else holder (stored w) i)) \<and>
    (\<forall>i \<in> hi_id ` set picked. holder (stored w) i = None)"
proof -
  let ?is = "map hi_id picked" and ?u = "app_user user" and ?dur = "(uint h + uint d * 24) * hour"
  note shown = page_shown [OF fine ok page]
  have free: "holder (stored w) i = None" "i \<in> host_ids (stored w)" if "i \<in> hi_id ` set picked" for i
    using that picked listed_free [OF ok shown(2)] by auto
  then have "held (stored w) ?u \<inter> set ?is = {}" by (force simp: held_iff)
  with limit(2) have permitted: "lease_permitted (stored v) ?u ?is n"
    by (simp add: lease_permitted_def shown(1))
  have dur: "lease_duration d h = Inr ?dur"
    using period order_trans [of d 62 63] by (simp add: lease_duration_Inr offered_period_def)
  let ?form = "\<lparr>lf_days = Days (ucast d), lf_hours = Hours (ucast h), lf_hosts_ids = ?is\<rparr>"
  have read: "LeaseForm_try_from (show_int (uint d)) (show_int (uint h)) (ticked picked) = Inr ?form"
    using LeaseForm_of_bytes(1) [OF dur, of ?is] by (simp add: ticked_def o_def)
  obtain ls t where run: "lease_run st user ?is ?dur v = (Ok ls, t)"
      "committed t = assign_hosts ?u ?is (to_timestamptz until) (stored v)"
    by (rule lease_run_done [OF fine _ _ _ permitted until]) (use ok known limit(1) shown(1) in simp_all)
  have form: "form_duration ?form = ?dur"
    using dur by (simp add: lease_duration_Inr form_duration_bytes)
  obtain r u where now: "lease_now st ?u (wu_groups user) ?is ?dur v = (r, u)" by fastforce
  have u: "r = Ok ls" "db u = t"
    using lease_now_run [of st user ?is ?dur v] unfolding now run(1) by simp_all
  have sent: "web_lease_hosts st user ?form v = (Ok (Redirect ''/hosts'' []), u)"
    unfolding web_lease_hosts_def form LeaseForm.simps
    by (simp add: handle_def now u(1) return_def back_to_hosts_def)
  have "holder (stored u) i = (if i \<in> hi_id ` set picked
      then Some (?u, to_timestamptz until) else holder (stored w) i)" for i
    unfolding u(2) run(2) shown(1) holder_assign set_map
    by (cases "i \<in> hi_id ` set picked"; simp only: if_True if_False simp_thms free(2))
  then have "\<forall>i. holder (stored u) i = (if i \<in> hi_id ` set picked
      then Some (?u, to_timestamptz until) else holder (stored w) i)" by (rule allI)
  moreover have "\<forall>i \<in> hi_id ` set picked. holder (stored w) i = None" by (intro ballI free(1))
  ultimately show ?thesis using read sent by (intro exI [of _ ?form] exI [of _ u] conjI)
qed

text \<open>Alice, whose group may hold two hosts, ticks all the page offers her and chooses a day.\<close>

definition alice_user :: WebUser where
  "alice_user = WebUser_from (alice, [''devs''])"

definition alice_page :: "(body response, unit) outcome \<times> site" where
  "alice_page = get_hosts (sample_app sample_env) alice_user None (Some ''0'') [] (sample_site sample_pg)"

lemma alice_page_result:
  "case fst alice_page of Ok (HtmlPage _ (Page page)) \<Rightarrow>
     (case pg_page page of LeasePage p \<Rightarrow> map hi_id (hp_hosts p) = [HostId 1, HostId 2] | _ \<Rightarrow> False)
   | _ \<Rightarrow> False"
  "clock_reads (snd alice_page) = 0"
  by code_simp+

theorem page_then_lease_witness:
  "\<exists>gid p v form u. alice_page = (Ok (HtmlPage [(''group_id'', show_GroupId gid)]
       (hosts_page (sample_app sample_env) alice_user (LeasePage p))), v) \<and>
     LeaseForm_try_from (show_int (uint (1 :: u8))) (show_int (uint (0 :: u8))) (ticked (hp_hosts p)) =
       Inr form \<and>
     web_lease_hosts (sample_app sample_env) alice_user form v = (Ok (Redirect ''/hosts'' []), u) \<and>
     holder (stored u) (HostId 1) = Some (UserId 1, to_timestamptz (24 * hour))"
proof -
  let ?st = "sample_app sample_env" and ?w = "sample_site sample_pg"
  have facts: "app_user alice_user = UserId 1" "app_user alice_user \<in> user_ids (stored ?w)"
    "groups_t (stored ?w) \<noteq> []" "fine (app_server ?st)" "db_ok (stored ?w)"
    by simp_all (simp_all add: alice_user_def WebUser_from_def alice_def user_ids_def sample_db_def)
  obtain gid p v where page: "alice_page = (Ok (HtmlPage [(''group_id'', show_GroupId gid)]
      (hosts_page ?st alice_user (LeasePage p))), v)"
    unfolding alice_page_def
    by (rule get_hosts_run [OF facts(4,5,3), of alice_user None "Some ''0''" "[]"])
  have picked: "map hi_id (hp_hosts p) = [HostId 1, HostId 2]" "clock_reads v = 0"
    using alice_page_result unfolding page by (simp_all add: hosts_page_def)
  then have ids: "hi_id ` set (hp_hosts p) = {HostId 1, HostId 2}"
    by (metis list.set_map list.set(1,2))
  have "held (stored ?w) (UserId 1) = {}" "limit_of (hosts_service ?st) (stored ?w) (wu_groups alice_user) = Some 2"
    unfolding sample_site_simps committed_sample sample_process_simps by code_simp+
  moreover have "date_add 0 (24 * hour) = Some (24 * hour)" "timestamptz_ok (to_timestamptz (24 * hour))"
    by code_simp+
  ultimately obtain form u where
      "LeaseForm_try_from (show_int (uint (1 :: u8))) (show_int (uint (0 :: u8))) (ticked (hp_hosts p)) = Inr form"
      "web_lease_hosts ?st alice_user form v = (Ok (Redirect ''/hosts'' []), u)"
      "\<forall>i. holder (stored u) i = (if i \<in> hi_id ` set (hp_hosts p)
        then Some (app_user alice_user, to_timestamptz (24 * hour)) else holder (stored ?w) i)"
    using page_then_lease [OF facts(4,5) page [unfolded alice_page_def] subset_refl, of 1 0 2 "24 * hour"]
      picked ids facts
    by (auto simp: offered_period_def)
  moreover from this(3) ids facts(1) have "holder (stored u) (HostId 1) = Some (UserId 1, to_timestamptz (24 * hour))"
    by simp
  ultimately show ?thesis using page by blast
qed

end
