(* ===== verification/Bodies.thy ===== *)
theory Bodies
  imports Frontends Config
begin

text \<open>
  The JSON bodies of the API (\<open>src/src/web/api.rs\<close>, \<open>templates.rs\<close>) and the arguments of the tools
  (\<open>src/src/mcp/mod.rs\<close>): what the serialisers and deserialisers derived for them write and read,
  by the documented data model of serde and serde_json. Numbers are integers, as all fields are. Of
  several errors any one may be reported, and nothing depends on how an error is worded.
\<close>

section \<open>Reading\<close>

fun traverse :: "('a \<Rightarrow> 'e + 'b) \<Rightarrow> 'a list \<Rightarrow> 'e + 'b list" where
  "traverse f [] = Inr []"
| "traverse f (x # xs) = bind_sum (f x) (\<lambda>y. bind_sum (traverse f xs) (\<lambda>ys. Inr (y # ys)))"

definition u8_deserialize :: "json \<Rightarrow> string + u8" where
  "u8_deserialize j =
     (case j of
        JNum n \<Rightarrow> (if 0 \<le> n \<and> n \<le> 255 then Inr (word_of_int n) else Inl ''invalid value, expected u8'')
      | _ \<Rightarrow> Inl ''invalid type, expected u8'')"

definition i32_deserialize :: "json \<Rightarrow> string + i32" where
  "i32_deserialize j =
     (case j of
        JNum n \<Rightarrow> (if - 2147483648 \<le> n \<and> n \<le> 2147483647 then Inr (word_of_int n)
                   else Inl ''invalid value, expected i32'')
      | _ \<Rightarrow> Inl ''invalid type, expected i32'')"

definition vec_deserialize :: "(json \<Rightarrow> string + 'a) \<Rightarrow> json \<Rightarrow> string + 'a list" where
  "vec_deserialize item j =
     (case j of JArr js \<Rightarrow> traverse item js | _ \<Rightarrow> Inl ''invalid type, expected a sequence'')"

text \<open>
  The value of a field: \<open>None\<close> when the object does not have it; a field that comes twice is an
  error, fields of other names are ignored.
\<close>

definition json_field :: "string \<Rightarrow> (string \<times> json) list \<Rightarrow> string + json option" where
  "json_field name fs =
     (case filter (\<lambda>f. fst f = name) fs of
        [] \<Rightarrow> Inr None
      | [f] \<Rightarrow> Inr (Some (snd f))
      | _ \<Rightarrow> Inl (''duplicate field `'' @ name @ ''`''))"

definition json_required :: "string \<Rightarrow> (json \<Rightarrow> string + 'a) \<Rightarrow> (string \<times> json) list \<Rightarrow> string + 'a" where
  "json_required name item fs = bind_sum (json_field name fs) (\<lambda>v.
     case v of None \<Rightarrow> Inl (''missing field `'' @ name @ ''`'') | Some j \<Rightarrow> item j)"

text \<open>\<open>#[serde(default)]\<close> on a vector.\<close>

definition json_default :: "string \<Rightarrow> (json \<Rightarrow> string + 'a list) \<Rightarrow> (string \<times> json) list \<Rightarrow> string + 'a list" where
  "json_default name item fs = bind_sum (json_field name fs) (\<lambda>v.
     case v of None \<Rightarrow> Inr [] | Some j \<Rightarrow> item j)"

text \<open>
  A structure is read from an object, or from an array with its fields in order. (An array that is
  too short lacks one of the fields that have no default, since these come last.)
\<close>

definition json_struct :: "string list \<Rightarrow> ((string \<times> json) list \<Rightarrow> string + 'a) \<Rightarrow> json \<Rightarrow> string + 'a" where
  "json_struct names body j =
     (case j of
        JObj fs \<Rightarrow> body fs
      | JArr js \<Rightarrow> (if length js = length names then body (zip names js) else Inl ''invalid length'')
      | _ \<Rightarrow> Inl ''invalid type, expected struct'')"

section \<open>Requests and arguments\<close>

definition LeaseRequest_deserialize :: "json \<Rightarrow> string + LeaseRequest" where
  "LeaseRequest_deserialize = json_struct [''hosts_ids'', ''days'', ''hours''] (\<lambda>fs.
     bind_sum (json_default ''hosts_ids'' (vec_deserialize HostId_deserialize) fs) (\<lambda>ids.
     bind_sum (json_required ''days'' u8_deserialize fs) (\<lambda>days.
     bind_sum (json_required ''hours'' u8_deserialize fs) (\<lambda>hours.
     Inr \<lparr>lr_hosts_ids = ids, lr_days = days, lr_hours = hours\<rparr>))))"

definition LeaseRandomRequest_deserialize :: "json \<Rightarrow> string + LeaseRandomRequest" where
  "LeaseRandomRequest_deserialize = json_struct [''group_id'', ''days'', ''hours''] (\<lambda>fs.
     bind_sum (json_required ''group_id'' GroupId_deserialize fs) (\<lambda>group_id.
     bind_sum (json_required ''days'' u8_deserialize fs) (\<lambda>days.
     bind_sum (json_required ''hours'' u8_deserialize fs) (\<lambda>hours.
     Inr \<lparr>rr_group_id = group_id, rr_days = days, rr_hours = hours\<rparr>))))"

definition ReleaseRequest_deserialize :: "json \<Rightarrow> string + HostId list" where
  "ReleaseRequest_deserialize = json_struct [''hosts_ids'']
     (json_required ''hosts_ids'' (vec_deserialize HostId_deserialize))"

definition LeaseHostsArgs_deserialize :: "json \<Rightarrow> string + LeaseHostsArgs" where
  "LeaseHostsArgs_deserialize = json_struct [''hosts_ids'', ''days'', ''hours''] (\<lambda>fs.
     bind_sum (json_default ''hosts_ids'' (vec_deserialize i32_deserialize) fs) (\<lambda>ids.
     bind_sum (json_required ''days'' u8_deserialize fs) (\<lambda>days.
     bind_sum (json_required ''hours'' u8_deserialize fs) (\<lambda>hours.
     Inr \<lparr>la_hosts_ids = ids, la_days = days, la_hours = hours\<rparr>))))"

definition LeaseRandomArgs_deserialize :: "json \<Rightarrow> string + LeaseRandomArgs" where
  "LeaseRandomArgs_deserialize = json_struct [''group_id'', ''days'', ''hours''] (\<lambda>fs.
     bind_sum (json_required ''group_id'' i32_deserialize fs) (\<lambda>group_id.
     bind_sum (json_required ''days'' u8_deserialize fs) (\<lambda>days.
     bind_sum (json_required ''hours'' u8_deserialize fs) (\<lambda>hours.
     Inr \<lparr>ra_group_id = group_id, ra_days = days, ra_hours = hours\<rparr>))))"

definition ReleaseHostsArgs_deserialize :: "json \<Rightarrow> string + i32 list" where
  "ReleaseHostsArgs_deserialize = json_struct [''hosts_ids'']
     (json_required ''hosts_ids'' (vec_deserialize i32_deserialize))"

definition GroupIdArgs_deserialize :: "json \<Rightarrow> string + i32" where
  "GroupIdArgs_deserialize = json_struct [''group_id''] (json_required ''group_id'' i32_deserialize)"

section \<open>Writing\<close>

text \<open>The listings; \<open>rfc3339\<close> is how chrono writes a point in time.\<close>

definition GroupInfo_serialize :: "GroupInfo \<Rightarrow> json" where
  "GroupInfo_serialize g =
     JObj [(''id'', GroupId_serialize (gi_id g)), (''name'', JStr (gi_name g))]"

definition LeaseInfo_serialize :: "(time \<Rightarrow> string) \<Rightarrow> LeaseInfo \<Rightarrow> json" where
  "LeaseInfo_serialize rfc3339 li =
     JObj [(''leased_until'', JStr (rfc3339 (li_leased_until li))),
       (''valid_for'', JStr (li_valid_for li)), (''leased_by'', JStr (li_leased_by li))]"

definition HostInfo_serialize :: "(time \<Rightarrow> string) \<Rightarrow> HostInfo \<Rightarrow> json" where
  "HostInfo_serialize rfc3339 i =
     JObj ([(''id'', HostId_serialize (hi_id i)), (''hostname'', JStr (hi_hostname i)),
        (''ip_address'', JStr (hi_ip_address i)),
        (''lease_info'', case hi_lease_info i of None \<Rightarrow> JNull | Some li \<Rightarrow> LeaseInfo_serialize rfc3339 li)]
       @ (case hi_group i of None \<Rightarrow> [] | Some g \<Rightarrow> [(''group'', GroupInfo_serialize g)]))"

text \<open>What a client takes from an entry of a listing, and the requests it makes of it.\<close>

definition entry_id :: "json \<Rightarrow> json" where
  "entry_id j = (case j of
     JObj fs \<Rightarrow> (case map_of fs ''id'' of Some i \<Rightarrow> i | None \<Rightarrow> JNull) | _ \<Rightarrow> JNull)"

definition lease_body :: "json list \<Rightarrow> u8 \<Rightarrow> u8 \<Rightarrow> json" where
  "lease_body ids days hours =
     JObj [(''hosts_ids'', JArr ids), (''days'', JNum (uint days)), (''hours'', JNum (uint hours))]"

definition release_body :: "json list \<Rightarrow> json" where
  "release_body ids = JObj [(''hosts_ids'', JArr ids)]"

definition random_body :: "json \<Rightarrow> u8 \<Rightarrow> u8 \<Rightarrow> json" where
  "random_body group_id days hours =
     JObj [(''group_id'', group_id), (''days'', JNum (uint days)), (''hours'', JNum (uint hours))]"

section \<open>What is read of what was written\<close>

lemma traverse_map: "(\<And>x. f (g x) = Inr (h x)) \<Longrightarrow> traverse f (map g xs) = Inr (map h xs)"
  by (induction xs) (simp_all add: bind_sum_def)

lemma traverse_none:
  assumes "\<And>x. \<exists>e. f (g x) = Inl e" and "xs \<noteq> []"
  shows "\<exists>e. traverse f (map g xs) = Inl e"
proof -
  obtain x ys where xs: "xs = x # ys" using assms(2) by (cases xs) auto
  obtain e where "f (g x) = Inl e" using assms(1) by blast
  with xs show ?thesis by (simp add: bind_sum_def)
qed

lemma number_deserialize [simp]:
  "u8_deserialize (JNum (uint b)) = Inr b" "i32_deserialize (JNum (sint v)) = Inr v"
proof -
  show "u8_deserialize (JNum (uint b)) = Inr b"
    using uint_range_size [of b] by (simp add: u8_deserialize_def word_size)
  show "i32_deserialize (JNum (sint v)) = Inr v"
    using sint_i32_bounds [of v] by (simp add: i32_deserialize_def)
qed

lemma entry_ids [simp]:
  "entry_id (HostInfo_serialize rfc3339 i) = JNum (sint (host_raw (hi_id i)))"
  "entry_id (GroupInfo_serialize g) = JNum (sint (group_raw (gi_id g)))"
  by (simp_all add: entry_id_def HostInfo_serialize_def GroupInfo_serialize_def HostId_serialize_def
      GroupId_serialize_def)

lemmas json_defs = json_struct_def json_default_def json_required_def json_field_def
  vec_deserialize_def bind_sum_def

text \<open>
  C35: the identifiers of a listing, sent back as they came. The tools read them and mean the hosts
  that were listed; the API, whose listing it is, refuses every request that names a host this way,
  and reads the identifiers if they are sent as texts, which the tools refuse. The identifier of a
  group both read as it was listed.
\<close>

theorem listed_ids_sent_back:
  "(LeaseHostsArgs_deserialize (lease_body (map (entry_id \<circ> HostInfo_serialize rfc3339) infos) d h) =
      Inr \<lparr>la_hosts_ids = map (host_raw \<circ> hi_id) infos, la_days = d, la_hours = h\<rparr>) \<and>
   ((\<exists>req. LeaseRequest_deserialize (lease_body (map (entry_id \<circ> HostInfo_serialize rfc3339) infos) d h) =
      Inr req) \<longleftrightarrow> infos = []) \<and>
   ((\<exists>ids. ReleaseRequest_deserialize (release_body (map (entry_id \<circ> HostInfo_serialize rfc3339) infos)) =
      Inr ids) \<longleftrightarrow> infos = []) \<and>
   (LeaseRequest_deserialize (lease_body (map (JStr \<circ> show_HostId \<circ> hi_id) infos) d h) =
      Inr \<lparr>lr_hosts_ids = map hi_id infos, lr_days = d, lr_hours = h\<rparr>) \<and>
   ((\<exists>args. LeaseHostsArgs_deserialize (lease_body (map (JStr \<circ> show_HostId \<circ> hi_id) infos) d h) =
      Inr args) \<longleftrightarrow> infos = []) \<and>
   (LeaseRandomRequest_deserialize (random_body (entry_id (GroupInfo_serialize g)) d h) =
      Inr \<lparr>rr_group_id = gi_id g, rr_days = d, rr_hours = h\<rparr>) \<and>
   (LeaseRandomArgs_deserialize (random_body (entry_id (GroupInfo_serialize g)) d h) =
      Inr \<lparr>ra_group_id = group_raw (gi_id g), ra_days = d, ra_hours = h\<rparr>)"
proof -
  let ?nums = "map (entry_id \<circ> HostInfo_serialize rfc3339) infos"
    and ?texts = "map (JStr \<circ> show_HostId \<circ> hi_id) infos"
  have nums: "traverse i32_deserialize ?nums = Inr (map (host_raw \<circ> hi_id) infos)"
    by (rule traverse_map) simp
  have texts: "traverse HostId_deserialize ?texts = Inr (map hi_id infos)"
    by (rule traverse_map) (simp add: HostId_deserialize_def host_text.from_str_to_string)
  have no_nums: "\<exists>e. traverse HostId_deserialize ?nums = Inl e" if "infos \<noteq> []"
    using that by (intro traverse_none) (simp_all add: HostId_deserialize_def)
  have no_texts: "\<exists>e. traverse i32_deserialize ?texts = Inl e" if "infos \<noteq> []"
    using that by (intro traverse_none) (simp_all add: i32_deserialize_def)
  have group: "GroupId_deserialize (entry_id (GroupInfo_serialize g)) = Inr (gi_id g)"
    using sint_i32_bounds [of "group_raw (gi_id g)"] by (simp add: GroupId_deserialize_def)
  note defs = lease_body_def release_body_def random_body_def LeaseHostsArgs_deserialize_def
    LeaseRequest_deserialize_def ReleaseRequest_deserialize_def LeaseRandomRequest_deserialize_def
    LeaseRandomArgs_deserialize_def json_defs
  show ?thesis
    using nums texts no_nums no_texts group
    by (cases "infos = []") (auto simp: defs simp del: list.map_comp)
qed

end
