(* ===== verification/Spec2Isabelle.thy ===== *)
theory Spec2Isabelle
  imports Hosts_Props Tokens_Props Users_Service Sessions Accounts Progress Startup
    Disclosure Pages Bodies
begin

text \<open>
  Tachikoma lends test hosts to users. Users lease hosts of a group for a time, give them back or
  extend the lease; a timer frees hosts whose time is over and warns their holders over Telegram;
  the directory (LDAP) says who a user is and which groups he is in, and the groups set how many
  hosts he may hold. This development models the program at the level of its database, its
  transactions and its handlers, and proves what its parts promise and what holds of the whole.

  \<^bold>\<open>The parts and the theories that model them\<close>, from the inside out:

  \<^item> \<open>Prelude\<close>: the outcome of a Rust call (value, error, panic), state passing, the \<open>?\<close> operator and
    the rules shared by all theories. \<open>Rust_Std\<close>: what is used of Rust's standard library and of
    chrono: byte strings, parsing and printing of integers and addresses, points in time.
  \<^item> \<open>Models\<close> (\<open>src/src/db/models.rs\<close>): identifiers and rows. \<open>Database\<close> (\<open>src/migrations\<close>): the tables
    with their constraints, the connection, and the server as a parameter that may answer, refuse,
    or execute a call and lose the answer. \<open>Registry\<close> (\<open>src/src/db/mod.rs\<close>): one definition per
    statement. \<open>Lease_Book\<close>, \<open>Invariant\<close>: who holds which host until when, as an interface with the
    updates of the registry as its instance, and the invariant \<open>db_ok\<close> with its preservation.
  \<^item> \<open>Hosts_Service\<close>, \<open>Hosts_Props\<close> (\<open>src/src/logic/hosts.rs\<close>): leasing, random leasing, releasing.
    \<open>Tokens_Service\<close>, \<open>Tokens_Props\<close> (\<open>src/src/logic/api_tokens.rs\<close>): API tokens over an interface of
    a credential store. \<open>Users_Service\<close> (\<open>src/src/logic/users.rs\<close>, \<open>groups.rs\<close>).
  \<^item> \<open>World\<close>, \<open>Notifications\<close>, \<open>Notifications_Props\<close> (\<open>src/src/logic/notifications.rs\<close>,
    \<open>message_senders.rs\<close>): clock, Bot API, the notifier over the interface of a message gateway.
    \<open>Release\<close>, \<open>Release_Props\<close> (\<open>src/src/logic/release.rs\<close>): the timer and its memory of warnings.
    \<open>Bot\<close>, \<open>Bot_Props\<close> (\<open>src/src/bot\<close>): the handlers of the bot and their dispatch.
  \<^item> \<open>Ldap\<close> (\<open>src/src/ldap/mod.rs\<close>): directory entries, searches, binds, and the two connection tasks
    as a step relation. \<open>Auth\<close>, \<open>Auth_Props\<close> (\<open>src/src/web/auth\<close>): login, sessions, bearer tokens.
  \<^item> \<open>Templates\<close>, \<open>Api\<close>, \<open>Web_Hosts\<close>, \<open>Web_Tokens\<close> (\<open>src/src/web\<close>), \<open>Mcp\<close> (\<open>src/src/mcp/mod.rs\<close>): the
    handlers of the JSON API, of the forms and pages, and of the tools. \<open>Frontends\<close>: the interface
    that the three front ends owe the hosts service, interpreted by each of them. \<open>Bodies\<close>: the JSON
    bodies and arguments as they are read and written. \<open>Router\<close> (\<open>src/src/web/mod.rs\<close>): the routes
    and the guard before each.
  \<^item> \<open>Config\<close> (\<open>src/src/configuration.rs\<close>) and \<open>Startup\<close> (\<open>src/src/bin/tachikoma.rs\<close>,
    \<open>src/src/lib.rs\<close>, \<open>src/src/telemetry.rs\<close>): the settings, how they are read, and how the program
    comes up from them.
  \<^item> \<open>Ledger\<close>: the abstract specification of the whole: known hosts and users, leases and
    credentials, actions with guards. \<open>System\<close>, \<open>System_Props\<close>: the program as one process that
    performs requests, updates of the bot and rounds of the timer on one database; every event
    refines an action of the ledger that its author may perform. \<open>Sessions\<close>: the sessions of browsers
    over time. \<open>Disclosure\<close>: what the answers can depend on. \<open>Pages\<close>: the page of the hosts, the
    fields of its form (\<open>src/templates/hosts_lease.html\<close>) and the handler that receives them.
    \<open>Scripts\<close>: every call that writes
    as the script of its statements, equal to the call when it runs alone. \<open>Interleaving\<close>,
    \<open>Accounts\<close>, \<open>Races\<close>: what holds and what fails when transactions overlap; \<open>Progress\<close>: that they
    come to an end. \<open>Sample\<close>: the small inputs of the witnesses.

  \<^bold>\<open>State.\<close> The state of a call grows by record extension: \<open>pg\<close> (the connection) inside \<open>world\<close> (with
  the messages sent and the clock), extended by the memory of the timer and, for the web layer, by the
  handles of the directory (\<open>site\<close>). Calls to the outside are numbered, so that every call may meet
  another answer; parameters are functions of that number.

  \<^bold>\<open>What is shown.\<close> Of each operation: under which guards it commits, what exactly it commits, and
  that it commits nothing else whatever the server does; on a server that answers, its outcome on
  every branch. Of the whole: refinement of the ledger, the reasons for which a lease can change,
  that no route changes anything for somebody who has not proved who he is, that whoever is served
  in a session has logged in as the user he is served as, and the bound on what a
  user can hold over every sequence of events. Of the overlap of transactions: that the database stays
  well-formed in every schedule, that all of them end even where they deadlock, that a release frees
  only hosts of its user,
  that first logins of one person make one account; and the races: the limits on hosts and tokens can
  be exceeded, two users can be given the same host, the timer can undo an extension, and an extension
  can prolong the lease of somebody else. Of the answers: that nothing of a user but his e-mail address
  shows in what others can ask for, logins included, by comparing two runs on databases that differ in
  the rest; that the page of the hosts lists the hosts of the chosen group and what its form can then
  lease. The front ends lease, release and list alike, except that the API
  does not read the host identifiers it lists;
  identifiers and tokens survive their round trips; with an accepted configuration the start panics
  only where the HTTP client of the bot cannot be made. The tasks of the directory end only by a bind
  of the service account that fails.

  \<^bold>\<open>Bounds.\<close> Identifiers and form fields have their machine width; lengths and limits are \<open>nat\<close>, times
  and time stamps \<open>int\<close> with the ranges of chrono and PostgreSQL written out where they are checked.
  The only fuel is the number of rounds of \<open>hosts_release_timer\<close>, whose loop never ends; the
  properties are about one round, and about any sequence of rounds in \<open>System\<close>. A call that
  writes executes at most six statements and locks at most as many hosts as there are, or three keys,
  so that as many rounds as there are hosts and seven more end it, whatever it meets; a round is any
  piece of a schedule in which every open transaction has a turn and is looked at by the detector of
  deadlocks. \<open>ldap_work\<close> carries the events of the directory tasks, histories and schedules
  are lists of any length.

  \<^bold>\<open>Parameters.\<close> The PostgreSQL server, Telegram, the directory, the clock, SHA-256 and MD5, the random
  bytes, the order of hash maps, the session store, the extractors and the header conversion of the
  HTTP library, and the values of the config crate. Hypotheses about them are their documented
  behaviour: that a server answers (\<open>fine\<close>), that Telegram delivers, that the key derivation accepts
  32 bytes, that only a login puts a user into a session (\<open>lawful_store\<close>).

  \<^bold>\<open>Not modelled.\<close> The HTML of the templates but for the fields of the lease form, the axum server with
  its layers, the transport of the tools: they are rendering or library code. Of the server's locks
  those of rows and unique keys are modelled, taken one by one, with its detector of deadlocks that
  rolls a waiting transaction back. Deletions of rows by an administrator are modelled
  (\<open>delete_user\<close>) but not interleaved.
\<close>

end
